(* ===== verification/Prelude.thy ===== *)
theory Prelude
  imports Main "HOL-Library.Word" "HOL-Library.Sublist" "HOL-Library.Multiset"
begin

text \<open>
  Shared vocabulary of the development: the ways a C execution can fail to return
  (\<open>fault\<close>), the result type of code that may fail in one of these ways (\<open>'a res\<close>) with its
  sequencing operator, the C integer conversions the server relies on, fixed-size character
  buffers, and the named collections of simplification rules the component theories extend.
\<close>

named_theorems res_simps \<open>evaluation of the result type and of its sequencing\<close>
named_theorems buf_simps \<open>evaluation of the fixed-size buffer operations\<close>

subsection \<open>Faults and results\<close>

text \<open>
  A C function that dereferences a null or dead pointer, leaves the bounds of an object, waits
  for a condition nobody can signal, or ends the process does not return to its caller. These
  outcomes are values here, so that every early return of the source stays distinct from them.
\<close>

datatype fault =
    NullDeref
  | DanglingDeref
  | OutOfBounds
  | Blocked
  | Exited

type_synonym 'a res = "fault + 'a"

definition bindR :: "'a res \<Rightarrow> ('a \<Rightarrow> 'b res) \<Rightarrow> 'b res" where
  "bindR m f = (case m of Inl e \<Rightarrow> Inl e | Inr x \<Rightarrow> f x)"

definition guardR :: "bool \<Rightarrow> fault \<Rightarrow> unit res" where
  "guardR b e = (if b then Inr () else Inl e)"

lemma bindR_Inl [simp, res_simps]: "bindR (Inl e) f = Inl e"
  by (simp add: bindR_def)

lemma bindR_Inr [simp, res_simps]: "bindR (Inr x) f = f x"
  by (simp add: bindR_def)

lemma bindR_assoc: "bindR (bindR m f) g = bindR m (\<lambda>x. bindR (f x) g)"
  by (cases m) simp_all

lemma bindR_Inr_right [simp]: "bindR m Inr = m"
  by (cases m) simp_all

lemma bindR_eq_Inr: "bindR m f = Inr y \<longleftrightarrow> (\<exists>x. m = Inr x \<and> f x = Inr y)"
  by (cases m) simp_all

lemma bindR_eq_InrE [elim?]:
  assumes "bindR m f = Inr y"
  obtains x where "m = Inr x" and "f x = Inr y"
  using assms by (cases m) simp_all

lemma bindR_cong [fundef_cong]:
  "m = m' \<Longrightarrow> (\<And>x. m' = Inr x \<Longrightarrow> f x = f' x) \<Longrightarrow> bindR m f = bindR m' f'"
  by (cases m') simp_all

lemma guardR_True [simp, res_simps]: "guardR True e = Inr ()"
  by (simp add: guardR_def)

lemma guardR_False [simp, res_simps]: "guardR False e = Inl e"
  by (simp add: guardR_def)

lemma guardR_eq_Inr [simp]: "guardR b e = Inr u \<longleftrightarrow> b"
  by (simp add: guardR_def)

subsection \<open>C integers\<close>

text \<open>
  \<open>c_int\<close> is the conversion of a value to a 32-bit \<^verbatim>\<open>int\<close>, \<open>c_ulong\<close> the conversion to a
  64-bit \<^verbatim>\<open>unsigned long\<close>, as the compilers of the target platform perform them.
\<close>

definition c_int :: "int \<Rightarrow> int" where
  "c_int x = signed_take_bit 31 x"

definition c_ulong :: "int \<Rightarrow> int" where
  "c_ulong x = take_bit 64 x"

lemma c_int_id: "- (2 ^ 31) \<le> x \<Longrightarrow> x < 2 ^ 31 \<Longrightarrow> c_int x = x"
  by (simp add: c_int_def signed_take_bit_int_eq_self)

lemma c_int_range: "- (2 ^ 31) \<le> c_int x \<and> c_int x < 2 ^ 31"
  using signed_take_bit_int_greater_eq_minus_exp [of 31 x]
    signed_take_bit_int_less_exp [of 31 x]
  by (simp add: c_int_def)

lemma c_ulong_id: "0 \<le> x \<Longrightarrow> x < 2 ^ 64 \<Longrightarrow> c_ulong x = x"
  by (simp add: c_ulong_def take_bit_int_eq_self)

subsection \<open>C strings and character buffers\<close>

text \<open>
  A C string is modelled by the characters before its terminator. \<open>NUL\<close> is the terminator;
  \<open>cstr_ok\<close> says that a HOL string is such a content. A character buffer is the list of its
  cells; \<open>buf_text\<close> reads it as the C string that starts at its first cell.
\<close>

abbreviation NUL :: char where
  "NUL \<equiv> CHR 0x00"

definition cstr_ok :: "string \<Rightarrow> bool" where
  "cstr_ok s \<longleftrightarrow> NUL \<notin> set s"

definition buf_text :: "string \<Rightarrow> string" where
  "buf_text b = takeWhile (\<lambda>c. c \<noteq> NUL) b"

text \<open>\<^verbatim>\<open>strcpy\<close> into an array of \<open>n\<close> characters: out of bounds unless text and terminator fit.\<close>

definition strcpyR :: "nat \<Rightarrow> string \<Rightarrow> string res" where
  "strcpyR n s = (if length s < n then Inr s else Inl OutOfBounds)"

lemma strcpyR_simps [buf_simps]:
  "length s < n \<Longrightarrow> strcpyR n s = Inr s"
  "n \<le> length s \<Longrightarrow> strcpyR n s = Inl OutOfBounds"
  by (simp_all add: strcpyR_def)

lemma strcpyR_eq_Inr [simp]: "strcpyR n s = Inr t \<longleftrightarrow> t = s \<and> length s < n"
  by (auto simp: strcpyR_def)

lemma buf_text_id [buf_simps]: "cstr_ok s \<Longrightarrow> buf_text s = s"
  by (auto simp: buf_text_def cstr_ok_def takeWhile_eq_all_conv)

lemma buf_text_append_NUL [buf_simps]: "cstr_ok s \<Longrightarrow> buf_text (s @ NUL # r) = s"
  by (auto simp: buf_text_def cstr_ok_def takeWhile_tail)

lemma cstr_ok_buf_text [simp]: "cstr_ok (buf_text b)"
  by (auto simp: buf_text_def cstr_ok_def dest: set_takeWhileD)

lemma cstr_ok_append [simp]: "cstr_ok (s @ t) \<longleftrightarrow> cstr_ok s \<and> cstr_ok t"
  by (auto simp: cstr_ok_def)

lemma cstr_ok_Cons [simp]: "cstr_ok (c # s) \<longleftrightarrow> c \<noteq> NUL \<and> cstr_ok s"
  by (auto simp: cstr_ok_def)

lemma cstr_ok_Nil [simp]: "cstr_ok []"
  by (simp add: cstr_ok_def)

subsection \<open>Lists\<close>

lemma take_Suc_update:
  "i < length xs \<Longrightarrow> take (Suc i) (xs[i := x]) = take i xs @ [x]"
  by (simp add: take_Suc_conv_app_nth)

lemma take_append_prefixD:
  assumes "take (length ys + k) xs = ys @ zs"
  shows "take (length ys) xs = ys"
  using arg_cong [OF assms, of "take (length ys)"] by simp

lemma take_update_le: "n \<le> i \<Longrightarrow> take n (xs[i := x]) = take n xs"
  by simp

lemma butlast_take_Suc: "butlast (take (Suc n) xs) = (if n < length xs then take n xs else butlast xs)"
  by (auto simp: take_Suc_conv_app_nth)

lemma sum_list_length_ge:
  "\<forall>c\<in>set cs. (c::'a list) \<noteq> [] \<Longrightarrow> length cs \<le> length (concat cs)"
  by (induction cs) (auto simp: Suc_le_eq add_strict_increasing)

lemma distinct_mset_eq: "mset xs = mset ys \<Longrightarrow> distinct xs = distinct ys"
  by (metis distinct_count_atmost_1 mset_eq_setD)

subsection \<open>Splitting at a separator\<close>

fun split_on :: "'a \<Rightarrow> 'a list \<Rightarrow> 'a list list" where
  "split_on x [] = [[]]"
| "split_on x (c # s) =
     (if c = x then [] # split_on x s
      else (case split_on x s of [] \<Rightarrow> [[c]] | w # ws \<Rightarrow> (c # w) # ws))"

lemma split_on_not_Nil [simp]: "split_on x s \<noteq> []"
  by (induction s) (auto split: list.splits)

lemma split_on_no_sep: "x \<notin> set s \<Longrightarrow> split_on x s = [s]"
  by (induction s) auto

lemma split_on_append_sep: "x \<notin> set s \<Longrightarrow> split_on x (s @ x # t) = s # split_on x t"
  by (induction s) auto

lemma split_on_append: "split_on x (s @ x # t) = split_on x s @ split_on x t"
  by (induction s) (auto split: list.splits)

lemma split_on_parts: "c \<in> set (split_on x s) \<Longrightarrow> x \<notin> set c"
  by (induction s arbitrary: c) (auto split: list.splits if_splits)

lemma split_on_chars: "c \<in> set (split_on x s) \<Longrightarrow> set c \<subseteq> set s"
proof (induction s arbitrary: c)
  case Nil
  then show ?case by simp
next
  case (Cons a s)
  obtain w ws where "split_on x s = w # ws" by (cases "split_on x s") auto
  with Cons.prems Cons.IH [of w] Cons.IH [of c] show ?case by (auto split: if_splits)
qed

lemma length_split_on: "length (split_on x s) = Suc (length (filter (\<lambda>c. c = x) s))"
  by (induction s) (auto split: list.splits)

lemma length_split_on_le: "length (split_on x s) \<le> Suc (length s)"
  by (simp add: length_split_on)

text \<open>The last part is what follows the last separator.\<close>

lemma last_split_on: "last (split_on x s) = rev (takeWhile (\<lambda>c. c \<noteq> x) (rev s))"
proof (induction s)
  case Nil
  then show ?case by simp
next
  case (Cons c s)
  obtain w ws where split: "split_on x s = w # ws" by (cases "split_on x s") auto
  show ?case
  proof (cases "x \<in> set s")
    case True
    have "ws \<noteq> []"
      using True split_on_parts [of w x s] length_split_on [of x s] split
      by (cases ws) (auto simp: filter_empty_conv)
    with True Cons split show ?thesis by (auto simp: takeWhile_append1)
  next
    case False
    with Cons split show ?thesis by (auto simp: split_on_no_sep takeWhile_append)
  qed
qed

subsection \<open>Texts that can be read back\<close>

text \<open>
  What the parts of the program that write a value as text and read it back rely on: for the values
  \<open>ok\<close> describes, reading gives the value that was written.
\<close>

locale codec =
  fixes enc :: "'a \<Rightarrow> 'b" and dec :: "'b \<Rightarrow> 'c + 'a" and ok :: "'a \<Rightarrow> bool"
  assumes dec_enc: "ok x \<Longrightarrow> dec (enc x) = Inr x"
begin

lemma enc_inj: "ok x \<Longrightarrow> ok y \<Longrightarrow> enc x = enc y \<longleftrightarrow> x = y"
  by (metis dec_enc sum.inject(2))

lemma enc_map_inj: "list_all ok xs \<Longrightarrow> list_all ok ys \<Longrightarrow> map enc xs = map enc ys \<longleftrightarrow> xs = ys"
proof (induction xs arbitrary: ys)
  case (Cons x xs)
  then show ?case by (cases ys) (simp_all add: enc_inj)
qed auto

end

end
