(* ===== verification/TaskQueue.thy ===== *)
theory TaskQueue
  imports Prelude
begin

text \<open>
  The message queue of \<^verbatim>\<open>server/taskQueue.c\<close> (\<^verbatim>\<open>TransFile\<close>, \<^verbatim>\<open>Node\<close> and \<^verbatim>\<open>TaskQueue\<close> of
  \<^verbatim>\<open>header.h\<close>): a singly linked list with head and tail pointers over an explicit heap, so that a
  pointer that outlives its node is visible. The theory states the list contract the workers
  rely on, shows where \<^verbatim>\<open>enqueue\<close> and \<^verbatim>\<open>dequeue\<close> meet it, and what the queue is where
  \<^verbatim>\<open>dequeue\<close> does not.
\<close>

subsection \<open>Data\<close>

record trans_file =
  tr_data :: string
  tr_length :: int
  tr_command :: int
  tr_flag :: bool
  tr_token :: string

text \<open>\<open>Frame\<close> is the address of the local node \<^verbatim>\<open>temp\<close> of a call of \<^verbatim>\<open>dequeue\<close>.\<close>

datatype ptr = Null | Cell nat | Frame

record node =
  nd_train :: trans_file
  nd_netfd :: int
  nd_next :: ptr

type_synonym cells = "nat \<Rightarrow> node option"

text \<open>
  The queue with the heap its nodes live in. \<open>q_brk\<close> is the next fresh address: an address is
  never handed out twice, and freeing one makes it unusable.
\<close>

record task_queue =
  q_cells :: cells
  q_brk :: nat
  q_head :: ptr
  q_tail :: ptr
  q_size :: int
  q_max :: int
  q_short :: int

text \<open>Commands 5 and 6, \<^verbatim>\<open>puts\<close> and \<^verbatim>\<open>gets\<close>, are the long ones.\<close>

definition long_command :: "int \<Rightarrow> bool" where
  "long_command c \<longleftrightarrow> c = 5 \<or> c = 6"

subsection \<open>Operations\<close>

definition load_cell :: "cells \<Rightarrow> ptr \<Rightarrow> (nat \<times> node) res" where
  "load_cell h p =
     (case p of
        Null \<Rightarrow> Inl NullDeref
      | Frame \<Rightarrow> Inl DanglingDeref
      | Cell a \<Rightarrow> (case h a of None \<Rightarrow> Inl DanglingDeref | Some nd \<Rightarrow> Inr (a, nd)))"

definition set_next :: "cells \<Rightarrow> ptr \<Rightarrow> ptr \<Rightarrow> cells res" where
  "set_next h p n = bindR (load_cell h p) (\<lambda>(a, nd). Inr (h(a \<mapsto> nd\<lparr>nd_next := n\<rparr>)))"

definition enqueue :: "task_queue \<Rightarrow> int \<Rightarrow> trans_file \<Rightarrow> (int \<times> task_queue) res" where
  "enqueue q netfd train =
     (if q_size q = q_max q then Inr (-1, q)
      else
        let a = q_brk q;
            fd_node = \<lparr>nd_train = train, nd_netfd = netfd, nd_next = Null\<rparr>;
            q = q\<lparr>q_cells := (q_cells q)(a \<mapsto> fd_node), q_brk := a + 1\<rparr>
        in bindR (if q_size q = 0 then Inr (q\<lparr>q_head := Cell a\<rparr>)
                  else bindR (set_next (q_cells q) (q_tail q) (Cell a))
                         (\<lambda>h. Inr (q\<lparr>q_cells := h\<rparr>))) (\<lambda>q.
           Inr (0, q\<lparr>q_tail := Cell a,
                     q_size := q_size q + 1,
                     q_short := q_short q + (if long_command (tr_command train) then 0 else 1)\<rparr>)))"

text \<open>
  \<^verbatim>\<open>p->next\<close> where \<open>p\<close> may be the frame node, whose \<open>next\<close> is \<open>tmp\<close>. The two loops of
  \<^verbatim>\<open>dequeue\<close> follow \<open>next\<close> pointers; a walk of more steps than there are addresses runs on a
  cycle and never ends.
\<close>

definition load_next :: "cells \<Rightarrow> ptr \<Rightarrow> ptr \<Rightarrow> ptr res" where
  "load_next h tmp p =
     (if p = Frame then Inr tmp else bindR (load_cell h p) (\<lambda>(a, nd). Inr (nd_next nd)))"

fun dq_search :: "nat \<Rightarrow> cells \<Rightarrow> ptr \<Rightarrow> bool \<Rightarrow> ptr \<Rightarrow> ptr \<Rightarrow> (ptr \<times> ptr) res" where
  "dq_search 0 h tmp is_short prev cur = Inl Blocked"
| "dq_search (Suc n) h tmp is_short prev cur =
     (if cur = Null then Inr (prev, cur)
      else bindR (load_cell h cur) (\<lambda>(a, nd).
        if long_command (tr_command (nd_train nd)) \<and> \<not> is_short then Inr (prev, cur)
        else if \<not> long_command (tr_command (nd_train nd)) \<and> is_short then Inr (prev, cur)
        else bindR (load_next h tmp prev) (\<lambda>prev'.
             dq_search n h tmp is_short prev' (nd_next nd))))"

fun dq_trace :: "nat \<Rightarrow> cells \<Rightarrow> ptr \<Rightarrow> unit res" where
  "dq_trace 0 h p = Inl Blocked"
| "dq_trace (Suc n) h p =
     (if p = Null then Inr ()
      else bindR (load_cell h p) (\<lambda>(a, nd). dq_trace n h (nd_next nd)))"

text \<open>
  The end of \<^verbatim>\<open>dequeue\<close>, from the test of \<^verbatim>\<open>cur->next\<close>: move the tail, take the message and
  the descriptor out of the node and free it.
\<close>

definition dq_finish :: "task_queue \<Rightarrow> ptr \<Rightarrow> ptr \<Rightarrow> (int \<times> trans_file option \<times> task_queue) res" where
  "dq_finish q prev cur =
     bindR (load_cell (q_cells q) cur) (\<lambda>(a, nd).
     let q = (if nd_next nd = Null then q\<lparr>q_tail := prev\<rparr> else q)
     in Inr (nd_netfd nd, Some (nd_train nd),
          q\<lparr>q_cells := (q_cells q)(a := None),
            q_size := q_size q - 1,
            q_short := q_short q - (if long_command (tr_command (nd_train nd)) then 0 else 1)\<rparr>))"

text \<open>\<open>is_short\<close> is \<^verbatim>\<open>pthread_self() == short_thread\<close>.\<close>

definition dequeue :: "bool \<Rightarrow> task_queue \<Rightarrow> (int \<times> trans_file option \<times> task_queue) res" where
  "dequeue is_short q =
     (if q_head q = Null then Inr (-1, None, q)
      else
        bindR (dq_search (q_brk q + 1) (q_cells q) (q_head q) is_short Frame (q_head q))
          (\<lambda>(prev, cur).
        bindR (dq_trace (q_brk q + 1) (q_cells q) (q_head q)) (\<lambda>_.
        if cur = Null \<and> \<not> is_short then
          bindR (load_next (q_cells q) Null (q_head q)) (\<lambda>nxt.
          dq_finish (q\<lparr>q_head := nxt\<rparr>) prev (q_head q))
        else if cur \<noteq> Null then
          bindR (load_next (q_cells q) Null cur) (\<lambda>nxt.
          if prev = Frame then dq_finish q prev cur
          else bindR (set_next (q_cells q) prev nxt) (\<lambda>h.
               dq_finish (q\<lparr>q_cells := h\<rparr>) prev cur))
        else Inr (-1, None, q))))"

subsection \<open>The contract: a list of tasks\<close>

type_synonym task = "int \<times> trans_file"

definition task_long :: "task \<Rightarrow> bool" where
  "task_long t \<longleftrightarrow> long_command (tr_command (snd t))"

text \<open>
  What a worker should get: the short-command worker the first short task, any other worker the
  first long task, and the first task of all when there is no long one.
\<close>

fun first_index :: "('a \<Rightarrow> bool) \<Rightarrow> 'a list \<Rightarrow> nat option" where
  "first_index P [] = None"
| "first_index P (x # xs) = (if P x then Some 0 else map_option Suc (first_index P xs))"

definition pick :: "bool \<Rightarrow> task list \<Rightarrow> nat option" where
  "pick is_short ts =
     (case first_index (\<lambda>t. task_long t \<noteq> is_short) ts of
        Some k \<Rightarrow> Some k
      | None \<Rightarrow> (if is_short \<or> ts = [] then None else Some 0))"

definition remove_nth :: "nat \<Rightarrow> 'a list \<Rightarrow> 'a list" where
  "remove_nth k xs = take k xs @ drop (k + 1) xs"

text \<open>
  The representation: \<open>seg h p as r\<close> says that following \<open>next\<close> from \<open>p\<close> visits the nodes \<open>as\<close>
  and arrives at \<open>r\<close>. An empty queue says nothing about its pointers, since every user tests
  \<open>queue_size\<close> first.
\<close>

primrec seg :: "cells \<Rightarrow> ptr \<Rightarrow> nat list \<Rightarrow> ptr \<Rightarrow> bool" where
  "seg h p [] r \<longleftrightarrow> p = r"
| "seg h p (a # as) r \<longleftrightarrow> p = Cell a \<and> (\<exists>nd. h a = Some nd \<and> seg h (nd_next nd) as r)"

definition node_task :: "cells \<Rightarrow> nat \<Rightarrow> task" where
  "node_task h a = (case h a of None \<Rightarrow> undefined | Some nd \<Rightarrow> (nd_netfd nd, nd_train nd))"

definition tasks_of :: "task_queue \<Rightarrow> nat list \<Rightarrow> task list" where
  "tasks_of q as = map (node_task (q_cells q)) as"

definition queue_rep :: "task_queue \<Rightarrow> nat list \<Rightarrow> bool" where
  "queue_rep q as \<longleftrightarrow>
     distinct as \<and> (\<forall>a\<in>set as. a < q_brk q) \<and>
     q_size q = int (length as) \<and>
     q_short q = int (length (filter (\<lambda>t. \<not> task_long t) (tasks_of q as))) \<and>
     (as \<noteq> [] \<longrightarrow> seg (q_cells q) (q_head q) as Null \<and> q_tail q = Cell (last as))"

definition queue_view :: "task_queue \<Rightarrow> task list \<Rightarrow> bool" where
  "queue_view q ts \<longleftrightarrow> (\<exists>as. queue_rep q as \<and> ts = tasks_of q as)"

text \<open>
  The calls of \<^verbatim>\<open>dequeue\<close> that keep the list intact: the task searched for is not the first of
  several.
\<close>

definition deq_safe :: "bool \<Rightarrow> task list \<Rightarrow> bool" where
  "deq_safe is_short ts \<longleftrightarrow>
     (case ts of t # u # us \<Rightarrow> task_long t = is_short | _ \<Rightarrow> True)"

definition empty_queue :: "int \<Rightarrow> task_queue" where
  "empty_queue mx =
     \<lparr>q_cells = Map.empty, q_brk = 0, q_head = Null, q_tail = Null, q_size = 0,
      q_max = mx, q_short = 0\<rparr>"

subsection \<open>List segments\<close>

lemma first_index_Some:
  "first_index P xs = Some k \<Longrightarrow> k < length xs \<and> P (xs ! k) \<and> (\<forall>j<k. \<not> P (xs ! j))"
proof (induction xs arbitrary: k)
  case Nil
  then show ?case by simp
next
  case (Cons x xs)
  then show ?case
    by (cases k) (auto split: if_splits simp: less_Suc_eq_0_disj)
qed

lemma first_index_None: "first_index P xs = None \<longleftrightarrow> (\<forall>x\<in>set xs. \<not> P x)"
  by (induction xs) auto

lemma first_index_map: "first_index P (map f xs) = first_index (\<lambda>x. P (f x)) xs"
  by (induction xs) auto

lemma seg_append: "seg h p (as @ bs) r \<longleftrightarrow> (\<exists>m. seg h p as m \<and> seg h m bs r)"
  by (induction as arbitrary: p) auto

lemma seg_upd [simp]: "a \<notin> set as \<Longrightarrow> seg (h(a := x)) p as r \<longleftrightarrow> seg h p as r"
  by (induction as arbitrary: p) auto

lemma node_task_upd [simp]:
  "node_task (h(a \<mapsto> nd)) a = (nd_netfd nd, nd_train nd)"
  "b \<noteq> a \<Longrightarrow> node_task (h(a := x)) b = node_task h b"
  by (simp_all add: node_task_def)

lemma load_cell_Cell: "h a = Some nd \<Longrightarrow> load_cell h (Cell a) = Inr (a, nd)"
  by (simp add: load_cell_def)

lemma load_cell_free: "h a = None \<Longrightarrow> load_cell h (Cell a) = Inl DanglingDeref"
  by (simp add: load_cell_def)

lemma load_next_simps:
  "load_next h tmp Frame = Inr tmp"
  "h a = Some nd \<Longrightarrow> load_next h tmp (Cell a) = Inr (nd_next nd)"
  by (simp_all add: load_next_def load_cell_def)

lemma dq_search_seg:
  assumes "seg h p as Null" and "length as < n" and "load_next h tmp prev = Inr p"
  shows "dq_search n h tmp s prev p =
    (case first_index (\<lambda>a. task_long (node_task h a) \<noteq> s) as of
       None \<Rightarrow> Inr ((prev # map Cell as) ! length as, Null)
     | Some k \<Rightarrow> Inr ((prev # map Cell as) ! k, Cell (as ! k)))"
  using assms
proof (induction as arbitrary: p prev n)
  case Nil
  then show ?case by (cases n) simp_all
next
  case (Cons a as)
  obtain m where n: "n = Suc m" using Cons.prems(2) by (cases n) auto
  obtain nd where nd: "h a = Some nd" "p = Cell a" "seg h (nd_next nd) as Null"
    using Cons.prems(1) by auto
  have task: "task_long (node_task h a) = long_command (tr_command (nd_train nd))"
    using nd by (simp add: task_long_def node_task_def)
  show ?case
  proof (cases "task_long (node_task h a) = s")
    case False
    with n nd task show ?thesis by (auto simp: load_cell_def)
  next
    case True
    have "dq_search n h tmp s prev p = dq_search m h tmp s p (nd_next nd)"
      using True n nd task Cons.prems(3) by (auto simp: load_cell_def)
    also have "\<dots> = (case first_index (\<lambda>a. task_long (node_task h a) \<noteq> s) as of
        None \<Rightarrow> Inr ((p # map Cell as) ! length as, Null)
      | Some k \<Rightarrow> Inr ((p # map Cell as) ! k, Cell (as ! k)))"
      using Cons.prems(2) n nd by (intro Cons.IH) (simp_all add: load_next_simps)
    finally show ?thesis using True nd by (auto split: option.splits)
  qed
qed

lemma dq_trace_seg: "seg h p as Null \<Longrightarrow> length as < n \<Longrightarrow> dq_trace n h p = Inr ()"
proof (induction as arbitrary: p n)
  case Nil
  then show ?case by (cases n) simp_all
next
  case (Cons a as)
  then obtain m where "n = Suc m" by (cases n) auto
  with Cons show ?case by (auto simp: load_cell_def)
qed

declare dq_search.simps [simp del] dq_trace.simps [simp del]

lemma queue_rep_fuel:
  assumes "queue_rep q as"
  shows "length as < q_brk q + 1"
proof -
  from assms have "distinct as" and "set as \<subseteq> {..<q_brk q}" by (auto simp: queue_rep_def)
  then have "length as \<le> card {..<q_brk q}"
    by (metis card_mono distinct_card finite_lessThan)
  then show ?thesis by simp
qed

subsection \<open>\<^verbatim>\<open>enqueue\<close> appends\<close>

lemma queue_rep_empty: "queue_rep (empty_queue mx) []"
  by (simp add: queue_rep_def empty_queue_def tasks_of_def)

lemma enqueue_full: "q_size q = q_max q \<Longrightarrow> enqueue q fd tr = Inr (-1, q)"
  by (simp add: enqueue_def)

lemma enqueue_rep:
  assumes rep: "queue_rep q as" and room: "q_size q \<noteq> q_max q"
  shows "\<exists>q'. enqueue q fd tr = Inr (0, q') \<and> queue_rep q' (as @ [q_brk q]) \<and>
    tasks_of q' (as @ [q_brk q]) = tasks_of q as @ [(fd, tr)] \<and> q_max q' = q_max q"
proof -
  let ?a = "q_brk q" and ?h = "q_cells q"
  let ?nd = "\<lparr>nd_train = tr, nd_netfd = fd, nd_next = Null\<rparr>"
  have fresh: "?a \<notin> set as" using rep by (auto simp: queue_rep_def)
  show ?thesis
  proof (cases as rule: rev_cases)
    case Nil
    with rep room show ?thesis
      by (auto simp: enqueue_def queue_rep_def tasks_of_def node_task_def task_long_def Let_def)
  next
    case (snoc bs b)
    with rep obtain ndb where seg: "seg ?h (q_head q) bs (Cell b)" and b: "?h b = Some ndb"
      "nd_next ndb = Null" and tail: "q_tail q = Cell b" and size: "q_size q \<noteq> 0"
      by (auto simp: queue_rep_def seg_append)
    have ne: "b \<noteq> ?a" "b \<notin> set bs" "?a \<notin> set bs" using fresh snoc rep by (auto simp: queue_rep_def)
    let ?h1 = "?h(?a \<mapsto> ?nd)"
    let ?h2 = "?h1(b \<mapsto> ndb\<lparr>nd_next := Cell ?a\<rparr>)"
    have "set_next ?h1 (Cell b) (Cell ?a) = Inr ?h2"
      using b ne by (simp add: set_next_def load_cell_def)
    with room size tail have step: "enqueue q fd tr = Inr (0, q\<lparr>q_cells := ?h2, q_brk := ?a + 1,
        q_tail := Cell ?a, q_size := q_size q + 1,
        q_short := q_short q + (if long_command (tr_command tr) then 0 else 1)\<rparr>)"
      (is "_ = Inr (0, ?q')")
      by (simp add: enqueue_def Let_def)
    have "map (node_task ?h2) (as @ [?a]) = map (node_task ?h) as @ [(fd, tr)]"
      using b ne snoc fresh by (auto simp: node_task_def)
    then have tasks: "tasks_of ?q' (as @ [?a]) = tasks_of q as @ [(fd, tr)]"
      by (simp add: tasks_of_def)
    have "seg ?h2 (q_head q) (as @ [?a]) Null"
      using seg ne snoc by (simp add: seg_append)
    with rep fresh have "queue_rep ?q' (as @ [?a])"
      unfolding queue_rep_def tasks by (auto simp: task_long_def)
    with step tasks show ?thesis by auto
  qed
qed

subsection \<open>\<^verbatim>\<open>dequeue\<close> takes the task searched for\<close>

text \<open>Freeing a node that follows another one.\<close>

lemma queue_rep_cases_at:
  assumes "queue_rep q as" and "k < length as"
  obtains nd where "q_cells q (as ! k) = Some nd" and "nd_next nd =
    (if k + 1 < length as then Cell (as ! (k + 1)) else Null)"
proof -
  let ?xs = "take k as" and ?ys = "drop (k + 1) as"
  have split: "as = ?xs @ as ! k # ?ys" using assms(2) by (simp add: id_take_nth_drop)
  have "seg (q_cells q) (q_head q) as Null" using assms by (auto simp: queue_rep_def)
  then have "seg (q_cells q) (q_head q) (?xs @ as ! k # ?ys) Null" using split by simp
  then obtain nd where nd: "q_cells q (as ! k) = Some nd" "seg (q_cells q) (nd_next nd) ?ys Null"
    by (auto simp only: seg_append seg.simps)
  have "nd_next nd = (if k + 1 < length as then Cell (as ! (k + 1)) else Null)"
  proof (cases "k + 1 < length as")
    case True
    then have "?ys = as ! (k + 1) # drop (k + 2) as" by (simp add: Cons_nth_drop_Suc)
    with nd(2) True show ?thesis by (simp only: seg.simps) simp
  next
    case False
    with nd(2) show ?thesis by simp
  qed
  with nd(1) show thesis by (rule that)
qed

lemma tasks_nth:
  "k < length as \<Longrightarrow> q_cells q (as ! k) = Some nd \<Longrightarrow> tasks_of q as ! k = (nd_netfd nd, nd_train nd)"
  by (simp add: tasks_of_def node_task_def)

lemma filter_remove_nth:
  assumes "k < length xs"
  shows "int (length (filter P (remove_nth k xs)))
    = int (length (filter P xs)) - (if P (xs ! k) then 1 else 0)"
proof -
  have "filter P xs = filter P (take k xs @ xs ! k # drop (Suc k) xs)"
    using id_take_nth_drop [OF assms] by simp
  then show ?thesis by (simp add: remove_nth_def)
qed

lemma remove_nth_map: "remove_nth k (map f xs) = map f (remove_nth k xs)"
  by (simp add: remove_nth_def take_map drop_map)

lemma length_remove_nth: "k < length xs \<Longrightarrow> length (remove_nth k xs) = length xs - 1"
  by (simp add: remove_nth_def)

lemma remove_nth_notin: "distinct xs \<Longrightarrow> k < length xs \<Longrightarrow> xs ! k \<notin> set (remove_nth k xs)"
  by (auto simp: remove_nth_def in_set_conv_nth nth_eq_iff_index_eq)

lemma set_remove_nth: "set (remove_nth k xs) \<subseteq> set xs"
  by (auto simp: remove_nth_def dest: in_set_takeD in_set_dropD)

text \<open>
  The common end of all successful calls: once the list without node \<open>k\<close> is linked again in a
  heap that keeps every node's task, \<open>dq_finish\<close> leaves a queue that represents it.
\<close>

text \<open>The node at index \<open>k\<close> was taken out of the queue and its task handed over.\<close>

definition hands_over :: "task_queue \<Rightarrow> nat list \<Rightarrow> nat \<Rightarrow> (int \<times> trans_file option \<times> task_queue) res \<Rightarrow> bool" where
  "hands_over q as k r \<longleftrightarrow> (\<exists>q'. r = Inr (fst (tasks_of q as ! k), Some (snd (tasks_of q as ! k)), q') \<and>
     queue_rep q' (remove_nth k as) \<and> tasks_of q' (remove_nth k as) = remove_nth k (tasks_of q as) \<and>
     q_max q' = q_max q)"

lemma dq_finish_rep:
  assumes rep: "queue_rep q as" and k: "k < length as"
    and h: "h (as ! k) = Some nd" "nd_next nd = Null \<longleftrightarrow> k + 1 = length as"
    and keep: "\<forall>a\<in>set as. node_task h a = node_task (q_cells q) a"
    and link: "remove_nth k as \<noteq> [] \<Longrightarrow> seg h hd' (remove_nth k as) Null"
    and tail: "k + 1 = length as \<Longrightarrow> 0 < k \<Longrightarrow> prev = Cell (as ! (k - 1))"
  shows "hands_over q as k (dq_finish (q\<lparr>q_head := hd', q_cells := h\<rparr>) prev (Cell (as ! k)))"
proof -
  let ?a = "as ! k" and ?bs = "remove_nth k as"
  let ?q = "q\<lparr>q_head := hd', q_cells := h\<rparr>"
  let ?q' = "(if nd_next nd = Null then ?q\<lparr>q_tail := prev\<rparr> else ?q)\<lparr>q_cells := h(?a := None),
    q_size := q_size q - 1,
    q_short := q_short q - (if long_command (tr_command (nd_train nd)) then 0 else 1)\<rparr>"
  have dist: "distinct as" using rep by (simp add: queue_rep_def)
  have task: "tasks_of q as ! k = (nd_netfd nd, nd_train nd)"
    using k h(1) keep nth_mem [OF k] node_task_def [of h "as ! k"]
    by (simp add: tasks_of_def)
  have step: "dq_finish ?q prev (Cell ?a) = Inr (nd_netfd nd, Some (nd_train nd), ?q')"
    using h by (simp add: dq_finish_def load_cell_def Let_def)
  have gone: "?a \<notin> set ?bs" using dist k by (rule remove_nth_notin)
  have "node_task (h(?a := None)) x = node_task (q_cells q) x" if "x \<in> set ?bs" for x
    using that gone keep set_remove_nth [of k as] by (cases "x = ?a") (auto simp: subset_iff)
  then have tasks: "tasks_of ?q' ?bs = remove_nth k (tasks_of q as)"
    by (simp add: tasks_of_def remove_nth_map)
  have short: "q_short ?q' = int (length (filter (\<lambda>t. \<not> task_long t) (tasks_of ?q' ?bs)))"
    using filter_remove_nth [of k "tasks_of q as" "\<lambda>t. \<not> task_long t"] k rep task
    unfolding tasks by (simp add: queue_rep_def task_long_def tasks_of_def)
  have segs: "seg (h(?a := None)) hd' ?bs Null" if "?bs \<noteq> []"
    using link that gone by simp
  have "q_tail ?q' = Cell (last ?bs)" if ne: "?bs \<noteq> []"
  proof (cases "k + 1 = length as")
    case True
    with ne have "0 < k" by (auto simp: remove_nth_def)
    with True k have "last ?bs = as ! (k - 1)"
      by (cases k) (simp_all add: remove_nth_def take_Suc_conv_app_nth)
    with True h tail \<open>0 < k\<close> show ?thesis by simp
  next
    case False
    with k have "last ?bs = last as" by (simp add: remove_nth_def last_append)
    with False h rep k show ?thesis by (auto simp: queue_rep_def)
  qed
  moreover have "distinct ?bs" using dist set_take_disj_set_drop_if_distinct [OF dist, of k "k + 1"]
    by (auto simp: remove_nth_def)
  ultimately have "queue_rep ?q' ?bs"
    using rep short segs set_remove_nth [of k as] k
    by (auto simp: queue_rep_def length_remove_nth subset_iff)
  with step task tasks show ?thesis by (auto simp: hands_over_def)
qed

text \<open>
  Reading the tasks and reading the nodes of a queue are the same search.
\<close>

lemma pick_eq:
  "pick is_short (tasks_of q as) =
     (case first_index (\<lambda>a. task_long (node_task (q_cells q) a) \<noteq> is_short) as of
        Some k \<Rightarrow> Some k
      | None \<Rightarrow> (if is_short \<or> as = [] then None else Some 0))"
  by (simp add: pick_def tasks_of_def first_index_map split: option.splits)

lemma dequeue_start:
  assumes rep: "queue_rep q as" and ne: "as \<noteq> []"
  shows "q_head q = Cell (hd as)"
    and "dq_search (q_brk q + 1) (q_cells q) (q_head q) s Frame (q_head q) =
      (case first_index (\<lambda>a. task_long (node_task (q_cells q) a) \<noteq> s) as of
         None \<Rightarrow> Inr (Cell (last as), Null)
       | Some k \<Rightarrow> Inr (if k = 0 then Frame else Cell (as ! (k - 1)), Cell (as ! k)))"
    and "dq_trace (q_brk q + 1) (q_cells q) (q_head q) = Inr ()"
proof -
  have seg: "seg (q_cells q) (q_head q) as Null" using rep ne by (simp add: queue_rep_def)
  note fuel = queue_rep_fuel [OF rep]
  show "q_head q = Cell (hd as)" using seg ne by (cases as) auto
  show "dq_trace (q_brk q + 1) (q_cells q) (q_head q) = Inr ()"
    by (rule dq_trace_seg [OF seg fuel])
  have "k < length as \<Longrightarrow> (Frame # map Cell as) ! k = (if k = 0 then Frame else Cell (as ! (k - 1)))"
    for k by (cases k) auto
  moreover have "(Frame # map Cell as) ! length as = Cell (last as)"
    using ne by (cases as rule: rev_cases) (auto simp: nth_append)
  ultimately show "dq_search (q_brk q + 1) (q_cells q) (q_head q) s Frame (q_head q) =
      (case first_index (\<lambda>a. task_long (node_task (q_cells q) a) \<noteq> s) as of
         None \<Rightarrow> Inr (Cell (last as), Null)
       | Some k \<Rightarrow> Inr (if k = 0 then Frame else Cell (as ! (k - 1)), Cell (as ! k)))"
    using dq_search_seg [OF seg fuel, of "q_head q" Frame s]
    by (auto simp: load_next_simps split: option.splits dest: first_index_Some)
qed

lemma seg_unlink:
  assumes seg: "seg h p as Null" and d: "distinct as" and k: "0 < k" "k < length as"
    and b: "h (as ! (k - 1)) = Some ndb" and a: "h (as ! k) = Some nda"
  shows "seg (h(as ! (k - 1) \<mapsto> ndb\<lparr>nd_next := nd_next nda\<rparr>)) p (remove_nth k as) Null"
proof -
  obtain j where j: "k = Suc j" using k(1) by (cases k) auto
  let ?xs = "take j as" and ?ys = "drop (Suc k) as"
  let ?h = "h(as ! j \<mapsto> ndb\<lparr>nd_next := nd_next nda\<rparr>)"
  have split: "as = ?xs @ as ! j # as ! k # ?ys"
    using k j by (metis Cons_nth_drop_Suc Suc_lessD append_take_drop_id)
  have rem: "remove_nth k as = ?xs @ as ! j # ?ys"
    using k j by (simp add: remove_nth_def take_Suc_conv_app_nth)
  have ds: "distinct (?xs @ as ! j # as ! k # ?ys)" using d split by simp
  have "seg h p (?xs @ as ! j # as ! k # ?ys) Null" using seg split by simp
  then have "seg h p ?xs (Cell (as ! j))" "seg h (nd_next nda) ?ys Null"
    using a by (auto simp only: seg_append seg.simps option.inject)
  with ds have "seg ?h p (?xs @ as ! j # ?ys) Null" by (auto simp: seg_append)
  then show ?thesis using rem j by simp
qed

text \<open>
  The queue meets its contract in every safe call: the worker gets the task it should get, and
  the rest stays in order.
\<close>

text \<open>The three ways: no task of the wanted kind, so the first one is taken; the head, which is safe
  only when it is alone; a node behind another, which is unlinked.\<close>

lemma dequeue_any:
  assumes rep: "queue_rep q as" and ne: "as \<noteq> []" and s: "\<not> s"
    and none: "first_index (\<lambda>a. task_long (node_task (q_cells q) a) \<noteq> s) as = None"
  shows "hands_over q as 0 (dequeue s q)"
proof -
  let ?h = "q_cells q"
  have len: "0 < length as" and seg: "seg ?h (q_head q) as Null" using rep ne by (auto simp: queue_rep_def)
  obtain nd where nd: "?h (as ! 0) = Some nd"
    "nd_next nd = (if 0 + 1 < length as then Cell (as ! (0 + 1)) else Null)"
    by (rule queue_rep_cases_at [OF rep len])
  have hd: "hd as = as ! 0" using ne by (simp add: hd_conv_nth)
  have "seg ?h (nd_next nd) (remove_nth 0 as) Null"
    using seg nd(1) hd ne by (cases as) (auto simp: remove_nth_def)
  then have "hands_over q as 0
      (dq_finish (q\<lparr>q_head := nd_next nd, q_cells := ?h\<rparr>) (Cell (last as)) (Cell (as ! 0)))"
    using nd Suc_leI [OF len] by (intro dq_finish_rep [OF rep len, of ?h nd]) auto
  moreover have "dequeue s q = dq_finish (q\<lparr>q_head := nd_next nd\<rparr>) (Cell (last as)) (Cell (as ! 0))"
    using dequeue_start [OF rep ne] none s nd(1) hd by (simp add: dequeue_def load_next_simps)
  ultimately show ?thesis by simp
qed

lemma dequeue_only:
  assumes rep: "queue_rep q [a]"
    and found: "first_index (\<lambda>a. task_long (node_task (q_cells q) a) \<noteq> s) [a] = Some 0"
  shows "hands_over q [a] 0 (dequeue s q)"
proof -
  let ?h = "q_cells q"
  obtain nd where nd: "?h ([a] ! 0) = Some nd"
    "nd_next nd = (if 0 + 1 < length [a] then Cell ([a] ! (0 + 1)) else Null)"
    by (rule queue_rep_cases_at [OF rep, of 0]) simp_all
  then have "hands_over q [a] 0 (dq_finish (q\<lparr>q_head := q_head q, q_cells := ?h\<rparr>) Frame (Cell ([a] ! 0)))"
    by (intro dq_finish_rep [OF rep, of 0 ?h nd]) (auto simp: remove_nth_def)
  moreover have "dequeue s q = dq_finish q Frame (Cell ([a] ! 0))"
    using dequeue_start [OF rep] found nd by (simp add: dequeue_def load_next_simps)
  ultimately show ?thesis by simp
qed

lemma dequeue_behind:
  assumes rep: "queue_rep q as" and k: "0 < k" "k < length as"
    and found: "first_index (\<lambda>a. task_long (node_task (q_cells q) a) \<noteq> s) as = Some k"
  shows "hands_over q as k (dequeue s q)"
proof -
  let ?h = "q_cells q"
  have ne: "as \<noteq> []" and k1: "k - 1 < length as" using k by auto
  have seg: "seg ?h (q_head q) as Null" and dist: "distinct as"
    using rep ne by (auto simp: queue_rep_def)
  obtain nd where nd: "?h (as ! k) = Some nd"
    "nd_next nd = (if k + 1 < length as then Cell (as ! (k + 1)) else Null)"
    by (rule queue_rep_cases_at [OF rep k(2)])
  obtain ndb where ndb: "?h (as ! (k - 1)) = Some ndb" by (rule queue_rep_cases_at [OF rep k1])
  let ?h1 = "?h(as ! (k - 1) \<mapsto> ndb\<lparr>nd_next := nd_next nd\<rparr>)"
  have other: "as ! (k - 1) \<noteq> as ! k" using dist k k1 by (simp add: nth_eq_iff_index_eq)
  have keep: "\<forall>a\<in>set as. node_task ?h1 a = node_task ?h a" using ndb by (auto simp: node_task_def)
  have "seg ?h1 (q_head q) (remove_nth k as) Null" by (rule seg_unlink [OF seg dist k ndb nd(1)])
  then have "hands_over q as k
      (dq_finish (q\<lparr>q_head := q_head q, q_cells := ?h1\<rparr>) (Cell (as ! (k - 1))) (Cell (as ! k)))"
    using nd other keep k by (intro dq_finish_rep [OF rep k(2), of ?h1 nd]) auto
  moreover have "set_next ?h (Cell (as ! (k - 1))) (nd_next nd) = Inr ?h1"
    using ndb by (simp add: set_next_def load_cell_def)
  then have "dequeue s q = dq_finish (q\<lparr>q_cells := ?h1\<rparr>) (Cell (as ! (k - 1))) (Cell (as ! k))"
    using dequeue_start [OF rep ne] found k(1) nd(1) by (simp add: dequeue_def load_next_simps)
  ultimately show ?thesis by simp
qed

lemma dequeue_rep:
  assumes rep: "queue_rep q as" and p: "pick s (tasks_of q as) = Some k"
    and safe: "deq_safe s (tasks_of q as)"
  shows "hands_over q as k (dequeue s q)"
proof (cases "first_index (\<lambda>a. task_long (node_task (q_cells q) a) \<noteq> s) as")
  case None
  with p have "k = 0" "\<not> s" "as \<noteq> []" by (auto simp: pick_eq split: if_splits)
  with dequeue_any [OF rep _ _ None] show ?thesis by simp
next
  case (Some i)
  with p have found: "first_index (\<lambda>a. task_long (node_task (q_cells q) a) \<noteq> s) as = Some k"
    by (simp add: pick_eq)
  from first_index_Some [OF this] have k: "k < length as" and "task_long (node_task (q_cells q) (as ! k)) \<noteq> s"
    by auto
  with safe have "k = 0 \<Longrightarrow> \<exists>a. as = [a]"
    by (cases as rule: remdups_adj.cases) (auto simp: deq_safe_def tasks_of_def)
  then show ?thesis
    using dequeue_only [of q _ s] dequeue_behind [OF rep _ k found] rep found by (cases "k = 0") auto
qed

lemma dequeue_view:
  assumes "queue_view q ts" and "pick s ts = Some k" and "deq_safe s ts"
  shows "\<exists>q'. dequeue s q = Inr (fst (ts ! k), Some (snd (ts ! k)), q') \<and>
    queue_view q' (remove_nth k ts) \<and> q_max q' = q_max q"
proof -
  from assms(1) obtain as where "queue_rep q as" and "ts = tasks_of q as"
    by (auto simp: queue_view_def)
  with dequeue_rep [of q as s k] assms(2,3) show ?thesis
    unfolding hands_over_def by (metis queue_view_def)
qed

lemma enqueue_view:
  assumes "queue_view q ts" and "q_size q \<noteq> q_max q"
  shows "\<exists>q'. enqueue q fd tr = Inr (0, q') \<and> queue_view q' (ts @ [(fd, tr)]) \<and> q_max q' = q_max q"
  using assms enqueue_rep [of q _ fd tr] unfolding queue_view_def by metis

lemma queue_view_size:
  assumes "queue_view q ts"
  shows "q_size q = int (length ts)"
    and "q_short q = int (length (filter (\<lambda>t. \<not> task_long t) ts))"
  using assms by (auto simp: queue_view_def queue_rep_def tasks_of_def)

lemma queue_view_empty: "queue_view (empty_queue mx) []"
  using queue_rep_empty [of mx] by (auto simp: queue_view_def tasks_of_def)

subsection \<open>\<^verbatim>\<open>dequeue\<close> when the task is the first of several\<close>

text \<open>
  The new successor is stored into the frame node and never into \<^verbatim>\<open>queue->head\<close>: the task is
  delivered, its node is freed, and the head still points at it.
\<close>

lemma dequeue_head_dangles:
  assumes rep: "queue_rep q as" and unsafe: "\<not> deq_safe s (tasks_of q as)"
  shows "\<exists>q'. dequeue s q = Inr (fst (tasks_of q as ! 0), Some (snd (tasks_of q as ! 0)), q') \<and>
    q_head q' = Cell (as ! 0) \<and> q_cells q' (as ! 0) = None \<and> 0 < q_size q'"
proof -
  obtain a b cs where as: "as = a # b # cs" and match: "task_long (node_task (q_cells q) a) \<noteq> s"
    using unsafe by (cases as rule: remdups_adj.cases) (auto simp: deq_safe_def tasks_of_def)
  have "as \<noteq> []" using as by simp
  note start = dequeue_start [OF rep this]
  have fi: "first_index (\<lambda>a. task_long (node_task (q_cells q) a) \<noteq> s) as = Some 0"
    using as match by simp
  have "0 < length as" using as by simp
  then obtain nd where nd: "q_cells q (as ! 0) = Some nd"
      "nd_next nd = (if 0 + 1 < length as then Cell (as ! (0 + 1)) else Null)"
    by (rule queue_rep_cases_at [OF rep])
  have "dequeue s q = dq_finish q Frame (Cell (as ! 0))"
    using start fi nd by (simp add: dequeue_def load_next_simps)
  moreover have "tasks_of q as ! 0 = (nd_netfd nd, nd_train nd)"
    using nd as by (simp add: tasks_of_def node_task_def)
  moreover have "q_head q = Cell (as ! 0)" using start as by simp
  moreover have "0 < q_size q - 1" using rep as by (simp add: queue_rep_def)
  ultimately show ?thesis using nd as by (auto simp: dq_finish_def load_cell_def)
qed

lemma dequeue_dangling: "q_head q = Cell a \<Longrightarrow> q_cells q a = None \<Longrightarrow> dequeue s q = Inl DanglingDeref"
  by (simp add: dequeue_def load_cell_def dq_search.simps)

lemma dequeue_unsafe_then:
  assumes "queue_rep q as" and "\<not> deq_safe s (tasks_of q as)" and "dequeue s q = Inr (fd, tr, q')"
  shows "dequeue s' q' = Inl DanglingDeref"
  using dequeue_head_dangles [OF assms(1,2)] assms(3) dequeue_dangling by auto

subsection \<open>Properties\<close>

text \<open>C16: the queue as a list: \<^verbatim>\<open>enqueue\<close> appends the task unless \<^verbatim>\<open>max_size\<close> tasks wait, when it returns -1 and
  changes nothing; \<^verbatim>\<open>dequeue\<close> returns and removes the task its policy picks (for the short worker
  the first short command, for others the first long one, else the head) whenever that task is
  not the first of several.\<close>

theorem queue_implements_list:
  assumes "queue_view q ts"
  shows "(if int (length ts) = q_max q then enqueue q fd tr = Inr (-1, q)
      else \<exists>q'. enqueue q fd tr = Inr (0, q') \<and> queue_view q' (ts @ [(fd, tr)])) \<and>
    (pick s ts \<noteq> None \<and> deq_safe s ts \<longrightarrow>
      (\<exists>q'. dequeue s q = Inr (fst (ts ! the (pick s ts)), Some (snd (ts ! the (pick s ts))), q') \<and>
        queue_view q' (remove_nth (the (pick s ts)) ts)))"
  using enqueue_full [of q fd tr] enqueue_view [OF assms, of fd tr] dequeue_view [OF assms, of s]
    queue_view_size(1) [OF assms] by (auto simp: not_None_eq)

lemma queue_implements_list_witness:
  "\<exists>q'. enqueue (empty_queue 12) 7 \<lparr>tr_data = [], tr_length = 0, tr_command = 5, tr_flag = False, tr_token = []\<rparr> = Inr (0, q') \<and>
     queue_view q' [(7, \<lparr>tr_data = [], tr_length = 0, tr_command = 5, tr_flag = False, tr_token = []\<rparr>)]"
  using queue_implements_list [OF queue_view_empty [of 12], of 7
      "\<lparr>tr_data = [], tr_length = 0, tr_command = 5, tr_flag = False, tr_token = []\<rparr>" True]
  by (simp add: empty_queue_def)

text \<open>C26: when the first of several queued tasks is of the kind the calling worker searches for (a long command
  for an ordinary worker, a short one for the short-command worker), \<^verbatim>\<open>dequeue\<close> unlinks it through its
  local dummy and frees its node, but leaves \<^verbatim>\<open>queue->head\<close> pointing at it: the call returns that task,
  and the next \<^verbatim>\<open>dequeue\<close> by any worker reads freed memory. (An ordinary worker that finds no long
  command and falls back to the first task moves \<^verbatim>\<open>queue->head\<close> on.)\<close>

theorem dequeue_head_use_after_free:
  assumes "queue_view q (t # u # us)" and "task_long t \<longleftrightarrow> \<not> is_short"
  shows "\<exists>q'. dequeue is_short q = Inr (fst t, Some (snd t), q') \<and> 0 < q_size q' \<and>
    (\<forall>s'. dequeue s' q' = Inl DanglingDeref)"
proof -
  from assms(1) obtain as where rep: "queue_rep q as" and ts: "t # u # us = tasks_of q as"
    by (auto simp: queue_view_def)
  have "\<not> deq_safe is_short (tasks_of q as)" using assms(2) by (simp add: deq_safe_def flip: ts)
  from dequeue_head_dangles [OF rep this] dequeue_dangling show ?thesis by (metis nth_Cons_0 ts)
qed

lemma dequeue_head_use_after_free_witness:
  "\<exists>q q'. queue_view q [(7, \<lparr>tr_data = [], tr_length = 0, tr_command = 0, tr_flag = False, tr_token = []\<rparr>),
      (8, \<lparr>tr_data = [], tr_length = 0, tr_command = 0, tr_flag = False, tr_token = []\<rparr>)] \<and>
    (\<exists>tr. dequeue True q = Inr (7, Some tr, q')) \<and> dequeue False q' = Inl DanglingDeref"
proof -
  let ?m = "\<lparr>tr_data = [], tr_length = 0, tr_command = 0, tr_flag = False, tr_token = []\<rparr>"
  obtain q1 where q1: "queue_view q1 [(7, ?m)]" "q_max q1 = 12"
    using enqueue_view [OF queue_view_empty [of 12], of 7 ?m] by (auto simp: empty_queue_def)
  obtain q where q: "queue_view q [(7, ?m), (8, ?m)]"
    using enqueue_view [OF q1(1), of 8 ?m] q1 queue_view_size(1) [OF q1(1)] by auto
  from dequeue_head_use_after_free [OF q, of True] q show ?thesis
    by (auto simp: task_long_def long_command_def)
qed

end
