(* ===== verification/WorkerPool.thy ===== *)
theory WorkerPool
  imports TaskQueue "HOL-Library.Multiset"
begin

text \<open>
  The workers of \<^verbatim>\<open>server/threadPool.c\<close> and the part of the thread function of
  \<^verbatim>\<open>server/thread.c\<close> that fetches tasks. What they rely on in the message queue is stated as a
  locale, \<open>task_channel\<close>, and proved of the queue's model; the lemmas about sequences of queue
  operations are proved once, from the contract.
\<close>

subsection \<open>The contract of the queue and its clients\<close>

datatype qop = Put int trans_file | Get bool

locale task_channel =
  fixes enq :: "'q \<Rightarrow> int \<Rightarrow> trans_file \<Rightarrow> (int \<times> 'q) res"
    and deq :: "bool \<Rightarrow> 'q \<Rightarrow> (int \<times> trans_file option \<times> 'q) res"
    and count :: "'q \<Rightarrow> int"
    and limit :: "'q \<Rightarrow> int"
    and shorts :: "'q \<Rightarrow> int"
    and view :: "'q \<Rightarrow> task list \<Rightarrow> bool"
  assumes enq_room: "view q ts \<Longrightarrow> count q \<noteq> limit q \<Longrightarrow>
      \<exists>q'. enq q fd tr = Inr (0, q') \<and> view q' (ts @ [(fd, tr)]) \<and> limit q' = limit q"
    and enq_full: "count q = limit q \<Longrightarrow> enq q fd tr = Inr (-1, q)"
    and deq_pick: "view q ts \<Longrightarrow> pick s ts = Some k \<Longrightarrow> deq_safe s ts \<Longrightarrow>
      \<exists>q'. deq s q = Inr (fst (ts ! k), Some (snd (ts ! k)), q') \<and> view q' (remove_nth k ts) \<and>
        limit q' = limit q"
    and count_view: "view q ts \<Longrightarrow> count q = int (length ts)"
    and shorts_view: "view q ts \<Longrightarrow> shorts q = int (length (filter (\<lambda>t. \<not> task_long t) ts))"
begin

text \<open>What the guard of a worker's wait loop means for the tasks behind it.\<close>

lemma guard_pick:
  assumes "view q ts" and "0 < count q" and "\<not> (s \<and> shorts q = 0)"
  shows "\<exists>k. pick s ts = Some k"
proof -
  have "ts \<noteq> []" using assms count_view by fastforce
  moreover have "\<exists>t\<in>set ts. \<not> task_long t" if s
    using that assms shorts_view by (fastforce simp: filter_empty_conv)
  ultimately show ?thesis
    by (cases s) (auto simp: pick_def first_index_None split: option.splits)
qed

lemma count_le_limit_enq:
  assumes "view q ts" and "count q \<le> limit q" and "enq q fd tr = Inr (r, q')"
  shows "count q' \<le> limit q'"
proof (cases "count q = limit q")
  case True
  with assms enq_full [OF True, of fd tr] show ?thesis by simp
next
  case False
  with enq_room [OF assms(1) False, of fd tr] assms count_view show ?thesis by fastforce
qed

end

text \<open>
  The tasks a sequence of operations accepts and delivers, and the tasks it leaves, on the
  list the contract speaks of.
\<close>

fun spec_run :: "nat \<Rightarrow> qop list \<Rightarrow> task list \<Rightarrow> task list \<times> task list \<times> task list" where
  "spec_run cap [] ts = ([], [], ts)"
| "spec_run cap (Put fd tr # ops) ts =
     (if length ts = cap then spec_run cap ops ts
      else let (acc, out, rest) = spec_run cap ops (ts @ [(fd, tr)]) in ((fd, tr) # acc, out, rest))"
| "spec_run cap (Get s # ops) ts =
     (case pick s ts of
        None \<Rightarrow> spec_run cap ops ts
      | Some k \<Rightarrow> let (acc, out, rest) = spec_run cap ops (remove_nth k ts) in (acc, ts ! k # out, rest))"

fun spec_safe :: "nat \<Rightarrow> qop list \<Rightarrow> task list \<Rightarrow> bool" where
  "spec_safe cap [] ts = True"
| "spec_safe cap (Put fd tr # ops) ts =
     spec_safe cap ops (if length ts = cap then ts else ts @ [(fd, tr)])"
| "spec_safe cap (Get s # ops) ts =
     (case pick s ts of
        None \<Rightarrow> False
      | Some k \<Rightarrow> deq_safe s ts \<and> spec_safe cap ops (remove_nth k ts))"

lemma pick_less: "pick s ts = Some k \<Longrightarrow> k < length ts"
  by (auto simp: pick_def dest: first_index_Some split: option.splits if_splits)

lemma mset_remove_nth: "k < length ts \<Longrightarrow> add_mset (ts ! k) (mset (remove_nth k ts)) = mset ts"
proof -
  assume "k < length ts"
  then have "mset ts = mset (take k ts @ ts ! k # drop (Suc k) ts)"
    by (simp only: id_take_nth_drop [symmetric])
  then show ?thesis by (simp add: remove_nth_def)
qed

text \<open>No task is lost or delivered twice.\<close>

lemma spec_run_conserves:
  "spec_run cap ops ts = (acc, out, rest) \<Longrightarrow>
   mset ts + mset acc = mset out + mset rest"
proof (induction cap ops ts arbitrary: acc out rest rule: spec_run.induct)
  case (2 cap fd tr ops ts)
  then show ?case by (auto split: if_splits prod.splits simp: add.assoc)
next
  case (3 cap s ops ts)
  show ?case
  proof (cases "pick s ts")
    case None
    with 3 show ?thesis by simp
  next
    case (Some k)
    obtain a' o' r' where run: "spec_run cap ops (remove_nth k ts) = (a', o', r')"
      by (cases "spec_run cap ops (remove_nth k ts)")
    with "3.IH"(2) [OF Some] have "mset (remove_nth k ts) + mset a' = mset o' + mset r'" by simp
    with run Some "3.prems" mset_remove_nth [OF pick_less [OF Some]] show ?thesis
      by (auto simp flip: mset_remove_nth [OF pick_less [OF Some]])
  qed
qed simp

lemma spec_run_length:
  "length ts \<le> cap \<Longrightarrow> spec_run cap ops ts = (acc, out, rest) \<Longrightarrow> length rest \<le> cap"
proof (induction cap ops ts arbitrary: acc out rest rule: spec_run.induct)
  case (2 cap fd tr ops ts)
  then show ?case by (auto split: if_splits prod.splits)
next
  case (3 cap s ops ts)
  then show ?case
    by (auto split: option.splits prod.splits simp: length_remove_nth dest!: pick_less)
qed simp

text \<open>The same sequence on a queue.\<close>

context task_channel begin

fun chan_run :: "qop list \<Rightarrow> 'q \<Rightarrow> (task list \<times> task list \<times> 'q) res" where
  "chan_run [] q = Inr ([], [], q)"
| "chan_run (Put fd tr # ops) q =
     bindR (enq q fd tr) (\<lambda>(r, q).
     bindR (chan_run ops q) (\<lambda>(acc, out, q).
     Inr (if r = 0 then (fd, tr) # acc else acc, out, q)))"
| "chan_run (Get s # ops) q =
     bindR (deq s q) (\<lambda>(fd, tr, q).
     bindR (chan_run ops q) (\<lambda>(acc, out, q).
     Inr (acc, (case tr of None \<Rightarrow> out | Some tr \<Rightarrow> (fd, tr) # out), q)))"

lemma chan_run_refines:
  assumes "view q ts" and "limit q = int cap" and "spec_safe cap ops ts"
  shows "\<exists>q'. chan_run ops q =
      Inr (fst (spec_run cap ops ts), fst (snd (spec_run cap ops ts)), q') \<and>
    view q' (snd (snd (spec_run cap ops ts))) \<and> limit q' = int cap"
  using assms
proof (induction cap ops ts arbitrary: q rule: spec_run.induct)
  case (1 cap ts)
  then show ?case by simp
next
  case (2 cap fd tr ops ts)
  show ?case
  proof (cases "length ts = cap")
    case True
    with 2 count_view have "count q = limit q" by simp
    then have "enq q fd tr = Inr (-1, q)" by (rule enq_full)
    with True 2 show ?thesis by auto
  next
    case False
    with 2 count_view have "count q \<noteq> limit q" by simp
    from enq_room [OF "2.prems"(1) this] obtain q' where
      q': "enq q fd tr = Inr (0, q')" "view q' (ts @ [(fd, tr)])" "limit q' = limit q" by blast
    with False 2 show ?thesis by (fastforce split: prod.splits)
  qed
next
  case (3 cap s ops ts)
  then obtain k where k: "pick s ts = Some k" "deq_safe s ts" by (auto split: option.splits)
  from deq_pick [OF "3.prems"(1) k] obtain q' where
    "deq s q = Inr (fst (ts ! k), Some (snd (ts ! k)), q')" "view q' (remove_nth k ts)"
    "limit q' = limit q" by blast
  with k 3 show ?case by (fastforce split: prod.splits)
qed

end

interpretation tq: task_channel enqueue dequeue q_size q_max q_short queue_view
proof
  fix q ts fd tr s k
  show "queue_view q ts \<Longrightarrow> q_size q \<noteq> q_max q \<Longrightarrow>
      \<exists>q'. enqueue q fd tr = Inr (0, q') \<and> queue_view q' (ts @ [(fd, tr)]) \<and> q_max q' = q_max q"
    by (rule enqueue_view)
  show "q_size q = q_max q \<Longrightarrow> enqueue q fd tr = Inr (-1, q)"
    by (rule enqueue_full)
  show "queue_view q ts \<Longrightarrow> pick s ts = Some k \<Longrightarrow> deq_safe s ts \<Longrightarrow>
      \<exists>q'. dequeue s q = Inr (fst (ts ! k), Some (snd (ts ! k)), q') \<and>
        queue_view q' (remove_nth k ts) \<and> q_max q' = q_max q"
    by (rule dequeue_view)
  show "queue_view q ts \<Longrightarrow> q_size q = int (length ts)"
    by (rule queue_view_size(1))
  show "queue_view q ts \<Longrightarrow> q_short q = int (length (filter (\<lambda>t. \<not> task_long t) ts))"
    by (rule queue_view_size(2))
qed

subsection \<open>The pool and a worker's turn\<close>

text \<open>
  \<^verbatim>\<open>PthreadPool\<close> without its mutex and condition variable: \<open>worker_poll\<close> is one turn of the
  thread function while it holds the mutex, from the lock (line 28) to the next
  \<^verbatim>\<open>pthread_cond_wait\<close>, exit, retry or task. Worker 0 is \<^verbatim>\<open>short_thread\<close>.
\<close>

record thread_pool =
  tp_num :: int
  tp_q :: task_queue
  tp_exit :: bool
  tp_pipe_in :: int

definition init_thread_pool :: "int \<Rightarrow> int \<Rightarrow> thread_pool" where
  "init_thread_pool num pipe_in =
     \<lparr>tp_num = num, tp_q = empty_queue (3 * num), tp_exit = False, tp_pipe_in = pipe_in\<rparr>"

datatype turn = Exits | Waits | Retries | Serves int trans_file

definition worker_poll :: "bool \<Rightarrow> thread_pool \<Rightarrow> (turn \<times> thread_pool) res" where
  "worker_poll is_short pool =
     (if q_size (tp_q pool) \<le> 0 \<or> (is_short \<and> q_short (tp_q pool) = 0) then
        Inr (if tp_exit pool then Exits else Waits, pool)
      else
        bindR (dequeue is_short (tp_q pool)) (\<lambda>(net_fd, train, q).
        let pool = pool\<lparr>tp_q := q\<rparr>
        in case train of
             None \<Rightarrow> Inr (Retries, pool)
           | Some tr \<Rightarrow>
               if net_fd = -1 then Inr (Retries, pool) else Inr (Serves net_fd tr, pool)))"

text \<open>The guard of the wait loop holds exactly when no task of the queue is for this worker.\<close>

lemma guard_iff_pick:
  assumes view: "queue_view q ts"
  shows "(q_size q \<le> 0 \<or> (s \<and> q_short q = 0)) \<longleftrightarrow> pick s ts = None"
proof
  assume "q_size q \<le> 0 \<or> (s \<and> q_short q = 0)"
  then have "ts = [] \<or> (s \<and> (\<forall>t\<in>set ts. task_long t))"
    using queue_view_size [OF view] by (auto simp: filter_empty_conv)
  then have "first_index (\<lambda>t. task_long t \<noteq> s) ts = None \<and> (s \<or> ts = [])"
    by (auto simp: first_index_None)
  then show "pick s ts = None" by (simp add: pick_def)
next
  assume "pick s ts = None"
  then show "q_size q \<le> 0 \<or> (s \<and> q_short q = 0)"
    using tq.guard_pick [OF view, of s] by fastforce
qed

lemma worker_poll_eq:
  assumes view: "queue_view (tp_q pool) ts" and safe: "pick s ts \<noteq> None \<Longrightarrow> deq_safe s ts"
    and fds: "\<forall>t\<in>set ts. fst t \<noteq> -1"
  shows "\<exists>pool'. worker_poll s pool =
      Inr (case pick s ts of
             None \<Rightarrow> if tp_exit pool then Exits else Waits
           | Some k \<Rightarrow> Serves (fst (ts ! k)) (snd (ts ! k)), pool') \<and>
    queue_view (tp_q pool') (case pick s ts of None \<Rightarrow> ts | Some k \<Rightarrow> remove_nth k ts) \<and>
    tp_exit pool' = tp_exit pool \<and> tp_num pool' = tp_num pool \<and>
    q_max (tp_q pool') = q_max (tp_q pool)"
proof (cases "pick s ts")
  case None
  with guard_iff_pick [OF view, of s] view show ?thesis by (auto simp: worker_poll_def)
next
  case (Some k)
  have nguard: "\<not> (q_size (tp_q pool) \<le> 0 \<or> (s \<and> q_short (tp_q pool) = 0))"
    using guard_iff_pick [OF view, of s] Some by simp
  from dequeue_view [OF view Some safe] Some obtain q' where
    "dequeue s (tp_q pool) = Inr (fst (ts ! k), Some (snd (ts ! k)), q')"
    "queue_view q' (remove_nth k ts)" "q_max q' = q_max (tp_q pool)" by auto
  moreover have "fst (ts ! k) \<noteq> -1" using fds pick_less [OF Some] by simp
  ultimately show ?thesis using nguard Some by (auto simp: worker_poll_def)
qed

text \<open>A message with no data and the given command number, for concrete runs.\<close>

definition message :: "int \<Rightarrow> trans_file" where
  "message c = \<lparr>tr_data = [], tr_length = 0, tr_command = c, tr_flag = False, tr_token = []\<rparr>"

lemma tr_command_message [simp]: "tr_command (message c) = c"
  by (simp add: message_def)

subsection \<open>Properties\<close>

text \<open>What a worker's turn does, for every content of the queue: it serves the task the policy
  picks for it (a long command, else the head, for an ordinary worker; the first short command
  for the short worker), it waits when there is none and exits when the pool is closing, and
  it never comes back empty-handed from \<^verbatim>\<open>dequeue\<close>.\<close>

theorem worker_turn:
  assumes "queue_view (tp_q pool) ts" and "pick s ts \<noteq> None \<Longrightarrow> deq_safe s ts"
    and "\<forall>t\<in>set ts. fst t \<noteq> -1"
  shows "\<exists>pool'. worker_poll s pool =
      Inr (case pick s ts of
             None \<Rightarrow> if tp_exit pool then Exits else Waits
           | Some k \<Rightarrow> Serves (fst (ts ! k)) (snd (ts ! k)), pool') \<and>
    queue_view (tp_q pool') (case pick s ts of None \<Rightarrow> ts | Some k \<Rightarrow> remove_nth k ts) \<and>
    tp_exit pool' = tp_exit pool"
  using worker_poll_eq [OF assms] by blast

lemma worker_turn_witness:
  "\<exists>pool'. worker_poll True (init_thread_pool 4 9) = Inr (Waits, pool') \<and> tp_exit pool' = False"
  using worker_turn [of "init_thread_pool 4 9" "[]" True]
  by (auto simp: init_thread_pool_def queue_view_empty pick_def)

text \<open>C30: no task is lost or served twice: over any sequence of \<^verbatim>\<open>enqueue\<close> and \<^verbatim>\<open>dequeue\<close> calls whose
  dequeues are safe, run on the queue of a fresh pool, the tasks accepted are the tasks
  delivered together with the tasks still queued, and never more than \<^verbatim>\<open>max_size\<close> are queued.\<close>

theorem queue_conserves_tasks:
  assumes "spec_safe (nat (3 * num)) ops []" and "0 \<le> num"
  shows "\<exists>acc out rest q. tq.chan_run ops (tp_q (init_thread_pool num p)) = Inr (acc, out, q) \<and>
    queue_view q rest \<and> mset acc = mset out + mset rest \<and> int (length rest) \<le> 3 * num"
proof -
  obtain acc out rest where run: "spec_run (nat (3 * num)) ops [] = (acc, out, rest)"
    by (cases "spec_run (nat (3 * num)) ops []")
  have "queue_view (tp_q (init_thread_pool num p)) []"
    by (simp add: init_thread_pool_def queue_view_empty)
  moreover have "q_max (tp_q (init_thread_pool num p)) = int (nat (3 * num))"
    using assms(2) by (simp add: init_thread_pool_def empty_queue_def)
  ultimately obtain q where
    "tq.chan_run ops (tp_q (init_thread_pool num p)) = Inr (acc, out, q)" "queue_view q rest"
    using tq.chan_run_refines [OF _ _ assms(1)] run by fastforce
  moreover have "int (length rest) \<le> 3 * num"
    using spec_run_length [OF _ run] assms(2) by simp
  ultimately show ?thesis using spec_run_conserves [OF run] by auto
qed

lemma queue_conserves_tasks_witness:
  "\<exists>acc out rest q. tq.chan_run [Put 7 (message 0), Put 8 (message 5), Get False]
        (tp_q (init_thread_pool 4 9)) = Inr (acc, out, q) \<and>
      queue_view q rest \<and> mset acc = mset out + mset rest \<and> int (length rest) \<le> 12"
  using queue_conserves_tasks [of 4 "[Put 7 (message 0), Put 8 (message 5), Get False]" 9]
  by (simp add: message_def pick_def deq_safe_def task_long_def long_command_def)

end
