(* ===== verification/Machine.thy ===== *)
theory Machine
  imports Prelude
begin

text \<open>
  Runs of step functions: the server loop, the workers' lock operations and the operations on the
  store are all steps \<open>step e s\<close> that may fault and a guard \<open>ok e s\<close> that says when \<open>e\<close> can happen.
  The interfaces below state what one step promises; what a run of any length promises follows once.
\<close>

subsection \<open>Runs\<close>

text \<open>A given list of events, each allowed when its turn comes, and any run of \<open>n\<close> steps.\<close>

fun run_of :: "('e \<Rightarrow> 's \<Rightarrow> bool) \<Rightarrow> ('e \<Rightarrow> 's \<Rightarrow> 's res) \<Rightarrow> 'e list \<Rightarrow> 's \<Rightarrow> 's res" where
  "run_of ok step [] s = Inr s"
| "run_of ok step (e # es) s = (if ok e s then bindR (step e s) (run_of ok step es) else Inl Blocked)"

text \<open>Every event of the list is allowed when its turn comes, as long as no step faults.\<close>

fun admits :: "('e \<Rightarrow> 's \<Rightarrow> bool) \<Rightarrow> ('e \<Rightarrow> 's \<Rightarrow> 's res) \<Rightarrow> 'e list \<Rightarrow> 's \<Rightarrow> bool" where
  "admits ok step [] s = True"
| "admits ok step (e # es) s = (ok e s \<and> (case step e s of Inl _ \<Rightarrow> True | Inr s' \<Rightarrow> admits ok step es s'))"

inductive steps :: "('e \<Rightarrow> 's \<Rightarrow> bool) \<Rightarrow> ('e \<Rightarrow> 's \<Rightarrow> 's res) \<Rightarrow> nat \<Rightarrow> 's \<Rightarrow> 's \<Rightarrow> bool"
  for ok :: "'e \<Rightarrow> 's \<Rightarrow> bool" and step :: "'e \<Rightarrow> 's \<Rightarrow> 's res" where
  none: "steps ok step 0 s s"
| more: "ok e s \<Longrightarrow> step e s = Inr s' \<Longrightarrow> steps ok step n s' s'' \<Longrightarrow> steps ok step (Suc n) s s''"

inductive_simps steps_0 [simp]: "steps ok step 0 s s'"
inductive_cases steps_SucE: "steps ok step (Suc n) s s'"

lemma run_of_append:
  "run_of ok step (es @ es') s = bindR (run_of ok step es s) (run_of ok step es')"
  by (induction es arbitrary: s) (simp_all add: bindR_assoc cong: bindR_cong)

lemma run_of_steps:
  "run_of ok step es s = Inr s' \<Longrightarrow> list_all p es \<Longrightarrow> steps (\<lambda>e s. p e \<and> ok e s) step (length es) s s'"
  by (induction es arbitrary: s) (auto simp: bindR_eq_Inr split: if_splits intro: steps.more)

subsection \<open>What a run inherits from its steps\<close>

text \<open>An invariant every step keeps.\<close>

locale machine =
  fixes ok :: "'e \<Rightarrow> 's \<Rightarrow> bool" and step :: "'e \<Rightarrow> 's \<Rightarrow> 's res" and inv :: "'s \<Rightarrow> bool"
  assumes inv_step: "inv s \<Longrightarrow> ok e s \<Longrightarrow> step e s = Inr s' \<Longrightarrow> inv s'"
begin

lemma run_inv: "inv s \<Longrightarrow> run_of ok step es s = Inr s' \<Longrightarrow> inv s'"
  by (induction es arbitrary: s) (auto simp: bindR_eq_Inr split: if_splits intro: inv_step)

lemma steps_inv: "steps ok step n s s' \<Longrightarrow> inv s \<Longrightarrow> inv s'"
  by (induction rule: steps.induct) (auto intro: inv_step)

end

text \<open>Steps that never fault where they are allowed: neither does a run.\<close>

locale safe_machine = machine +
  assumes safe_step: "inv s \<Longrightarrow> ok e s \<Longrightarrow> \<exists>s'. step e s = Inr s'"
begin

lemma run_returns: "inv s \<Longrightarrow> admits ok step es s \<Longrightarrow> \<exists>s'. run_of ok step es s = Inr s' \<and> inv s'"
proof (induction es arbitrary: s)
  case (Cons e es)
  then have e: "ok e s" by simp
  from safe_step [OF Cons.prems(1) e] obtain s1 where s1: "step e s = Inr s1" by blast
  with Cons.IH [of s1] inv_step [OF Cons.prems(1) e s1] Cons.prems(2) show ?case by simp
qed simp

end

text \<open>Steps that use something up: a run is no longer than what there is of it.\<close>

locale draining_machine = machine +
  fixes left :: "'s \<Rightarrow> nat"
  assumes drain_step: "inv s \<Longrightarrow> ok e s \<Longrightarrow> step e s = Inr s' \<Longrightarrow> left s' < left s"
begin

lemma steps_bounded: "steps ok step n s s' \<Longrightarrow> inv s \<Longrightarrow> n + left s' \<le> left s"
proof (induction rule: steps.induct)
  case (more e s s' n s'')
  with inv_step [of s e s'] drain_step [of s e s'] show ?case by force
qed simp

end

end
