(* ===== verification/ServerLoop.thy ===== *)
theory ServerLoop
  imports WorkerPool Machine
begin

text \<open>
  The event loop of the work process (\<^verbatim>\<open>server/main.c\<close>, \<^verbatim>\<open>server/tcpConnect.c\<close>) together with the
  thread function of \<^verbatim>\<open>server/thread.c\<close> around the handlers: who holds a client's descriptor at
  any moment, how it travels between epoll, the message queue, a worker and the pipe back to
  the loop, and when it is lost.
\<close>

subsection \<open>State and operations\<close>

text \<open>
  \<open>sv_open\<close> are the client descriptors the process has open, \<open>sv_epoll\<close> those epoll watches,
  \<open>sv_pipe\<close> the content of \<^verbatim>\<open>thread_pipe_fd\<close>. A worker is idle, runs a handler, or has left.
\<close>

datatype worker = Idle | Busy int trans_file | Ended

record server =
  sv_epoll :: "int list"
  sv_pool :: thread_pool
  sv_workers :: "worker list"
  sv_pipe :: "int list"
  sv_open :: "int list"
  sv_quit :: bool

text \<open>
  \<^verbatim>\<open>epoll_ctl(EPOLL_CTL_ADD)\<close> fails for a descriptor that is watched already or not open, and
  \<^verbatim>\<open>ERROR_CHECK\<close> then ends the process. Removing a descriptor has no check.
\<close>

definition add_node :: "int list \<Rightarrow> int list \<Rightarrow> int \<Rightarrow> int list res" where
  "add_node opened epfd fd =
     (if fd \<in> set epfd \<or> fd \<notin> set opened then Inl Exited else Inr (fd # epfd))"

definition remove_node :: "int list \<Rightarrow> int \<Rightarrow> int list" where
  "remove_node epfd fd = remove1 fd epfd"

text \<open>The three branches of the loop for the listening socket, the pipe and a client.\<close>

definition main_accept :: "int \<Rightarrow> server \<Rightarrow> server res" where
  "main_accept new_fd s =
     (if new_fd = -1 then Inl Exited
      else let opened = new_fd # sv_open s
           in bindR (add_node opened (sv_epoll s) new_fd) (\<lambda>ep.
              Inr (s\<lparr>sv_epoll := ep, sv_open := opened\<rparr>)))"

definition main_repost :: "server \<Rightarrow> server res" where
  "main_repost s =
     (case sv_pipe s of
        [] \<Rightarrow> Inl Blocked
      | client_fd # rest \<Rightarrow>
          bindR (add_node (sv_open s) (sv_epoll s) client_fd) (\<lambda>ep.
          Inr (s\<lparr>sv_epoll := ep, sv_pipe := rest\<rparr>)))"

definition main_client :: "int \<Rightarrow> trans_file option \<Rightarrow> server \<Rightarrow> server res" where
  "main_client client_fd received s =
     (let s = s\<lparr>sv_epoll := remove_node (sv_epoll s) client_fd\<rparr>
      in case received of
           None \<Rightarrow> Inr (s\<lparr>sv_open := remove1 client_fd (sv_open s)\<rparr>)
         | Some train \<Rightarrow>
             bindR (enqueue (tp_q (sv_pool s)) client_fd train) (\<lambda>(ret, q).
             Inr (s\<lparr>sv_pool := (sv_pool s)\<lparr>tp_q := q\<rparr>\<rparr>)))"

definition main_quit :: "server \<Rightarrow> server res" where
  "main_quit s = Inr (s\<lparr>sv_pool := (sv_pool s)\<lparr>tp_exit := True\<rparr>, sv_quit := True\<rparr>)"

text \<open>
  \<^verbatim>\<open>work_process_quit\<close> goes on to join every worker and ends the process; until all have left it
  waits (a five-second alarm ends it otherwise).
\<close>

definition main_join :: "server \<Rightarrow> server res" where
  "main_join s = (if \<forall>w\<in>set (sv_workers s). w = Ended then Inl Exited else Inl Blocked)"

definition worker_take :: "nat \<Rightarrow> server \<Rightarrow> server res" where
  "worker_take i s =
     (if i < length (sv_workers s) \<and> sv_workers s ! i = Idle then
        bindR (worker_poll (i = 0) (sv_pool s)) (\<lambda>(turn, pool).
        let s = s\<lparr>sv_pool := pool\<rparr>
        in Inr (case turn of
                  Waits \<Rightarrow> s
                | Retries \<Rightarrow> s
                | Exits \<Rightarrow> s\<lparr>sv_workers := (sv_workers s)[i := Ended]\<rparr>
                | Serves fd tr \<Rightarrow> s\<lparr>sv_workers := (sv_workers s)[i := Busy fd tr]\<rparr>))
      else Inl Blocked)"

text \<open>
  The end of a request: \<open>closed\<close> tells whether the handler has closed the descriptor. Only
  requests whose command number is neither 5 nor 6 give the descriptor back to the loop. The kernel
  takes a closed descriptor out of epoll.
\<close>

definition worker_finish :: "nat \<Rightarrow> bool \<Rightarrow> server \<Rightarrow> server res" where
  "worker_finish i closed s =
     (if i < length (sv_workers s) then
        (case sv_workers s ! i of
           Busy net_fd tr \<Rightarrow>
             let opened = (if closed then remove1 net_fd (sv_open s) else sv_open s);
                 watched = (if closed then remove1 net_fd (sv_epoll s) else sv_epoll s);
                 back = (if long_command (tr_command tr) then [] else [net_fd])
             in Inr (s\<lparr>sv_workers := (sv_workers s)[i := Idle], sv_open := opened, sv_epoll := watched,
                       sv_pipe := sv_pipe s @ back\<rparr>)
         | _ \<Rightarrow> Inl Blocked)
      else Inl Blocked)"

definition start_server :: "int \<Rightarrow> int \<Rightarrow> server" where
  "start_server num pipe_in =
     \<lparr>sv_epoll = [], sv_pool = init_thread_pool num pipe_in,
      sv_workers = replicate (nat num) Idle, sv_pipe = [], sv_open = [], sv_quit = False\<rparr>"

datatype event =
    Accept int
  | Readable int "trans_file option"
  | Repost
  | Quit
  | Take nat
  | Finish nat bool

fun sv_step :: "event \<Rightarrow> server \<Rightarrow> server res" where
  "sv_step (Accept fd) s = main_accept fd s"
| "sv_step (Readable fd m) s = main_client fd m s"
| "sv_step Repost s = main_repost s"
| "sv_step Quit s = main_quit s"
| "sv_step (Take i) s = worker_take i s"
| "sv_step (Finish i closed) s = worker_finish i closed s"

text \<open>
  What can happen next: the kernel gives \<^verbatim>\<open>accept\<close> a number no open descriptor has, epoll reports
  only descriptors it watches, the loop stops once the quit message was read, and a request ends at
  a worker that has one.
\<close>

fun allowed :: "event \<Rightarrow> server \<Rightarrow> bool" where
  "allowed (Accept fd) s \<longleftrightarrow> \<not> sv_quit s \<and> 0 \<le> fd \<and> fd \<notin> set (sv_open s)"
| "allowed (Readable fd m) s \<longleftrightarrow> \<not> sv_quit s \<and> fd \<in> set (sv_epoll s)"
| "allowed Repost s \<longleftrightarrow> \<not> sv_quit s \<and> sv_pipe s \<noteq> []"
| "allowed Quit s \<longleftrightarrow> \<not> sv_quit s"
| "allowed (Take i) s \<longleftrightarrow> i < length (sv_workers s) \<and> sv_workers s ! i = Idle"
| "allowed (Finish i closed) s \<longleftrightarrow> i < length (sv_workers s) \<and>
     (\<exists>fd tr. sv_workers s ! i = Busy fd tr)"

text \<open>
  A condition on the clients, which the code does not enforce: the handler is chosen by the command
  text, and it closes the descriptor for \<^verbatim>\<open>puts\<close> and \<^verbatim>\<open>gets\<close>; whether the descriptor goes back to the
  loop is decided by the number the client sent. \<open>numbered\<close> says that a request whose handler has
  closed its descriptor has a long command's number. The messages of the repository's client do
  (\<open>client_numbers_agree\<close> in \<open>ClientProps\<close>); what a message that does not leads to is
  \<open>closed_short_command_exits\<close>.
\<close>

fun numbered :: "event \<Rightarrow> server \<Rightarrow> bool" where
  "numbered (Finish i closed) s \<longleftrightarrow>
     (\<forall>fd tr. sv_workers s ! i = Busy fd tr \<and> closed \<longrightarrow> long_command (tr_command tr))"
| "numbered _ s \<longleftrightarrow> True"

abbreviation proper :: "event \<Rightarrow> server \<Rightarrow> bool" where
  "proper e s \<equiv> allowed e s \<and> numbered e s"

text \<open>The states of the runs in which every request is numbered by its text.\<close>

inductive reach :: "int \<Rightarrow> server \<Rightarrow> bool" for num :: int where
  start: "reach num (start_server num p)"
| step: "reach num s \<Longrightarrow> proper e s \<Longrightarrow> sv_step e s = Inr s' \<Longrightarrow> reach num s'"

text \<open>A concrete run; the events have to be allowed one after the other.\<close>

abbreviation sv_run :: "event list \<Rightarrow> server \<Rightarrow> server res" where
  "sv_run \<equiv> run_of proper sv_step"

interpretation loop: machine proper sv_step "reach num" for num
  by unfold_locales (rule reach.step)

lemmas run_eval = main_accept_def main_client_def main_repost_def worker_take_def worker_poll_def
  worker_finish_def add_node_def remove_node_def start_server_def init_thread_pool_def empty_queue_def
  enqueue_def set_next_def load_cell_def long_command_def eval_nat_numeral Let_def

subsection \<open>The tasks a queue's nodes hold\<close>

fun cell_tasks :: "cells \<Rightarrow> nat \<Rightarrow> task list" where
  "cell_tasks h 0 = []"
| "cell_tasks h (Suc n) =
     (case h n of None \<Rightarrow> cell_tasks h n | Some nd \<Rightarrow> (nd_netfd nd, nd_train nd) # cell_tasks h n)"

definition queue_tasks :: "task_queue \<Rightarrow> task list" where
  "queue_tasks q = cell_tasks (q_cells q) (q_brk q)"

definition queue_fds :: "task_queue \<Rightarrow> int list" where
  "queue_fds q = map fst (queue_tasks q)"

definition cells_below :: "task_queue \<Rightarrow> bool" where
  "cells_below q \<longleftrightarrow> (\<forall>a\<ge>q_brk q. q_cells q a = None)"

lemma cell_tasks_above: "n \<le> a \<Longrightarrow> cell_tasks (h(a := x)) n = cell_tasks h n"
  by (induction n) (auto split: option.splits)

lemma cell_tasks_relink:
  "h a = Some nd \<Longrightarrow> nd_netfd nd' = nd_netfd nd \<Longrightarrow> nd_train nd' = nd_train nd \<Longrightarrow>
   cell_tasks (h(a \<mapsto> nd')) n = cell_tasks h n"
  by (induction n) (auto split: option.splits)

lemma cell_tasks_free:
  "h a = Some nd \<Longrightarrow> a < n \<Longrightarrow>
   mset (cell_tasks h n) = add_mset (nd_netfd nd, nd_train nd) (mset (cell_tasks (h(a := None)) n))"
proof (induction n)
  case (Suc n)
  show ?case
  proof (cases "a = n")
    case True
    with Suc.prems have "cell_tasks (h(a := None)) n = cell_tasks h n"
      by (intro cell_tasks_above) simp
    with Suc.prems True show ?thesis by (simp del: fun_upd_apply) (simp add: fun_upd_same)
  next
    case False
    with Suc show ?thesis by (cases "h n") auto
  qed
qed simp

lemma load_cell_Inr: "load_cell h p = Inr (a, nd) \<longleftrightarrow> p = Cell a \<and> h a = Some nd"
  by (cases p) (auto simp: load_cell_def split: option.splits)

lemma cells_below_less: "cells_below q \<Longrightarrow> q_cells q a = Some nd \<Longrightarrow> a < q_brk q"
  by (metis cells_below_def leI option.distinct(1))

lemma enqueue_tasks:
  assumes "enqueue q fd tr = Inr (r, q')" and "cells_below q"
  shows "cells_below q' \<and>
    (if q_size q = q_max q then q' = q else mset (queue_tasks q') = add_mset (fd, tr) (mset (queue_tasks q)))"
proof (cases "q_size q = q_max q")
  case True
  with assms show ?thesis by (simp add: enqueue_def)
next
  case False
  let ?nd = "\<lparr>nd_train = tr, nd_netfd = fd, nd_next = Null\<rparr>"
  let ?h = "(q_cells q)(q_brk q \<mapsto> ?nd)"
  have base: "cell_tasks ?h (Suc (q_brk q)) = (fd, tr) # queue_tasks q"
    by (simp add: queue_tasks_def cell_tasks_above)
  show ?thesis
  proof (cases "q_size q = 0")
    case True
    with False assms have "q_cells q' = ?h" "q_brk q' = Suc (q_brk q)"
      by (auto simp: enqueue_def Let_def)
    with base False assms(2) show ?thesis
      by (simp add: queue_tasks_def cells_below_def)
  next
    case nz: False
    with False assms(1) obtain b ndb where b: "?h b = Some ndb"
      and q': "q_cells q' = ?h(b \<mapsto> ndb\<lparr>nd_next := Cell (q_brk q)\<rparr>)" "q_brk q' = Suc (q_brk q)"
      by (auto simp: enqueue_def Let_def set_next_def bindR_eq_Inr load_cell_Inr)
    have "cell_tasks (q_cells q') (q_brk q') = (fd, tr) # queue_tasks q"
      unfolding q' by (rule trans [OF cell_tasks_relink [of ?h, OF b] base]) simp_all
    moreover have "cells_below q'"
      using assms(2) b q' by (auto simp: cells_below_def split: if_splits)
    ultimately show ?thesis using False by (simp add: queue_tasks_def)
  qed
qed

lemma dq_finish_tasks:
  assumes "dq_finish q prev cur = Inr (fd, tr, q')" and "cells_below q"
  shows "cells_below q' \<and> tr \<noteq> None \<and> mset (queue_tasks q) = add_mset (fd, the tr) (mset (queue_tasks q'))"
proof -
  from assms(1) obtain a nd where a: "q_cells q a = Some nd" "fd = nd_netfd nd" "tr = Some (nd_train nd)"
    and q': "q_cells q' = (q_cells q)(a := None)" "q_brk q' = q_brk q"
    by (auto simp: dq_finish_def bindR_eq_Inr load_cell_Inr Let_def split: if_splits)
  with cell_tasks_free [of "q_cells q", OF a(1) cells_below_less [OF assms(2) a(1)]] assms(2)
  show ?thesis by (simp add: queue_tasks_def cells_below_def)
qed

lemma dequeue_tasks:
  assumes "dequeue s q = Inr (fd, tr, q')" and below: "cells_below q"
  shows "cells_below q' \<and>
    (if tr = None then q' = q else mset (queue_tasks q) = add_mset (fd, the tr) (mset (queue_tasks q')))"
proof -
  consider (none) "tr = None" "q' = q"
    | (plain) hd' prev cur where "dq_finish (q\<lparr>q_head := hd'\<rparr>) prev cur = Inr (fd, tr, q')"
    | (link) h prev nxt cur where "set_next (q_cells q) prev nxt = Inr h"
        "dq_finish (q\<lparr>q_cells := h\<rparr>) prev cur = Inr (fd, tr, q')"
  proof -
    have q: "q = q\<lparr>q_head := q_head q\<rparr>" by simp
    show ?thesis
      using assms(1) that unfolding dequeue_def
      by (auto simp: bindR_eq_Inr split: if_splits) (metis q)
  qed
  then show ?thesis
  proof cases
    case none
    with below show ?thesis by simp
  next
    case plain
    from dq_finish_tasks [OF this] below show ?thesis
      by (auto simp: cells_below_def queue_tasks_def)
  next
    case link
    then obtain a nd where a: "q_cells q a = Some nd" and h: "h = (q_cells q)(a \<mapsto> nd\<lparr>nd_next := nxt\<rparr>)"
      by (auto simp: set_next_def bindR_eq_Inr load_cell_Inr)
    have "cells_below (q\<lparr>q_cells := h\<rparr>)"
      using below a by (auto simp: h cells_below_def)
    from dq_finish_tasks [OF link(2) this] cell_tasks_relink [of "q_cells q", OF a, of "nd\<lparr>nd_next := nxt\<rparr>"]
    show ?thesis by (auto simp: queue_tasks_def h)
  qed
qed

text \<open>The same for the descriptors alone.\<close>

lemma tasks_fds: "mset (queue_tasks q') = add_mset t (mset (queue_tasks q)) \<Longrightarrow>
    mset (queue_fds q') = add_mset (fst t) (mset (queue_fds q))"
  by (simp add: queue_fds_def)

lemma enqueue_fds:
  assumes "enqueue q fd tr = Inr (r, q')" and "cells_below q"
  shows "cells_below q' \<and>
    (if q_size q = q_max q then q' = q else mset (queue_fds q') = add_mset fd (mset (queue_fds q)))"
  using enqueue_tasks [OF assms] tasks_fds [of q' "(fd, tr)" q] by auto

lemma dequeue_fds:
  assumes "dequeue s q = Inr (fd, tr, q')" and "cells_below q"
  shows "cells_below q' \<and>
    (if tr = None then q' = q else mset (queue_fds q) = add_mset fd (mset (queue_fds q')))"
  using dequeue_tasks [OF assms] tasks_fds [of q "(fd, the tr)" q'] by auto

text \<open>The two counters count the nodes and those of short commands.\<close>

abbreviation shorts :: "task list \<Rightarrow> int" where
  "shorts ts \<equiv> int (length (filter (\<lambda>t. \<not> task_long t) ts))"

definition tallied :: "task_queue \<Rightarrow> bool" where
  "tallied q \<longleftrightarrow> cells_below q \<and> q_size q = int (length (queue_tasks q)) \<and> q_short q = shorts (queue_tasks q)"

lemma shorts_mset: "mset ts' = add_mset t (mset ts) \<Longrightarrow>
    length ts' = Suc (length ts) \<and> shorts ts' = shorts ts + (if task_long t then 0 else 1)"
proof -
  assume "mset ts' = add_mset t (mset ts)"
  then have m: "mset ts' = mset (t # ts)" by simp
  then have "length ts' = length (t # ts)" by (rule mset_eq_length)
  moreover have "size (filter_mset (\<lambda>t. \<not> task_long t) (mset ts')) =
      size (filter_mset (\<lambda>t. \<not> task_long t) (mset (t # ts)))" unfolding m ..
  then have "length (filter (\<lambda>t. \<not> task_long t) ts') = length (filter (\<lambda>t. \<not> task_long t) (t # ts))"
    by (simp only: mset_filter [symmetric] size_mset)
  ultimately show ?thesis by simp
qed

lemma enqueue_counts:
  "enqueue q fd tr = Inr (r, q') \<Longrightarrow> q_size q \<noteq> q_max q \<Longrightarrow>
   q_size q' = q_size q + 1 \<and> q_short q' = q_short q + (if task_long (fd, tr) then 0 else 1)"
  by (auto simp: enqueue_def Let_def bindR_eq_Inr task_long_def split: if_splits)

lemma dq_finish_counts: "dq_finish q prev cur = Inr (fd, Some t, q') \<Longrightarrow>
    q_size q' = q_size q - 1 \<and> q_short q' = q_short q - (if task_long (fd, t) then 0 else 1)"
  by (auto simp: dq_finish_def bindR_eq_Inr Let_def task_long_def split: if_splits)

lemma dequeue_counts: "dequeue s q = Inr (fd, Some t, q') \<Longrightarrow>
    q_size q' = q_size q - 1 \<and> q_short q' = q_short q - (if task_long (fd, t) then 0 else 1)"
  by (auto simp: dequeue_def bindR_eq_Inr split: if_splits dest!: dq_finish_counts)

lemma tallied_empty: "tallied (empty_queue mx)"
  by (simp add: tallied_def cells_below_def empty_queue_def queue_tasks_def)

lemma tallied_enqueue:
  assumes e: "enqueue q fd tr = Inr (r, q')" and q: "tallied q"
  shows "tallied q'"
proof (cases "q_size q = q_max q")
  case True
  with e q show ?thesis by (simp add: enqueue_def)
next
  case False
  from enqueue_tasks [OF e] q False have "cells_below q'"
    "mset (queue_tasks q') = add_mset (fd, tr) (mset (queue_tasks q))" by (simp_all add: tallied_def)
  with enqueue_counts [OF e False] shorts_mset [of "queue_tasks q'" "(fd, tr)" "queue_tasks q"] q
  show ?thesis by (simp add: tallied_def)
qed

lemma tallied_dequeue: "dequeue s q = Inr (fd, tr, q') \<Longrightarrow> tallied q \<Longrightarrow> tallied q'"
proof (cases tr)
  case None
  assume "dequeue s q = Inr (fd, tr, q')" "tallied q"
  with None dequeue_tasks [of s q fd tr q'] show ?thesis by (simp add: tallied_def)
next
  case (Some t)
  assume d: "dequeue s q = Inr (fd, tr, q')" and q: "tallied q"
  from Some dequeue_tasks [OF d] q have "cells_below q'"
    "mset (queue_tasks q) = add_mset (fd, t) (mset (queue_tasks q'))" by (simp_all add: tallied_def)
  with dequeue_counts [of s q fd t q'] shorts_mset [of "queue_tasks q" "(fd, t)" "queue_tasks q'"] d q Some
  show ?thesis by (simp add: tallied_def)
qed

subsection \<open>Who holds a descriptor\<close>

definition worker_fds :: "worker list \<Rightarrow> int list" where
  "worker_fds ws = concat (map (\<lambda>w. case w of Busy fd tr \<Rightarrow> [fd] | _ \<Rightarrow> []) ws)"

text \<open>Watched by epoll, queued, in a worker's hands, or on the way back.\<close>

definition held_fds :: "server \<Rightarrow> int list" where
  "held_fds s = sv_epoll s @ queue_fds (tp_q (sv_pool s)) @ worker_fds (sv_workers s) @ sv_pipe s"

definition loop_inv :: "server \<Rightarrow> bool" where
  "loop_inv s \<longleftrightarrow> cells_below (tp_q (sv_pool s)) \<and> distinct (held_fds s) \<and>
     set (held_fds s) \<subseteq> set (sv_open s) \<and> distinct (sv_open s) \<and> (\<forall>fd\<in>set (sv_open s). 0 \<le> fd)"

lemma loop_inv_mset:
  assumes "loop_inv s" and "mset (held_fds s') = mset (held_fds s)" and "sv_open s' = sv_open s"
    and "cells_below (tp_q (sv_pool s'))"
  shows "loop_inv s'"
  using assms distinct_mset_eq [OF assms(2)] mset_eq_setD [OF assms(2)] by (simp add: loop_inv_def)

text \<open>A descriptor that leaves its place, and the process unless it stays open unheld.\<close>

lemma loop_inv_drop:
  assumes inv: "loop_inv s" and held: "mset (held_fds s) = add_mset fd (mset (held_fds s'))"
    and op: "sv_open s' = sv_open s \<or> sv_open s' = remove1 fd (sv_open s)"
    and "cells_below (tp_q (sv_pool s'))"
  shows "loop_inv s'"
proof -
  from held have "mset (held_fds s) = mset (fd # held_fds s')" by simp
  then have "distinct (fd # held_fds s')" "set (held_fds s) = set (fd # held_fds s')"
    using inv distinct_mset_eq mset_eq_setD unfolding loop_inv_def by blast+
  with inv op assms(4) show ?thesis by (auto simp: loop_inv_def)
qed

lemma worker_fds_mid:
  "worker_fds (xs @ x # ys) =
     worker_fds xs @ (case x of Busy fd tr \<Rightarrow> [fd] | _ \<Rightarrow> []) @ worker_fds ys"
  by (simp add: worker_fds_def)

lemma worker_fds_upd:
  assumes "i < length ws"
  shows "mset (worker_fds ws) + mset (case w of Busy fd tr \<Rightarrow> [fd] | _ \<Rightarrow> []) =
    mset (worker_fds (ws[i := w])) + mset (case ws ! i of Busy fd tr \<Rightarrow> [fd] | _ \<Rightarrow> [])"
proof -
  define xs ys x where "xs = take i ws" and "ys = drop (Suc i) ws" and "x = ws ! i"
  have "ws = xs @ x # ys" using assms by (simp add: id_take_nth_drop xs_def ys_def x_def)
  moreover have "ws[i := w] = xs @ w # ys" using assms by (simp add: upd_conv_take_nth_drop xs_def ys_def)
  moreover have "mset (worker_fds (xs @ x # ys)) + mset (case w of Busy fd tr \<Rightarrow> [fd] | _ \<Rightarrow> []) =
    mset (worker_fds (xs @ w # ys)) + mset (case x of Busy fd tr \<Rightarrow> [fd] | _ \<Rightarrow> [])"
    by (simp add: worker_fds_mid)
  ultimately show ?thesis by (simp add: x_def)
qed

lemma loop_inv_accept:
  assumes "loop_inv s" and "allowed (Accept fd) s" and "main_accept fd s = Inr s'"
  shows "loop_inv s'"
  using assms by (auto simp: main_accept_def add_node_def loop_inv_def held_fds_def split: if_splits)

lemma loop_inv_repost:
  assumes inv: "loop_inv s" and run: "main_repost s = Inr s'"
  shows "loop_inv s'"
proof -
  from run obtain fd rest where p: "sv_pipe s = fd # rest"
    and s': "s' = s\<lparr>sv_epoll := fd # sv_epoll s, sv_pipe := rest\<rparr>"
    by (auto simp: main_repost_def add_node_def split: list.splits if_splits)
  show ?thesis
    by (rule loop_inv_mset [OF inv]) (use inv in \<open>simp_all add: s' held_fds_def p loop_inv_def\<close>)
qed

lemma loop_inv_client:
  assumes inv: "loop_inv s" and fd: "fd \<in> set (sv_epoll s)" and run: "main_client fd m s = Inr s'"
  shows "loop_inv s'"
proof (cases m)
  case None
  then have s': "s' = s\<lparr>sv_epoll := remove1 fd (sv_epoll s), sv_open := remove1 fd (sv_open s)\<rparr>"
    using run by (simp add: main_client_def remove_node_def)
  have ep: "mset (sv_epoll s) = add_mset fd (mset (remove1 fd (sv_epoll s)))" using fd by simp
  show ?thesis
    by (rule loop_inv_drop [OF inv, of fd])
      (use inv ep in \<open>simp_all add: s' held_fds_def loop_inv_def\<close>)
next
  case (Some tr)
  then obtain r q where q: "enqueue (tp_q (sv_pool s)) fd tr = Inr (r, q)"
    and s': "s' = s\<lparr>sv_epoll := remove1 fd (sv_epoll s), sv_pool := (sv_pool s)\<lparr>tp_q := q\<rparr>\<rparr>"
    using run by (auto simp: main_client_def remove_node_def bindR_eq_Inr)
  from enqueue_fds [OF q] inv have e: "cells_below q" "if q_size (tp_q (sv_pool s)) = q_max (tp_q (sv_pool s))
      then q = tp_q (sv_pool s)
      else mset (queue_fds q) = add_mset fd (mset (queue_fds (tp_q (sv_pool s))))"
    by (auto simp: loop_inv_def)
  have ep: "mset (sv_epoll s) = add_mset fd (mset (remove1 fd (sv_epoll s)))" using fd by simp
  show ?thesis
  proof (cases "q_size (tp_q (sv_pool s)) = q_max (tp_q (sv_pool s))")
    case True
    show ?thesis
      by (rule loop_inv_drop [OF inv, of fd]) (use True e in \<open>simp_all add: s' held_fds_def ep del: mset_remove1\<close>)
  next
    case False
    show ?thesis
      by (rule loop_inv_mset [OF inv]) (use False e in \<open>simp_all add: s' held_fds_def ep del: mset_remove1\<close>)
  qed
qed

lemma worker_poll_fds:
  assumes run: "worker_poll s pool = Inr (t, pool')" and below: "cells_below (tp_q pool)"
  shows "cells_below (tp_q pool') \<and> mset (queue_fds (tp_q pool)) =
    mset (queue_fds (tp_q pool')) + mset (case t of Serves fd tr \<Rightarrow> [fd] | _ \<Rightarrow> []) \<or>
    (\<exists>q'. dequeue s (tp_q pool) = Inr (-1, Some q', tp_q pool') \<and> t = Retries)"
proof (cases "q_size (tp_q pool) \<le> 0 \<or> (s \<and> q_short (tp_q pool) = 0)")
  case True
  with run below show ?thesis by (auto simp: worker_poll_def split: if_splits)
next
  case False
  with run obtain fd tr q' where d: "dequeue s (tp_q pool) = Inr (fd, tr, q')"
    and "pool' = pool\<lparr>tp_q := q'\<rparr>"
    and "t = (case tr of None \<Rightarrow> Retries | Some x \<Rightarrow> if fd = -1 then Retries else Serves fd x)"
    by (auto simp: worker_poll_def bindR_eq_Inr Let_def split: option.splits if_splits)
  with dequeue_fds [OF d below] show ?thesis by (auto split: option.splits if_splits)
qed

text \<open>A worker's turn inside the process.\<close>

lemma worker_take_cases:
  assumes "worker_take i s = Inr s'"
  obtains t pool where "i < length (sv_workers s)" and "sv_workers s ! i = Idle"
    and "worker_poll (i = 0) (sv_pool s) = Inr (t, pool)"
    and "s' = (let s = s\<lparr>sv_pool := pool\<rparr> in case t of
        Waits \<Rightarrow> s | Retries \<Rightarrow> s
      | Exits \<Rightarrow> s\<lparr>sv_workers := (sv_workers s)[i := Ended]\<rparr>
      | Serves fd tr \<Rightarrow> s\<lparr>sv_workers := (sv_workers s)[i := Busy fd tr]\<rparr>)"
    and "sv_pool s' = pool" and "sv_epoll s' = sv_epoll s" and "sv_pipe s' = sv_pipe s"
    and "sv_open s' = sv_open s" and "sv_quit s' = sv_quit s"
proof -
  from assms obtain t pool where t: "i < length (sv_workers s)" "sv_workers s ! i = Idle"
    "worker_poll (i = 0) (sv_pool s) = Inr (t, pool)"
    and s': "s' = (let s = s\<lparr>sv_pool := pool\<rparr> in case t of
        Waits \<Rightarrow> s | Retries \<Rightarrow> s
      | Exits \<Rightarrow> s\<lparr>sv_workers := (sv_workers s)[i := Ended]\<rparr>
      | Serves fd tr \<Rightarrow> s\<lparr>sv_workers := (sv_workers s)[i := Busy fd tr]\<rparr>)"
    by (auto simp: worker_take_def bindR_eq_Inr Let_def split: if_splits)
  show ?thesis by (rule that [OF t s']; cases t; simp add: s' Let_def)
qed

lemma loop_inv_take:
  assumes inv: "loop_inv s" and run: "worker_take i s = Inr s'"
  shows "loop_inv s'"
proof -
  from run obtain t pool where i: "i < length (sv_workers s)" "sv_workers s ! i = Idle"
    and poll: "worker_poll (i = 0) (sv_pool s) = Inr (t, pool)"
    and s': "s' = (let s = s\<lparr>sv_pool := pool\<rparr> in case t of
        Waits \<Rightarrow> s | Retries \<Rightarrow> s
      | Exits \<Rightarrow> s\<lparr>sv_workers := (sv_workers s)[i := Ended]\<rparr>
      | Serves fd tr \<Rightarrow> s\<lparr>sv_workers := (sv_workers s)[i := Busy fd tr]\<rparr>)"
    by (rule worker_take_cases)
  have below: "cells_below (tp_q (sv_pool s))" using inv by (simp add: loop_inv_def)
  have nneg: "fd \<noteq> -1" if "fd \<in> set (queue_fds (tp_q (sv_pool s)))" for fd
    using that inv by (fastforce simp: loop_inv_def held_fds_def)
  from worker_poll_fds [OF poll below] have q: "cells_below (tp_q pool)"
    "mset (queue_fds (tp_q (sv_pool s))) =
      mset (queue_fds (tp_q pool)) + mset (case t of Serves fd tr \<Rightarrow> [fd] | _ \<Rightarrow> [])"
  proof (atomize (full), elim disjE exE conjE)
    fix tr assume "dequeue (i = 0) (tp_q (sv_pool s)) = Inr (-1, Some tr, tp_q pool)"
    from dequeue_fds [OF this below] have "- 1 \<in># mset (queue_fds (tp_q (sv_pool s)))" by simp
    with nneg show "cells_below (tp_q pool) \<and> mset (queue_fds (tp_q (sv_pool s))) =
      mset (queue_fds (tp_q pool)) + mset (case t of Serves fd tr \<Rightarrow> [fd] | _ \<Rightarrow> [])" by auto
  qed simp
  show ?thesis
    by (rule loop_inv_mset [OF inv])
      (use q i worker_fds_upd [OF i(1), of Ended] worker_fds_upd [OF i(1), of "Busy _ _"] in
        \<open>cases t; simp add: s' Let_def held_fds_def\<close>)+
qed

lemma busy_not_watched:
  assumes "loop_inv s" and "i < length (sv_workers s)" and "sv_workers s ! i = Busy fd tr"
  shows "remove1 fd (sv_epoll s) = sv_epoll s"
proof -
  have "fd \<in> set (worker_fds (sv_workers s))"
    using assms(2,3) nth_mem [of i "sv_workers s"] by (force simp: worker_fds_def)
  then have "fd \<notin> set (sv_epoll s)" using assms(1) by (auto simp: loop_inv_def held_fds_def)
  then show ?thesis by (rule remove1_idem)
qed

lemma loop_inv_finish:
  assumes inv: "loop_inv s" and al: "proper (Finish i closed) s" and run: "worker_finish i closed s = Inr s'"
  shows "loop_inv s'"
proof -
  from al obtain fd tr where i: "i < length (sv_workers s)" and w: "sv_workers s ! i = Busy fd tr"
    and c: "closed \<longrightarrow> long_command (tr_command tr)" by auto
  have upd: "mset (worker_fds (sv_workers s)) = add_mset fd (mset (worker_fds ((sv_workers s)[i := Idle])))"
    using worker_fds_upd [OF i, of Idle] w by simp
  show ?thesis
  proof (cases "long_command (tr_command tr)")
    case True
    show ?thesis
      by (rule loop_inv_drop [OF inv, of fd])
        (use run i w upd True inv busy_not_watched [OF inv i w] in \<open>auto simp: worker_finish_def held_fds_def loop_inv_def\<close>)
  next
    case False
    show ?thesis
      by (rule loop_inv_mset [OF inv])
        (use run i w upd False c inv in \<open>auto simp: worker_finish_def held_fds_def loop_inv_def\<close>)
  qed
qed

lemma loop_inv_quit: "loop_inv s \<Longrightarrow> main_quit s = Inr s' \<Longrightarrow> loop_inv s'"
  by (auto simp: main_quit_def loop_inv_def held_fds_def)

lemma loop_inv_step:
  assumes "loop_inv s" and "proper e s" and "sv_step e s = Inr s'"
  shows "loop_inv s'"
proof (cases e)
  case (Accept fd)
  with assms show ?thesis using loop_inv_accept [of s fd s'] by simp
next
  case (Readable fd m)
  with assms show ?thesis using loop_inv_client [of s fd m s'] by simp
next
  case Repost
  with assms show ?thesis using loop_inv_repost [of s s'] by simp
next
  case Quit
  with assms show ?thesis using loop_inv_quit [of s s'] by simp
next
  case (Take i)
  with assms show ?thesis using loop_inv_take [of s i s'] by simp
next
  case (Finish i closed)
  with assms show ?thesis using loop_inv_finish [of s i closed s'] by simp
qed

lemma reach_inv: "reach num s \<Longrightarrow> loop_inv s"
proof (induction rule: reach.induct)
  case (start p)
  have "worker_fds (replicate n Idle) = []" for n by (induction n) (simp_all add: worker_fds_def)
  then show ?case
    by (simp add: start_server_def loop_inv_def held_fds_def init_thread_pool_def empty_queue_def
        cells_below_def queue_fds_def queue_tasks_def)
next
  case (step s e s')
  then show ?case by (blast intro: loop_inv_step)
qed

subsection \<open>Properties\<close>

text \<open>C1: in every run of the event loop and the workers in which each request whose handler closes its
  descriptor carries the number of a long command (as the repository's client numbers them; the
  server does not check it), each client descriptor is in one place only (epoll, the queue, one
  worker's hands, or the pipe), so no client is served by two workers or polled while it is served,
  and everything held is open. (Without the condition it fails: C36.)\<close>

theorem one_holder_per_client:
  assumes "reach num s"
  shows "distinct (held_fds s) \<and> set (held_fds s) \<subseteq> set (sv_open s)"
  using reach_inv [OF assms] by (simp add: loop_inv_def)

lemma one_holder_per_client_witness:
  "\<exists>s. sv_run [Accept 7, Accept 8, Readable 7 (Some (message 0))] (start_server 4 5) = Inr s \<and>
     distinct (held_fds s) \<and> set (held_fds s) \<subseteq> set (sv_open s)"
proof -
  obtain s where run: "sv_run [Accept 7, Accept 8, Readable 7 (Some (message 0))] (start_server 4 5) = Inr s"
    by (simp add: run_eval)
  with one_holder_per_client [OF loop.run_inv [OF reach.start run]] show ?thesis by blast
qed

text \<open>The event loop itself never ends the process: in a reachable state no allowed event makes
  \<^verbatim>\<open>add_node\<close> fail (which would exit), and the read of the worker pipe does not block.\<close>

theorem loop_never_exits:
  assumes "reach num s" and "allowed e s" and "e = Accept fd \<or> e = Repost"
  shows "\<exists>s'. sv_step e s = Inr s' \<and> reach num s'"
proof -
  have "\<exists>s'. sv_step e s = Inr s'"
    using assms(2,3) reach_inv [OF assms(1)]
    by (auto simp: main_accept_def main_repost_def add_node_def loop_inv_def held_fds_def
        neq_Nil_conv)
  moreover have "proper e s" using assms(2,3) by auto
  ultimately show ?thesis using reach.step [OF assms(1)] by blast
qed

lemma loop_never_exits_witness:
  "\<exists>s'. sv_step (Accept 7) (start_server 4 5) = Inr s' \<and> reach 4 s'"
  using loop_never_exits [OF reach.start, of "Accept 7" 4 5 7] by (simp add: start_server_def)

text \<open>C35: in a run as in C1, a request that arrives while the queue is full is dropped together with its client: the
  descriptor has left epoll, \<^verbatim>\<open>enqueue\<close>'s -1 is ignored, and the descriptor stays open although
  nothing in the server holds it any more.\<close>

theorem full_queue_loses_client:
  assumes "reach num s" and "fd \<in> set (sv_epoll s)" and "q_size (tp_q (sv_pool s)) = q_max (tp_q (sv_pool s))"
  shows "\<exists>s'. main_client fd (Some train) s = Inr s' \<and> fd \<in> set (sv_open s') \<and>
    fd \<notin> set (held_fds s') \<and> tp_q (sv_pool s') = tp_q (sv_pool s)"
  using reach_inv [OF assms(1)] assms(2,3)
  by (auto simp: main_client_def enqueue_full loop_inv_def held_fds_def remove_node_def)

lemma full_queue_loses_client_witness:
  "\<exists>s s'. sv_run [Accept 7, Accept 8, Accept 9, Accept 10, Readable 7 (Some (message 0)),
        Readable 8 (Some (message 0)), Readable 9 (Some (message 0))] (start_server 1 5) = Inr s \<and>
     main_client 10 (Some (message 0)) s = Inr s' \<and> 10 \<in> set (sv_open s') \<and> 10 \<notin> set (held_fds s')"
proof -
  obtain s where run: "sv_run [Accept 7, Accept 8, Accept 9, Accept 10, Readable 7 (Some (message 0)),
        Readable 8 (Some (message 0)), Readable 9 (Some (message 0))] (start_server 1 5) = Inr s"
    and "10 \<in> set (sv_epoll s)" and "q_size (tp_q (sv_pool s)) = q_max (tp_q (sv_pool s))"
    by (simp add: run_eval)
  from full_queue_loses_client [OF loop.run_inv [OF reach.start run] this(2,3), of "message 0"] run
  show ?thesis by blast
qed



end
