(* ===== verification/ServerProgress.thy ===== *)
theory ServerProgress
  imports ServerLoop
begin

text \<open>
  Progress of the work process of \<open>ServerLoop\<close>: once requests are queued, the turns of the workers
  and of the loop that serve them run out after a number of steps known in advance, none of them
  fails, and when none is left every client is watched by epoll again.
\<close>

subsection \<open>The queue's size counts its nodes\<close>

definition counted :: "server \<Rightarrow> bool" where
  "counted s \<longleftrightarrow> tallied (tp_q (sv_pool s))"

lemma counted_poll:
  assumes "worker_poll s pool = Inr (t, pool')" and "tallied (tp_q pool)"
  shows "tallied (tp_q pool')"
  using assms tallied_dequeue
  by (fastforce simp: worker_poll_def bindR_eq_Inr Let_def split: if_splits option.splits)

lemma counted_step:
  assumes c: "counted s" and run: "sv_step e s = Inr s'"
  shows "counted s'"
proof -
  show ?thesis
  proof (cases e)
    case (Readable fd m)
    with run c tallied_enqueue show ?thesis
      by (auto simp: counted_def main_client_def bindR_eq_Inr Let_def split: option.splits)
  next
    case (Take i)
    with run have "worker_take i s = Inr s'" by simp
    then obtain t pool where poll: "worker_poll (i = 0) (sv_pool s) = Inr (t, pool)" and "sv_pool s' = pool"
      by (rule worker_take_cases)
    then show ?thesis using counted_poll [OF poll] c by (simp add: counted_def)
  qed (use run c in \<open>auto simp: counted_def main_accept_def main_repost_def main_quit_def
      worker_finish_def bindR_eq_Inr Let_def split: if_splits list.splits worker.splits\<close>)
qed

lemma reach_counted: "reach num s \<Longrightarrow> counted s"
proof (induction rule: reach.induct)
  case (start p)
  show ?case by (simp add: counted_def start_server_def init_thread_pool_def tallied_empty)
next
  case (step s e s')
  with counted_step [OF step.IH] show ?case by blast
qed

text \<open>So a queue that represents a list of tasks holds these tasks and no others.\<close>

lemma cell_tasks_mset:
  "mset (cell_tasks h n) = image_mset (node_task h) (mset_set {a. a < n \<and> h a \<noteq> None})"
proof (induction n)
  case (Suc n)
  have "{a. a < Suc n \<and> h a \<noteq> None} =
      (if h n = None then {a. a < n \<and> h a \<noteq> None} else insert n {a. a < n \<and> h a \<noteq> None})"
    by (auto simp: less_Suc_eq)
  with Suc show ?case by (auto simp: node_task_def split: option.splits)
qed simp

lemma seg_live: "seg h p as r \<Longrightarrow> a \<in> set as \<Longrightarrow> h a \<noteq> None"
  by (induction as arbitrary: p) auto

lemma view_tasks:
  assumes "queue_view q ts" and "int (length (queue_tasks q)) = q_size q"
  shows "mset (queue_tasks q) = mset ts"
proof -
  from assms(1) obtain as where rep: "queue_rep q as" and ts: "ts = tasks_of q as"
    by (auto simp: queue_view_def)
  let ?L = "{a. a < q_brk q \<and> q_cells q a \<noteq> None}"
  have d: "distinct as" and sub: "set as \<subseteq> ?L" and len: "q_size q = int (length as)"
    using rep seg_live by (auto simp: queue_rep_def)
  have fds: "mset (queue_tasks q) = image_mset (node_task (q_cells q)) (mset_set ?L)"
    by (simp add: queue_tasks_def cell_tasks_mset)
  have "card ?L = length (queue_tasks q)" using arg_cong [OF fds, of size] by simp
  then have "card ?L = card (set as)" using assms(2) len d by (simp add: distinct_card)
  then have "set as = ?L" using card_subset_eq [of ?L "set as"] sub by simp
  then have "mset_set ?L = mset as" using mset_set_set [OF d] by simp
  with fds show ?thesis by (simp add: ts tasks_of_def)
qed

lemma view_fds: "queue_view q ts \<Longrightarrow> tallied q \<Longrightarrow> mset (queue_fds q) = mset (map fst ts)"
  using view_tasks [of q ts] by (simp add: queue_fds_def tallied_def)

subsection \<open>Serving what is queued\<close>

text \<open>
  The steps that serve requests: a turn of an ordinary worker that finds a task (worker 0 is the
  one for short commands, whose call of \<^verbatim>\<open>dequeue\<close> is not safe here, see \<open>TaskQueue\<close>), the end of
  a handler that keeps its descriptor open, and the loop reading the pipe.
\<close>

fun serving :: "event \<Rightarrow> server \<Rightarrow> bool" where
  "serving (Take i) s \<longleftrightarrow> 0 < i \<and> 0 < q_size (tp_q (sv_pool s)) \<and> allowed (Take i) s"
| "serving (Finish i closed) s \<longleftrightarrow> \<not> closed \<and> allowed (Finish i closed) s"
| "serving Repost s \<longleftrightarrow> allowed Repost s"
| "serving _ s \<longleftrightarrow> False"

abbreviation serves :: "nat \<Rightarrow> server \<Rightarrow> server \<Rightarrow> bool" where
  "serves \<equiv> steps serving sv_step"

text \<open>
  A process that serves short commands: it is not quitting, an ordinary worker is left, and no
  queued or running request is a transfer.
\<close>

definition brief :: "worker \<Rightarrow> bool" where
  "brief w \<longleftrightarrow> (case w of Busy fd tr \<Rightarrow> \<not> long_command (tr_command tr) | _ \<Rightarrow> True)"

definition calm :: "server \<Rightarrow> bool" where
  "calm s \<longleftrightarrow> \<not> sv_quit s \<and> (\<exists>i>0. i < length (sv_workers s) \<and> sv_workers s ! i \<noteq> Ended) \<and>
     list_all brief (sv_workers s) \<and>
     (\<exists>ts. queue_view (tp_q (sv_pool s)) ts \<and> (\<forall>t\<in>set ts. \<not> task_long t))"

text \<open>The steps that are still to come: three for a queued request, two for a running one, one for a
  descriptor in the pipe.\<close>

definition pending :: "server \<Rightarrow> nat" where
  "pending s = 3 * length (queue_fds (tp_q (sv_pool s))) + 2 * length (worker_fds (sv_workers s)) +
     length (sv_pipe s)"

definition running :: "server \<Rightarrow> bool" where
  "running s \<longleftrightarrow> loop_inv s \<and> counted s \<and> calm s"

definition advances :: "server \<Rightarrow> server \<Rightarrow> bool" where
  "advances s s' \<longleftrightarrow> running s' \<and> pending s = Suc (pending s') \<and> mset (held_fds s') = mset (held_fds s)"

lemma pick_short: "\<forall>t\<in>set ts. \<not> task_long t \<Longrightarrow> ts \<noteq> [] \<Longrightarrow> pick False ts = Some 0"
  using first_index_None [of task_long ts] by (simp add: pick_def)

lemma deq_safe_short: "\<forall>t\<in>set ts. \<not> task_long t \<Longrightarrow> deq_safe False ts"
  by (simp add: deq_safe_def split: list.splits)

lemma list_all_upd: "list_all P xs \<Longrightarrow> P x \<Longrightarrow> list_all P (xs[i := x])"
  by (auto simp: list_all_iff dest: set_update_subset_insert [THEN subsetD])

lemma not_ended_upd:
  assumes "\<exists>j>0. j < length ws \<and> ws ! j \<noteq> Ended" and "w \<noteq> Ended"
  shows "\<exists>j>0. j < length (ws[i := w]) \<and> ws[i := w] ! j \<noteq> Ended"
proof -
  from assms(1) obtain j where "0 < j" "j < length ws" "ws ! j \<noteq> Ended" by blast
  with assms(2) show ?thesis by (intro exI [of _ j]) (cases "j = i"; simp)
qed

lemma advance_take:
  assumes r: "running s" and e: "serving (Take i) s"
  shows "\<exists>s'. sv_step (Take i) s = Inr s' \<and> advances s s'"
proof -
  let ?q = "tp_q (sv_pool s)"
  from r obtain ts where view: "queue_view ?q ts" and short: "\<forall>t\<in>set ts. \<not> task_long t"
    by (auto simp: running_def calm_def)
  have cnt: "tallied ?q" and inv: "loop_inv s"
    using r by (simp_all add: running_def counted_def)
  have fds: "mset (queue_fds ?q) = mset (map fst ts)" by (rule view_fds [OF view cnt])
  have i: "0 < i" "i < length (sv_workers s)" "sv_workers s ! i = Idle" and pos: "0 < q_size ?q"
    using e by simp_all
  then have "ts \<noteq> []" using queue_view_size(1) [OF view] by auto
  then obtain t us where t: "ts = t # us" by (cases ts) auto
  note pk = pick_short [OF short \<open>ts \<noteq> []\<close>] and safe = deq_safe_short [OF short]
  have "set (queue_fds ?q) = set (map fst ts)" by (rule mset_eq_setD [OF fds])
  then have "fst ` set ts \<subseteq> set (sv_open s)" using inv by (auto simp: loop_inv_def held_fds_def)
  then have nn: "\<forall>t\<in>set ts. fst t \<noteq> -1" using inv by (fastforce simp: loop_inv_def)
  obtain pool' where poll: "worker_poll False (sv_pool s) = Inr (Serves (fst t) (snd t), pool')"
    and view': "queue_view (tp_q pool') us"
    using worker_poll_eq [OF view safe nn] unfolding pk by (auto simp: t remove_nth_def)
  define s' where "s' = s\<lparr>sv_pool := pool', sv_workers := (sv_workers s)[i := Busy (fst t) (snd t)]\<rparr>"
  have run: "sv_step (Take i) s = Inr s'" using i poll by (simp add: worker_take_def s'_def)
  have al: "proper (Take i) s" using i by simp
  have inv': "loop_inv s'" and cnt': "counted s'"
    using loop_inv_step [OF inv al run] counted_step [OF _ run] r by (simp_all add: running_def)
  have fds': "mset (queue_fds (tp_q pool')) = mset (map fst us)"
    by (rule view_fds [OF view']) (use cnt' in \<open>simp add: counted_def s'_def\<close>)
  have ws: "mset (worker_fds (sv_workers s')) = add_mset (fst t) (mset (worker_fds (sv_workers s)))"
    using worker_fds_upd [OF i(2), of "Busy (fst t) (snd t)"] i(3) by (simp add: s'_def)
  have "brief (Busy (fst t) (snd t))" using short by (simp add: brief_def t task_long_def)
  then have "list_all brief (sv_workers s')"
    using r list_all_upd [of brief "sv_workers s"] by (simp add: running_def calm_def s'_def)
  moreover have "\<exists>j>0. j < length (sv_workers s') \<and> sv_workers s' ! j \<noteq> Ended"
    using r not_ended_upd [of "sv_workers s" "Busy (fst t) (snd t)" i]
    unfolding running_def calm_def s'_def by simp
  moreover have "\<forall>t\<in>set us. \<not> task_long t" using short by (simp add: t)
  ultimately have "calm s'" using r view' unfolding running_def calm_def by (auto simp: s'_def)
  moreover have "mset (held_fds s') = mset (held_fds s)"
    using fds fds' ws by (simp add: held_fds_def s'_def t)
  moreover have "pending s = Suc (pending s')"
    using arg_cong [OF fds, of size] arg_cong [OF fds', of size] arg_cong [OF ws, of size]
    by (simp add: pending_def s'_def t)
  ultimately show ?thesis using run inv' cnt' by (auto simp: advances_def running_def)
qed

lemma advance_finish:
  assumes r: "running s" and e: "serving (Finish i closed) s"
  shows "\<exists>s'. sv_step (Finish i closed) s = Inr s' \<and> advances s s'"
proof -
  from e obtain fd tr where i: "i < length (sv_workers s)" and w: "sv_workers s ! i = Busy fd tr"
    and c: "\<not> closed" by auto
  have al: "proper (Finish i closed) s" using i w c by simp
  have inv: "loop_inv s" and "brief (sv_workers s ! i)"
    using r i by (simp_all add: running_def calm_def list_all_length)
  then have short: "\<not> long_command (tr_command tr)" by (simp add: brief_def w)
  define s' where "s' = s\<lparr>sv_workers := (sv_workers s)[i := Idle], sv_pipe := sv_pipe s @ [fd]\<rparr>"
  have run: "sv_step (Finish i closed) s = Inr s'"
    using i w c short by (simp add: worker_finish_def s'_def)
  have inv': "loop_inv s'" and cnt': "counted s'"
    using loop_inv_step [OF inv al run] counted_step [OF _ run] r by (simp_all add: running_def)
  have ws: "mset (worker_fds (sv_workers s)) = add_mset fd (mset (worker_fds (sv_workers s')))"
    using worker_fds_upd [OF i, of Idle] w by (simp add: s'_def)
  have "calm s'"
    using r not_ended_upd [of "sv_workers s" Idle i]
    by (auto simp: calm_def running_def s'_def brief_def intro!: list_all_upd)
  moreover have "mset (held_fds s') = mset (held_fds s)" using ws by (simp add: held_fds_def s'_def)
  moreover have "pending s = Suc (pending s')"
    using arg_cong [OF ws, of size] by (simp add: pending_def s'_def)
  ultimately show ?thesis using run inv' cnt' by (auto simp: advances_def running_def)
qed

lemma advance_repost:
  assumes r: "running s" and e: "serving Repost s"
  shows "\<exists>s'. sv_step Repost s = Inr s' \<and> advances s s'"
proof -
  from e obtain fd rest where p: "sv_pipe s = fd # rest" by (cases "sv_pipe s") auto
  have inv: "loop_inv s" using r by (simp add: running_def)
  define s' where "s' = s\<lparr>sv_epoll := fd # sv_epoll s, sv_pipe := rest\<rparr>"
  have run: "sv_step Repost s = Inr s'"
    using inv p by (auto simp: main_repost_def add_node_def s'_def loop_inv_def held_fds_def)
  have inv': "loop_inv s'" and cnt': "counted s'"
    using loop_inv_step [OF inv _ run] counted_step [OF _ run] r e by (simp_all add: running_def)
  moreover have "calm s'" using r by (simp add: calm_def running_def s'_def)
  ultimately show ?thesis
    using run p by (auto simp: advances_def running_def held_fds_def pending_def s'_def)
qed

lemma advance: "running s \<Longrightarrow> serving e s \<Longrightarrow> \<exists>s'. sv_step e s = Inr s' \<and> advances s s'"
  using advance_take advance_finish advance_repost by (cases e) simp_all

text \<open>So the serving steps, the clients \<open>fds\<close> being held, never fault and use \<open>pending\<close> up.\<close>

interpretation serve: safe_machine serving sv_step "\<lambda>s. running s \<and> mset (held_fds s) = fds" for fds
proof unfold_locales
  show "\<exists>s'. sv_step e s = Inr s'" if "running s \<and> mset (held_fds s) = fds" and "serving e s" for e s
    using advance that by blast
qed (use advance in \<open>fastforce simp: advances_def\<close>)

interpretation serve: draining_machine serving sv_step "\<lambda>s. running s \<and> mset (held_fds s) = fds" pending for fds
  by unfold_locales (use advance in \<open>fastforce simp: advances_def\<close>)

text \<open>When nothing serves any more, only epoll holds descriptors.\<close>

lemma settled:
  assumes r: "running s" and none: "\<forall>e. \<not> serving e s"
  shows "held_fds s = sv_epoll s"
proof -
  have busy: "sv_workers s ! i \<noteq> Busy fd tr" if "i < length (sv_workers s)" for i fd tr
    using none [rule_format, of "Finish i False"] that by auto
  then have "worker_fds (sv_workers s) = []"
    by (auto simp: worker_fds_def in_set_conv_nth split: worker.splits)
  moreover have "sv_pipe s = []"
    using none [rule_format, of Repost] r by (auto simp: running_def calm_def)
  moreover have "queue_fds (tp_q (sv_pool s)) = []"
  proof -
    from r obtain i where i: "0 < i" "i < length (sv_workers s)" "sv_workers s ! i \<noteq> Ended"
      by (auto simp: running_def calm_def)
    with busy have "sv_workers s ! i = Idle" by (cases "sv_workers s ! i") auto
    with i none [rule_format, of "Take i"] have "\<not> 0 < q_size (tp_q (sv_pool s))" by auto
    moreover have "int (length (queue_fds (tp_q (sv_pool s)))) = q_size (tp_q (sv_pool s))"
      using r by (simp add: running_def counted_def tallied_def queue_fds_def)
    ultimately have "length (queue_fds (tp_q (sv_pool s))) = 0" by linarith
    then show ?thesis by simp
  qed
  ultimately show ?thesis by (simp add: held_fds_def)
qed

subsection \<open>Property\<close>


text \<open>One request on its way: a worker takes it, answers it, the loop watches its client again.\<close>

definition one_queued :: server where
  "one_queued = (start_server 4 5)\<lparr>sv_open := [7], sv_pool := (init_thread_pool 4 5)\<lparr>tp_q :=
     \<lparr>q_cells = [0 \<mapsto> \<lparr>nd_train = message 0, nd_netfd = 7, nd_next = Null\<rparr>], q_brk = 1,
      q_head = Cell 0, q_tail = Cell 0, q_size = 1, q_max = 12, q_short = 1\<rparr>\<rparr>\<rparr>"

definition one_served :: server where
  "one_served = (start_server 4 5)\<lparr>sv_open := [7], sv_epoll := [7], sv_pool := (init_thread_pool 4 5)\<lparr>tp_q :=
     \<lparr>q_cells = Map.empty, q_brk = 1, q_head = Null, q_tail = Cell 0, q_size = 0, q_max = 12,
      q_short = 0\<rparr>\<rparr>\<rparr>"

lemmas one_eval = run_eval one_queued_def one_served_def dequeue_def dq_finish_def load_next_def
  dq_search.simps dq_trace.simps

lemma one_queued_reach: "reach 4 one_queued"
  by (rule loop.run_inv [OF reach.start,
        of "[Accept 7, Readable 7 (Some (message 0))]" 4 5]) (simp add: one_eval)

lemma one_queued_calm: "calm one_queued"
proof -
  have "queue_rep (tp_q (sv_pool one_queued)) [0]"
    by (simp add: queue_rep_def tasks_of_def node_task_def task_long_def one_eval)
  then have "queue_view (tp_q (sv_pool one_queued)) [(7, message 0)]"
    by (auto simp: queue_view_def tasks_of_def node_task_def one_eval)
  then show ?thesis
    by (auto simp: calm_def brief_def task_long_def one_eval intro!: exI [of _ "1::nat"])
qed

lemma one_queued_serves: "serves 3 one_queued one_served"
proof -
  let ?a = "one_served\<lparr>sv_epoll := [], sv_workers := [Idle, Busy 7 (message 0), Idle, Idle]\<rparr>"
  let ?b = "one_served\<lparr>sv_epoll := [], sv_pipe := [7]\<rparr>"
  have "serving (Take 1) one_queued \<and> sv_step (Take 1) one_queued = Inr ?a"
    by (simp add: one_eval)
  moreover have "serving (Finish 1 False) ?a \<and> sv_step (Finish 1 False) ?a = Inr ?b"
    by (simp add: one_eval)
  moreover have "serving Repost ?b \<and> sv_step Repost ?b = Inr one_served" by (simp add: one_eval)
  ultimately have "serves (Suc (Suc (Suc 0))) one_queued one_served" by (meson steps.intros)
  then show ?thesis by (simp add: eval_nat_numeral)
qed

lemma one_served_settled: "\<not> serving e one_served"
  by (cases e) (auto simp: one_eval less_Suc_eq nth_Cons split: nat.splits)


end
