(* ===== verification/WorkerWake.thy ===== *)
theory WorkerWake
  imports ServerProgress
begin

text \<open>
  How the threads of the work process sleep and wake: the mutex and the condition variable of
  \<^verbatim>\<open>server/thread.c\<close>, \<^verbatim>\<open>server/threadPool.c\<close> and \<^verbatim>\<open>server/main.c\<close>, one step per lock operation. \<open>WorkerPool\<close>
  and \<open>ServerLoop\<close> take a critical section as one step; here its parts are apart, since the loop sets
  \<^verbatim>\<open>exit\<close> and broadcasts without the mutex.
\<close>

subsection \<open>The program counters\<close>

text \<open>
  A worker is outside the critical section, tests its loop condition, has found nothing and is about
  to call \<^verbatim>\<open>pthread_cond_wait\<close>, sleeps in it, was woken and needs the mutex back, is about to dequeue,
  serves a request, has unlocked on its way out and is about to signal, or is gone. The loop waits for
  events, is about to enqueue a request, has enqueued it, has unlocked and is about to broadcast, has
  set \<^verbatim>\<open>exit\<close> and is about to broadcast, joins the workers, or has joined them all.
\<close>

datatype wpc = Outside | Testing | Unsatisfied | Asleep | Woken | Fetching | Serving | Leaving | Gone

datatype mpc = Polling | Entered int trans_file | Stored | Released | Flagged | Joining | Joined

datatype owner = ByMain | ByWorker nat

record wake =
  wk_pool :: thread_pool
  wk_pcs :: "wpc list"
  wk_main :: mpc
  wk_owner :: "owner option"

definition nothing_for :: "bool \<Rightarrow> task_queue \<Rightarrow> bool" where
  "nothing_for is_short q \<longleftrightarrow> q_size q \<le> 0 \<or> (is_short \<and> q_short q = 0)"

definition cond_signal :: "nat \<Rightarrow> wpc list \<Rightarrow> wpc list" where
  "cond_signal j pcs = (if j < length pcs \<and> pcs ! j = Asleep then pcs[j := Woken] else pcs)"

definition cond_broadcast :: "wpc list \<Rightarrow> wpc list" where
  "cond_broadcast pcs = map (\<lambda>p. if p = Asleep then Woken else p) pcs"

text \<open>
  One step of worker \<open>i\<close>; worker 0 is \<^verbatim>\<open>short_thread\<close>. \<open>j\<close> is the sleeper a signal wakes.
\<close>

definition worker_move :: "nat \<Rightarrow> nat \<Rightarrow> wake \<Rightarrow> wake res" where
  "worker_move i j s =
     (if \<not> i < length (wk_pcs s) then Inl Blocked
      else
        let goto = (\<lambda>pc s. s\<lparr>wk_pcs := (wk_pcs s)[i := pc]\<rparr>);
            lock = (if wk_owner s = None then Inr (goto Testing (s\<lparr>wk_owner := Some (ByWorker i)\<rparr>))
                    else Inl Blocked);
            unlock = (\<lambda>s. s\<lparr>wk_owner := None\<rparr>)
        in case wk_pcs s ! i of
             Outside \<Rightarrow> lock
           | Testing \<Rightarrow>
               if nothing_for (i = 0) (tp_q (wk_pool s)) then
                 if tp_exit (wk_pool s) then Inr (goto Leaving (unlock s)) else Inr (goto Unsatisfied s)
               else Inr (goto Fetching s)
           | Unsatisfied \<Rightarrow> Inr (goto Asleep (unlock s))
           | Asleep \<Rightarrow> Inl Blocked
           | Woken \<Rightarrow> lock
           | Fetching \<Rightarrow>
               bindR (dequeue (i = 0) (tp_q (wk_pool s))) (\<lambda>(net_fd, train, q).
               Inr (goto (if net_fd = -1 then Outside else Serving)
                 (unlock (s\<lparr>wk_pool := (wk_pool s)\<lparr>tp_q := q\<rparr>\<rparr>))))
           | Serving \<Rightarrow> Inr (goto Outside s)
           | Leaving \<Rightarrow> Inr (goto Gone (s\<lparr>wk_pcs := cond_signal j (wk_pcs s)\<rparr>))
           | Gone \<Rightarrow> Inl Blocked)"

definition request_move :: "int \<Rightarrow> trans_file \<Rightarrow> wake \<Rightarrow> wake res" where
  "request_move client_fd train s =
     (if wk_main s = Polling \<and> wk_owner s = None
      then Inr (s\<lparr>wk_main := Entered client_fd train, wk_owner := Some ByMain\<rparr>) else Inl Blocked)"

definition quit_move :: "wake \<Rightarrow> wake res" where
  "quit_move s =
     (if wk_main s = Polling
      then Inr (s\<lparr>wk_main := Flagged, wk_pool := (wk_pool s)\<lparr>tp_exit := True\<rparr>\<rparr>) else Inl Blocked)"

definition main_move :: "wake \<Rightarrow> wake res" where
  "main_move s =
     (case wk_main s of
        Entered client_fd train \<Rightarrow>
          bindR (enqueue (tp_q (wk_pool s)) client_fd train) (\<lambda>(r, q).
          Inr (s\<lparr>wk_main := Stored, wk_pool := (wk_pool s)\<lparr>tp_q := q\<rparr>\<rparr>))
      | Stored \<Rightarrow> Inr (s\<lparr>wk_main := Released, wk_owner := None\<rparr>)
      | Released \<Rightarrow> Inr (s\<lparr>wk_main := Polling, wk_pcs := cond_broadcast (wk_pcs s)\<rparr>)
      | _ \<Rightarrow> Inl Blocked)"

definition join_move :: "wake \<Rightarrow> wake res" where
  "join_move s =
     (case wk_main s of
        Flagged \<Rightarrow> Inr (s\<lparr>wk_main := Joining, wk_pcs := cond_broadcast (wk_pcs s)\<rparr>)
      | Joining \<Rightarrow> if list_all (\<lambda>p. p = Gone) (wk_pcs s) then Inr (s\<lparr>wk_main := Joined\<rparr>) else Inl Blocked
      | _ \<Rightarrow> Inl Blocked)"

datatype move = Turn nat nat | Request int trans_file | Proceed | Interrupt | Conclude

fun wk_step :: "move \<Rightarrow> wake \<Rightarrow> wake res" where
  "wk_step (Turn i j) s = worker_move i j s"
| "wk_step (Request fd tr) s = request_move fd tr s"
| "wk_step Proceed s = main_move s"
| "wk_step Interrupt s = quit_move s"
| "wk_step Conclude s = join_move s"

text \<open>A signal wakes a sleeper when there is one.\<close>

fun fair_move :: "move \<Rightarrow> wake \<Rightarrow> bool" where
  "fair_move (Turn i j) s \<longleftrightarrow>
     (i < length (wk_pcs s) \<and> wk_pcs s ! i = Leaving \<and> Asleep \<in> set (wk_pcs s) \<longrightarrow>
        j < length (wk_pcs s) \<and> wk_pcs s ! j = Asleep)"
| "fair_move _ s \<longleftrightarrow> True"

definition wk_start :: "nat \<Rightarrow> int \<Rightarrow> wake" where
  "wk_start num pipe_in =
     \<lparr>wk_pool = init_thread_pool (int num) pipe_in, wk_pcs = replicate num Outside, wk_main = Polling,
      wk_owner = None\<rparr>"

inductive wk_reach :: "nat \<Rightarrow> wake \<Rightarrow> bool" for num :: nat where
  start: "wk_reach num (wk_start num p)"
| step: "wk_reach num s \<Longrightarrow> fair_move m s \<Longrightarrow> wk_step m s = Inr s' \<Longrightarrow> wk_reach num s'"

subsection \<open>The invariant\<close>

definition holds_lock :: "wpc \<Rightarrow> bool" where
  "holds_lock p \<longleftrightarrow> p = Testing \<or> p = Unsatisfied \<or> p = Fetching"

definition lock_ok :: "wake \<Rightarrow> bool" where
  "lock_ok s \<longleftrightarrow> (\<forall>i<length (wk_pcs s). holds_lock (wk_pcs s ! i) \<longleftrightarrow> wk_owner s = Some (ByWorker i)) \<and>
     ((\<exists>fd tr. wk_main s = Entered fd tr) \<or> wk_main s = Stored \<longleftrightarrow> wk_owner s = Some ByMain) \<and>
     (\<forall>i. wk_owner s = Some (ByWorker i) \<longrightarrow> i < length (wk_pcs s))"

definition sleep_ok :: "wake \<Rightarrow> bool" where
  "sleep_ok s \<longleftrightarrow> (\<forall>i<length (wk_pcs s).
     (wk_pcs s ! i = Unsatisfied \<longrightarrow> nothing_for (i = 0) (tp_q (wk_pool s))) \<and>
     (wk_pcs s ! i = Fetching \<longrightarrow> \<not> nothing_for (i = 0) (tp_q (wk_pool s))) \<and>
     (wk_pcs s ! i = Asleep \<longrightarrow> nothing_for (i = 0) (tp_q (wk_pool s)) \<or> wk_main s = Stored \<or> wk_main s = Released))"

definition closing :: "mpc \<Rightarrow> bool" where
  "closing m \<longleftrightarrow> m = Flagged \<or> m = Joining \<or> m = Joined"

definition exit_ok :: "wake \<Rightarrow> bool" where
  "exit_ok s \<longleftrightarrow> (tp_exit (wk_pool s) \<longleftrightarrow> closing (wk_main s)) \<and>
     (\<forall>i<length (wk_pcs s). wk_pcs s ! i = Leaving \<or> wk_pcs s ! i = Gone \<longrightarrow>
        tp_exit (wk_pool s) \<and> (\<forall>j<length (wk_pcs s). wk_pcs s ! j \<noteq> Unsatisfied))"

definition one_sleeper :: "wpc list \<Rightarrow> bool" where
  "one_sleeper pcs \<longleftrightarrow> (\<forall>i<length pcs. pcs ! i = Asleep \<longrightarrow>
     (\<forall>j<length pcs. j \<noteq> i \<longrightarrow> pcs ! j \<noteq> Asleep \<and> pcs ! j \<noteq> Unsatisfied) \<and>
     (2 \<le> length pcs \<longrightarrow> (\<exists>j<length pcs. j \<noteq> i \<and> pcs ! j \<noteq> Gone)))"

definition join_ok :: "wake \<Rightarrow> bool" where
  "join_ok s \<longleftrightarrow> (wk_main s = Joining \<or> wk_main s = Joined \<longrightarrow> one_sleeper (wk_pcs s))"

definition wake_ok :: "nat \<Rightarrow> wake \<Rightarrow> bool" where
  "wake_ok num s \<longleftrightarrow> length (wk_pcs s) = num \<and> tallied (tp_q (wk_pool s)) \<and> lock_ok s \<and> sleep_ok s \<and>
     exit_ok s \<and> join_ok s"

text \<open>A call of \<^verbatim>\<open>dequeue\<close> never gives a worker something to do.\<close>

lemma nothing_dequeue:
  assumes "nothing_for s q" and "dequeue s' q = Inr (fd, tr, q')" and "tallied q"
  shows "nothing_for s q'"
proof (cases tr)
  case None
  with assms dequeue_tasks [OF assms(2)] show ?thesis by (simp add: tallied_def)
next
  case (Some t)
  have q': "tallied q'" by (rule tallied_dequeue [OF assms(2,3)])
  with assms(1,3) dequeue_counts [of s' q fd t q'] assms(2) Some show ?thesis
    by (auto simp: nothing_for_def tallied_def split: if_splits)
qed

text \<open>The transitions of a worker, with the state each leaves.\<close>

lemma worker_move_cases:
  assumes "worker_move i j s = Inr s'"
  obtains (lock) "i < length (wk_pcs s)" "wk_pcs s ! i = Outside \<or> wk_pcs s ! i = Woken" "wk_owner s = None"
      "s' = s\<lparr>wk_owner := Some (ByWorker i), wk_pcs := (wk_pcs s)[i := Testing]\<rparr>"
    | (leave) "i < length (wk_pcs s)" "wk_pcs s ! i = Testing" "nothing_for (i = 0) (tp_q (wk_pool s))"
      "tp_exit (wk_pool s)" "s' = s\<lparr>wk_owner := None, wk_pcs := (wk_pcs s)[i := Leaving]\<rparr>"
    | (unsat) "i < length (wk_pcs s)" "wk_pcs s ! i = Testing" "nothing_for (i = 0) (tp_q (wk_pool s))"
      "\<not> tp_exit (wk_pool s)" "s' = s\<lparr>wk_pcs := (wk_pcs s)[i := Unsatisfied]\<rparr>"
    | (fetch) "i < length (wk_pcs s)" "wk_pcs s ! i = Testing" "\<not> nothing_for (i = 0) (tp_q (wk_pool s))"
      "s' = s\<lparr>wk_pcs := (wk_pcs s)[i := Fetching]\<rparr>"
    | (sleep) "i < length (wk_pcs s)" "wk_pcs s ! i = Unsatisfied"
      "s' = s\<lparr>wk_owner := None, wk_pcs := (wk_pcs s)[i := Asleep]\<rparr>"
    | (take) pc fd tr q where "i < length (wk_pcs s)" "wk_pcs s ! i = Fetching"
      "dequeue (i = 0) (tp_q (wk_pool s)) = Inr (fd, tr, q)" "pc = Outside \<or> pc = Serving"
      "s' = s\<lparr>wk_pool := (wk_pool s)\<lparr>tp_q := q\<rparr>, wk_owner := None, wk_pcs := (wk_pcs s)[i := pc]\<rparr>"
    | (served) "i < length (wk_pcs s)" "wk_pcs s ! i = Serving" "s' = s\<lparr>wk_pcs := (wk_pcs s)[i := Outside]\<rparr>"
    | (signal) "i < length (wk_pcs s)" "wk_pcs s ! i = Leaving"
      "s' = s\<lparr>wk_pcs := (cond_signal j (wk_pcs s))[i := Gone]\<rparr>"
proof (cases "wk_pcs s ! i")
  case Testing
  with assms that(2,3,4) show ?thesis by (simp add: worker_move_def Let_def split: if_splits)
next
  case Fetching
  with assms obtain fd tr q where "i < length (wk_pcs s)"
    and d: "dequeue (i = 0) (tp_q (wk_pool s)) = Inr (fd, tr, q)"
    and "s' = s\<lparr>wk_pool := (wk_pool s)\<lparr>tp_q := q\<rparr>, wk_owner := None,
      wk_pcs := (wk_pcs s)[i := if fd = -1 then Outside else Serving]\<rparr>"
    by (auto simp: worker_move_def Let_def bindR_eq_Inr split: if_splits)
  then show ?thesis by (intro that(6) [OF _ Fetching d, of "if fd = -1 then Outside else Serving"]) simp_all
next
  case Outside
  with assms that(1) show ?thesis by (simp add: worker_move_def Let_def split: if_splits)
next
  case Woken
  with assms that(1) show ?thesis by (simp add: worker_move_def Let_def split: if_splits)
next
  case Unsatisfied
  with assms that(5) show ?thesis by (simp add: worker_move_def Let_def split: if_splits)
next
  case Serving
  with assms that(7) show ?thesis by (simp add: worker_move_def Let_def split: if_splits)
next
  case Leaving
  with assms that(8) show ?thesis by (simp add: worker_move_def Let_def split: if_splits)
qed (use assms in \<open>simp_all add: worker_move_def split: if_splits\<close>)

lemma length_signal [simp]: "length (cond_signal j pcs) = length pcs"
  by (simp add: cond_signal_def)

lemma nth_signal: "i < length pcs \<Longrightarrow> cond_signal j pcs ! i = (if i = j \<and> pcs ! i = Asleep then Woken else pcs ! i)"
  by (auto simp: cond_signal_def nth_list_update)

lemma length_broadcast [simp]: "length (cond_broadcast pcs) = length pcs"
  by (simp add: cond_broadcast_def)

lemma nth_broadcast: "i < length pcs \<Longrightarrow> cond_broadcast pcs ! i = (if pcs ! i = Asleep then Woken else pcs ! i)"
  by (simp add: cond_broadcast_def)

lemmas pcs_simps = nth_list_update nth_signal nth_broadcast holds_lock_def closing_def

lemma lock_holder:
  assumes "lock_ok s" and "i < length (wk_pcs s)" and "holds_lock (wk_pcs s ! i)"
  shows "wk_owner s = Some (ByWorker i)"
  using assms unfolding lock_ok_def by blast

lemma one_holder:
  assumes "lock_ok s" and "i < length (wk_pcs s)" "k < length (wk_pcs s)"
    and "holds_lock (wk_pcs s ! i)" "holds_lock (wk_pcs s ! k)"
  shows "i = k"
  using lock_holder [OF assms(1,2,4)] lock_holder [OF assms(1,3,5)] by simp

lemma lock_upd:
  assumes ok: "lock_ok s" and i: "i < length (wk_pcs s)" and o: "wk_owner s = None \<or> wk_owner s = Some (ByWorker i)"
  shows "lock_ok (s\<lparr>wk_pool := pl, wk_owner := if holds_lock p then Some (ByWorker i) else None,
    wk_pcs := (wk_pcs s)[i := p]\<rparr>)"
proof -
  have "holds_lock (wk_pcs s ! k) \<longleftrightarrow> wk_owner s = Some (ByWorker k)" if "k < length (wk_pcs s)" for k
    using ok that by (simp add: lock_ok_def)
  then have "\<not> holds_lock (wk_pcs s ! k)" if "k < length (wk_pcs s)" "k \<noteq> i" for k
    using o that by auto
  moreover have "\<not> ((\<exists>fd tr. wk_main s = Entered fd tr) \<or> wk_main s = Stored)"
    using ok o by (auto simp: lock_ok_def)
  ultimately show ?thesis using i by (auto simp: lock_ok_def nth_list_update)
qed

lemma lock_keep:
  assumes "lock_ok s" and "length pcs = length (wk_pcs s)"
    and "\<forall>k<length pcs. holds_lock (pcs ! k) \<longleftrightarrow> holds_lock (wk_pcs s ! k)"
  shows "lock_ok (s\<lparr>wk_pcs := pcs\<rparr>)"
  using assms by (simp add: lock_ok_def)

lemma lock_worker:
  assumes ok: "lock_ok s" and run: "worker_move i j s = Inr s'"
  shows "lock_ok s'"
  using run
proof (cases rule: worker_move_cases)
  case lock
  with lock_upd [OF ok lock(1), of Testing "wk_pool s"] show ?thesis by (simp add: holds_lock_def)
next
  case leave
  with lock_upd [OF ok leave(1), of Leaving "wk_pool s"] lock_holder [OF ok leave(1)] show ?thesis
    by (simp add: holds_lock_def)
next
  case unsat
  with lock_keep [OF ok, of "(wk_pcs s)[i := Unsatisfied]"] show ?thesis by (simp add: pcs_simps)
next
  case fetch
  with lock_keep [OF ok, of "(wk_pcs s)[i := Fetching]"] show ?thesis by (simp add: pcs_simps)
next
  case sleep
  with lock_upd [OF ok sleep(1), of Asleep "wk_pool s"] lock_holder [OF ok sleep(1)] show ?thesis
    by (simp add: holds_lock_def)
next
  case (take pc fd tr q)
  with lock_upd [OF ok take(1), of pc "(wk_pool s)\<lparr>tp_q := q\<rparr>"] lock_holder [OF ok take(1)] show ?thesis
    by (auto simp: holds_lock_def)
next
  case served
  with lock_keep [OF ok, of "(wk_pcs s)[i := Outside]"] show ?thesis by (simp add: pcs_simps)
next
  case signal
  have "lock_ok (s\<lparr>wk_pcs := (cond_signal j (wk_pcs s))[i := Gone]\<rparr>)"
    by (rule lock_keep [OF ok]) (use signal in \<open>auto simp: pcs_simps\<close>)
  with signal show ?thesis by simp
qed

lemma sleep_worker:
  assumes ok: "lock_ok s" "tallied (tp_q (wk_pool s))" "sleep_ok s" and run: "worker_move i j s = Inr s'"
  shows "sleep_ok s'"
  using run
proof (cases rule: worker_move_cases)
  case (take pc fd tr q)
  have "wk_pcs s ! k \<noteq> Fetching \<and> wk_pcs s ! k \<noteq> Unsatisfied" if "k < length (wk_pcs s)" "k \<noteq> i" for k
    using one_holder [OF ok(1) take(1), of k] take(2) that by (auto simp: holds_lock_def)
  with take ok(3) nothing_dequeue [OF _ take(3) ok(2)] show ?thesis by (auto simp: sleep_ok_def nth_list_update)
next
  case signal
  with ok(3) show ?thesis by (auto simp: sleep_ok_def nth_list_update nth_signal)
qed (use ok(3) in \<open>auto simp: sleep_ok_def nth_list_update\<close>)

lemma exit_worker:
  assumes ok: "lock_ok s" "exit_ok s" and run: "worker_move i j s = Inr s'"
  shows "exit_ok s'"
  using run
proof (cases rule: worker_move_cases)
  case leave
  have "wk_pcs s ! k \<noteq> Unsatisfied" if "k < length (wk_pcs s)" for k
    using one_holder [OF ok(1) leave(1) that] leave(2) by (auto simp: holds_lock_def)
  with leave ok(2) show ?thesis by (auto simp: exit_ok_def nth_list_update)
next
  case (take pc fd tr q)
  with ok(2) show ?thesis by (auto simp: exit_ok_def nth_list_update)
next
  case signal
  with ok(2) show ?thesis by (auto simp: exit_ok_def nth_list_update nth_signal)
qed (use ok(2) in \<open>auto simp: exit_ok_def nth_list_update\<close>)

lemma worker_main:
  "worker_move i j s = Inr s' \<Longrightarrow>
   wk_main s' = wk_main s \<and> length (wk_pcs s') = length (wk_pcs s) \<and> tp_exit (wk_pool s') = tp_exit (wk_pool s)"
  by (elim worker_move_cases) auto

lemma exists_other: "2 \<le> (n::nat) \<Longrightarrow> \<exists>j<n. j \<noteq> i"
  by (rule exI [of _ "if i = 0 then 1 else 0"]) auto

text \<open>While the loop joins, the steps that matter are falling asleep and leaving.\<close>

lemma one_sleeperD:
  assumes "one_sleeper pcs" and "i < length pcs" and "pcs ! i = Asleep"
  shows "k < length pcs \<Longrightarrow> k \<noteq> i \<Longrightarrow> pcs ! k \<noteq> Asleep \<and> pcs ! k \<noteq> Unsatisfied"
    and "2 \<le> length pcs \<Longrightarrow> \<exists>k<length pcs. k \<noteq> i \<and> pcs ! k \<noteq> Gone"
  using assms unfolding one_sleeper_def by blast+

lemma one_sleeper_upd:
  assumes one: "one_sleeper pcs" and p: "p \<noteq> Asleep" "p \<noteq> Unsatisfied" "p \<noteq> Gone"
  shows "one_sleeper (pcs[i := p])"
  unfolding one_sleeper_def
proof (intro allI impI)
  fix k assume k: "k < length (pcs[i := p])" "pcs[i := p] ! k = Asleep"
  then have ne: "k \<noteq> i" using p by auto
  with k have k': "k < length pcs" "pcs ! k = Asleep" by simp_all
  have "pcs[i := p] ! j \<noteq> Asleep \<and> pcs[i := p] ! j \<noteq> Unsatisfied" if "j < length pcs" "j \<noteq> k" for j
    using one_sleeperD(1) [OF one k' that] p that by (cases "j = i") simp_all
  moreover have "\<exists>j<length pcs. j \<noteq> k \<and> pcs[i := p] ! j \<noteq> Gone" if two: "2 \<le> length pcs"
  proof -
    from one_sleeperD(2) [OF one k' two] obtain j where "j < length pcs" "j \<noteq> k" "pcs ! j \<noteq> Gone" by blast
    with p show ?thesis by (intro exI [of _ j]) (cases "j = i"; simp)
  qed
  ultimately show "(\<forall>j<length (pcs[i := p]). j \<noteq> k \<longrightarrow> pcs[i := p] ! j \<noteq> Asleep \<and> pcs[i := p] ! j \<noteq> Unsatisfied) \<and>
      (2 \<le> length (pcs[i := p]) \<longrightarrow> (\<exists>j<length (pcs[i := p]). j \<noteq> k \<and> pcs[i := p] ! j \<noteq> Gone))"
    by simp
qed

lemma one_sleeper_none: "(\<And>k. k < length pcs \<Longrightarrow> pcs ! k \<noteq> Asleep) \<Longrightarrow> one_sleeper pcs"
  by (simp add: one_sleeper_def)

lemma join_worker:
  assumes ok: "lock_ok s" "exit_ok s" "join_ok s" and fair: "fair_move (Turn i j) s"
    and run: "worker_move i j s = Inr s'"
  shows "join_ok s'"
proof (cases "wk_main s = Joining \<or> wk_main s = Joined")
  case False
  with worker_main [OF run] show ?thesis by (simp add: join_ok_def)
next
  case True
  then have ex: "tp_exit (wk_pool s)" using ok(2) by (auto simp: exit_ok_def closing_def)
  have one: "one_sleeper (wk_pcs s)" using ok(3) True by (simp add: join_ok_def)
  have "one_sleeper (wk_pcs s')"
    using run
  proof (cases rule: worker_move_cases)
    case unsat
    with ex show ?thesis by simp
  next
    case sleep
    have awake: "wk_pcs s ! k \<noteq> Asleep \<and> wk_pcs s ! k \<noteq> Unsatisfied \<and> wk_pcs s ! k \<noteq> Gone"
      if "k < length (wk_pcs s)" "k \<noteq> i" for k
      using one_sleeperD(1) [OF one that(1), of i] sleep that one_holder [OF ok(1) sleep(1) that(1)] ok(2)
      by (auto simp: holds_lock_def exit_ok_def)
    show ?thesis
      unfolding one_sleeper_def
    proof (intro allI impI)
      fix k assume k: "k < length (wk_pcs s')" "wk_pcs s' ! k = Asleep"
      have "k = i" using k sleep awake [of k] by (auto simp: nth_list_update split: if_splits)
      moreover have "\<exists>j<length (wk_pcs s). j \<noteq> i \<and> (wk_pcs s)[i := Asleep] ! j \<noteq> Gone" if "2 \<le> length (wk_pcs s)"
      proof -
        from exists_other [OF that] obtain j where "j < length (wk_pcs s)" "j \<noteq> i" by blast
        with awake show ?thesis by (intro exI [of _ j]) simp
      qed
      ultimately show "(\<forall>j<length (wk_pcs s'). j \<noteq> k \<longrightarrow> wk_pcs s' ! j \<noteq> Asleep \<and> wk_pcs s' ! j \<noteq> Unsatisfied) \<and>
          (2 \<le> length (wk_pcs s') \<longrightarrow> (\<exists>j<length (wk_pcs s'). j \<noteq> k \<and> wk_pcs s' ! j \<noteq> Gone))"
        using sleep awake by (simp add: nth_list_update)
    qed
  next
    case signal
    show ?thesis
    proof (rule one_sleeper_none, rule notI)
      fix k assume k: "k < length (wk_pcs s')" "wk_pcs s' ! k = Asleep"
      then have a: "k < length (wk_pcs s)" "wk_pcs s ! k = Asleep" "k \<noteq> j" using signal
        by (auto simp: nth_list_update nth_signal split: if_splits)
      then have "Asleep \<in> set (wk_pcs s)" using nth_mem by metis
      with fair signal have "j < length (wk_pcs s)" "wk_pcs s ! j = Asleep" by auto
      with one_sleeperD(1) [OF one a(1,2), of j] a(3) show False by auto
    qed
  next
    case (take pc fd tr q)
    with one_sleeper_upd [OF one, of pc i] show ?thesis by auto
  qed (use one_sleeper_upd [OF one, of _ i] in auto)
  then show ?thesis by (simp add: join_ok_def)
qed

lemma tallied_worker:
  assumes q: "tallied (tp_q (wk_pool s))" and run: "worker_move i j s = Inr s'"
  shows "tallied (tp_q (wk_pool s'))"
  using run
proof (cases rule: worker_move_cases)
  case (take pc fd tr q')
  with tallied_dequeue [OF take(3) q] show ?thesis by simp
qed (use q in simp_all)

lemma wake_worker:
  assumes "wake_ok num s" and "fair_move (Turn i j) s" and "worker_move i j s = Inr s'"
  shows "wake_ok num s'"
proof -
  have ok: "lock_ok s" "sleep_ok s" "exit_ok s" "join_ok s" "tallied (tp_q (wk_pool s))" "length (wk_pcs s) = num"
    using assms(1) by (simp_all add: wake_ok_def)
  show ?thesis
    using lock_worker [OF ok(1) assms(3)] sleep_worker [OF ok(1,5,2) assms(3)] exit_worker [OF ok(1,3) assms(3)]
      join_worker [OF ok(1,3,4) assms(2,3)] tallied_worker [OF ok(5) assms(3)] worker_main [OF assms(3)] ok(6)
    by (simp add: wake_ok_def)
qed

text \<open>The loop's steps.\<close>

lemma request_ok: "wake_ok num s \<Longrightarrow> request_move fd tr s = Inr s' \<Longrightarrow> wake_ok num s'"
  by (auto simp: wake_ok_def request_move_def lock_ok_def sleep_ok_def exit_ok_def join_ok_def closing_def
      split: if_splits)

lemma quit_ok: "wake_ok num s \<Longrightarrow> quit_move s = Inr s' \<Longrightarrow> wake_ok num s'"
  by (auto simp: wake_ok_def quit_move_def lock_ok_def sleep_ok_def exit_ok_def join_ok_def closing_def
      split: if_splits)

lemma main_ok:
  assumes ok: "wake_ok num s" and run: "main_move s = Inr s'"
  shows "wake_ok num s'"
proof (cases "wk_main s")
  case (Entered fd tr)
  with run obtain r q where e: "enqueue (tp_q (wk_pool s)) fd tr = Inr (r, q)"
    and s': "s' = s\<lparr>wk_main := Stored, wk_pool := (wk_pool s)\<lparr>tp_q := q\<rparr>\<rparr>"
    by (auto simp: main_move_def bindR_eq_Inr)
  have "\<not> holds_lock (wk_pcs s ! k)" if "k < length (wk_pcs s)" for k
    using ok Entered that by (auto simp: wake_ok_def lock_ok_def)
  then have "sleep_ok s'" "lock_ok s'"
    using ok Entered by (auto simp: s' sleep_ok_def lock_ok_def wake_ok_def holds_lock_def)
  moreover have "tallied q" using tallied_enqueue [OF e] ok by (simp add: wake_ok_def)
  ultimately show ?thesis
    using ok Entered by (auto simp: s' wake_ok_def exit_ok_def join_ok_def closing_def)
next
  case Stored
  then have "s' = s\<lparr>wk_main := Released, wk_owner := None\<rparr>" using run by (simp add: main_move_def)
  with Stored ok show ?thesis
    by (auto simp: wake_ok_def lock_ok_def sleep_ok_def exit_ok_def join_ok_def closing_def)
next
  case Released
  then have "s' = s\<lparr>wk_main := Polling, wk_pcs := cond_broadcast (wk_pcs s)\<rparr>" using run by (simp add: main_move_def)
  with Released ok show ?thesis
    by (auto simp: wake_ok_def lock_ok_def sleep_ok_def exit_ok_def join_ok_def pcs_simps)
qed (use run in \<open>simp_all add: main_move_def\<close>)

lemma join_ok_step:
  assumes ok: "wake_ok num s" and run: "join_move s = Inr s'"
  shows "wake_ok num s'"
proof (cases "wk_main s")
  case Joining
  then have "s' = s\<lparr>wk_main := Joined\<rparr>" using run by (simp add: join_move_def split: if_splits)
  with Joining ok show ?thesis
    by (auto simp: wake_ok_def lock_ok_def sleep_ok_def exit_ok_def join_ok_def closing_def)
next
  case Flagged
  then have "s' = s\<lparr>wk_main := Joining, wk_pcs := cond_broadcast (wk_pcs s)\<rparr>" using run by (simp add: join_move_def)
  moreover have "one_sleeper (cond_broadcast (wk_pcs s))" by (rule one_sleeper_none) (simp add: nth_broadcast)
  ultimately show ?thesis
    using Flagged ok by (auto simp: wake_ok_def lock_ok_def sleep_ok_def exit_ok_def join_ok_def pcs_simps)
qed (use run in \<open>simp_all add: join_move_def\<close>)

lemma wk_reach_ok: "wk_reach num s \<Longrightarrow> wake_ok num s"
proof (induction rule: wk_reach.induct)
  case (start p)
  show ?case
    by (simp add: wake_ok_def wk_start_def init_thread_pool_def tallied_empty lock_ok_def sleep_ok_def
        exit_ok_def join_ok_def closing_def holds_lock_def)
next
  case (step s m s')
  then show ?case
    by (cases m) (auto intro: wake_worker request_ok quit_ok main_ok join_ok_step)
qed

subsection \<open>Nothing to wake up for\<close>

text \<open>
  After the quit message: the worker steps when no task is queued. A worker that sleeps then is woken
  by the signal of another that leaves, so the loop can join them all.
\<close>

fun thread_turn :: "move \<Rightarrow> bool" where
  "thread_turn (Turn i j) = True"
| "thread_turn _ = False"

abbreviation shutting :: "nat \<Rightarrow> wake \<Rightarrow> wake \<Rightarrow> bool" where
  "shutting \<equiv> steps (\<lambda>m s. thread_turn m \<and> fair_move m s) wk_step"

text \<open>The steps a worker still has ahead of it, once \<^verbatim>\<open>exit\<close> is set and the queue empty.\<close>

fun ahead :: "wpc \<Rightarrow> nat" where
  "ahead Serving = 6"
| "ahead Unsatisfied = 6"
| "ahead Asleep = 5"
| "ahead Woken = 4"
| "ahead Outside = 4"
| "ahead Testing = 2"
| "ahead Fetching = 7"
| "ahead Leaving = 1"
| "ahead Gone = 0"

definition left_over :: "wake \<Rightarrow> nat" where
  "left_over s = sum_list (map ahead (wk_pcs s))"

definition idle_exit :: "nat \<Rightarrow> wake \<Rightarrow> bool" where
  "idle_exit num s \<longleftrightarrow> wake_ok num s \<and> wk_main s = Joining \<and> q_size (tp_q (wk_pool s)) = 0"

lemma sum_list_upd_less:
  fixes f :: "'a \<Rightarrow> nat"
  assumes "i < length xs" and "f y < f (xs ! i)"
  shows "sum_list (map f (xs[i := y])) < sum_list (map f xs)"
  using assms by (induction xs arbitrary: i) (auto split: nat.splits simp: nth_Cons)

lemma ahead_signal: "sum_list (map ahead (cond_signal j pcs)) \<le> sum_list (map ahead pcs)"
  using sum_list_upd_less [of j pcs ahead Woken] by (auto simp: cond_signal_def)

text \<open>Each step of a worker takes one of them away.\<close>

lemma shutting_step:
  assumes ok: "idle_exit num s" and fair: "fair_move (Turn i j) s" and run: "worker_move i j s = Inr s'"
  shows "idle_exit num s' \<and> left_over s' < left_over s"
proof -
  have w: "wake_ok num s" and m: "wk_main s = Joining" and q: "q_size (tp_q (wk_pool s)) = 0"
    using ok by (simp_all add: idle_exit_def)
  have ex: "tp_exit (wk_pool s)" using w m by (auto simp: wake_ok_def exit_ok_def closing_def)
  have w': "wake_ok num s'" by (rule wake_worker [OF w fair run])
  have upd: "sum_list (map ahead ((wk_pcs s)[i := p])) < sum_list (map ahead (wk_pcs s))"
    if "i < length (wk_pcs s)" "ahead p < ahead (wk_pcs s ! i)" for p
    by (rule sum_list_upd_less [OF that])
  have "left_over s' < left_over s \<and> q_size (tp_q (wk_pool s')) = 0"
    using run
  proof (cases rule: worker_move_cases)
    case lock
    with upd [of Testing] q show ?thesis by (auto simp: left_over_def)
  next
    case unsat
    with ex show ?thesis by simp
  next
    case fetch
    with q show ?thesis by (simp add: nothing_for_def)
  next
    case (take pc fd tr qq)
    then have "\<not> nothing_for (i = 0) (tp_q (wk_pool s))" using w by (auto simp: wake_ok_def sleep_ok_def)
    with q show ?thesis by (simp add: nothing_for_def)
  next
    case signal
    then have "sum_list (map ahead ((cond_signal j (wk_pcs s))[i := Gone])) < sum_list (map ahead (cond_signal j (wk_pcs s)))"
      by (intro sum_list_upd_less) (simp_all add: nth_signal)
    with signal q ahead_signal [of j "wk_pcs s"] show ?thesis by (simp add: left_over_def)
  qed (use upd q in \<open>auto simp: left_over_def\<close>)
  with w' worker_main [OF run] m show ?thesis by (simp add: idle_exit_def)
qed

interpretation shut: draining_machine "\<lambda>m s. thread_turn m \<and> fair_move m s" wk_step "idle_exit num" left_over for num
proof unfold_locales
  fix s m s'
  assume "idle_exit num s" and "thread_turn m \<and> fair_move m s" and "wk_step m s = Inr s'"
  then show "idle_exit num s'" and "left_over s' < left_over s" using shutting_step by (cases m; fastforce)+
qed

text \<open>As long as one worker is left, one of them can go on.\<close>

lemma worker_enabled:
  assumes ok: "idle_exit num s" and "2 \<le> num" and left: "\<not> list_all (\<lambda>p. p = Gone) (wk_pcs s)"
  shows "\<exists>i j s'. fair_move (Turn i j) s \<and> worker_move i j s = Inr s'"
proof -
  have w: "wake_ok num s" and len: "length (wk_pcs s) = num" and q: "q_size (tp_q (wk_pool s)) = 0"
    and m: "wk_main s = Joining"
    using ok by (simp_all add: idle_exit_def wake_ok_def)
  have lk: "lock_ok s" and one: "one_sleeper (wk_pcs s)"
    using w m by (simp_all add: wake_ok_def join_ok_def)
  obtain k where k: "k < num" "wk_pcs s ! k \<noteq> Gone" "wk_pcs s ! k \<noteq> Asleep"
  proof -
    from left obtain a where a: "a < num" "wk_pcs s ! a \<noteq> Gone" by (auto simp: list_all_length len)
    show ?thesis
    proof (cases "wk_pcs s ! a = Asleep")
      case True
      with one_sleeperD [OF one, of a] a len \<open>2 \<le> num\<close> that show ?thesis by metis
    qed (use a that in blast)
  qed
  have go: ?thesis if "i < num" "wk_pcs s ! i \<noteq> Leaving" "worker_move i 0 s = Inr s'" for i s'
    using that len by (intro exI [of _ i] exI [of _ 0] exI [of _ s']) simp
  have fetch: "wk_pcs s ! i \<noteq> Fetching" if "i < num" for i
    using w that q by (auto simp: wake_ok_def sleep_ok_def nothing_for_def)
  show ?thesis
  proof (cases "wk_owner s")
    case None
    show ?thesis
    proof (cases "wk_pcs s ! k = Leaving")
      case True
      obtain j where "Asleep \<in> set (wk_pcs s) \<longrightarrow> j < length (wk_pcs s) \<and> wk_pcs s ! j = Asleep"
        by (metis in_set_conv_nth)
      with True k len show ?thesis
        by (intro exI [of _ k] exI [of _ j]) (simp add: worker_move_def)
    next
      case False
      have "\<not> holds_lock (wk_pcs s ! k)" using lk k None len by (auto simp: lock_ok_def)
      with False k None len have "\<exists>s'. worker_move k 0 s = Inr s'"
        by (cases "wk_pcs s ! k") (simp_all add: worker_move_def holds_lock_def)
      with go k False show ?thesis by blast
    qed
  next
    case (Some ow)
    then obtain i where i: "ow = ByWorker i" using lk m by (cases ow) (auto simp: lock_ok_def)
    then have i': "i < num" "holds_lock (wk_pcs s ! i)" using lk Some len by (auto simp: lock_ok_def)
    then have "\<exists>s'. worker_move i 0 s = Inr s'"
      using fetch [of i] len by (auto simp: holds_lock_def worker_move_def Let_def)
    with go i' show ?thesis by (auto simp: holds_lock_def)
  qed
qed

text \<open>Concrete runs.\<close>

abbreviation wk_run :: "move list \<Rightarrow> wake \<Rightarrow> wake res" where
  "wk_run \<equiv> run_of fair_move wk_step"

interpretation threads: machine fair_move wk_step "wk_reach num" for num
  by unfold_locales (rule wk_reach.step)

lemmas wk_eval = wk_start_def init_thread_pool_def empty_queue_def worker_move_def main_move_def join_move_def request_move_def
  quit_move_def enqueue_def nothing_for_def cond_broadcast_def cond_signal_def Let_def eval_nat_numeral
  long_command_def

subsection \<open>Properties\<close>

text \<open>C11: the queue's lock excludes, and no wake-up is lost while requests come in: in every interleaving of the
  workers' and the loop's lock operations, at most one of the workers and the loop is inside the
  critical section, and a worker sleeps although a task for it is queued only between the enqueue
  and the broadcast that wakes it.\<close>

theorem no_lost_wakeup:
  assumes "wk_reach num s" and "i < num"
  shows "(wk_pcs s ! i = Asleep \<and> \<not> nothing_for (i = 0) (tp_q (wk_pool s)) \<longrightarrow>
      (wk_main s = Stored \<or> wk_main s = Released) \<and>
      (\<exists>s'. wk_step Proceed s = Inr s' \<and> (wk_main s = Released \<longrightarrow> wk_pcs s' ! i = Woken))) \<and>
    (holds_lock (wk_pcs s ! i) \<longrightarrow>
      (\<forall>k<num. k \<noteq> i \<longrightarrow> \<not> holds_lock (wk_pcs s ! k)) \<and> wk_main s \<noteq> Stored \<and> (\<forall>fd tr. wk_main s \<noteq> Entered fd tr))"
proof (intro conjI impI)
  have ok: "wake_ok num s" by (rule wk_reach_ok [OF assms(1)])
  then have len: "length (wk_pcs s) = num" and lock: "lock_ok s" by (simp_all add: wake_ok_def)
  assume "wk_pcs s ! i = Asleep \<and> \<not> nothing_for (i = 0) (tp_q (wk_pool s))"
  with ok show m: "wk_main s = Stored \<or> wk_main s = Released"
    using assms(2) len by (auto simp: wake_ok_def sleep_ok_def)
  then show "\<exists>s'. wk_step Proceed s = Inr s' \<and> (wk_main s = Released \<longrightarrow> wk_pcs s' ! i = Woken)"
    using \<open>wk_pcs s ! i = Asleep \<and> _\<close> assms(2) len by (auto simp: main_move_def nth_broadcast)
next
  have ok: "wake_ok num s" by (rule wk_reach_ok [OF assms(1)])
  then have len: "length (wk_pcs s) = num" and lock: "lock_ok s" by (simp_all add: wake_ok_def)
  assume h: "holds_lock (wk_pcs s ! i)"
  with one_holder [OF lock] assms(2) len show "\<forall>k<num. k \<noteq> i \<longrightarrow> \<not> holds_lock (wk_pcs s ! k)" by blast
  from h lock_holder [OF lock] assms(2) len have "wk_owner s \<noteq> Some ByMain" by simp
  with lock show "wk_main s \<noteq> Stored" "\<forall>fd tr. wk_main s \<noteq> Entered fd tr" by (auto simp: lock_ok_def)
qed

lemma no_lost_wakeup_witness:
  "\<exists>s. wk_run [Turn 1 0, Turn 1 0, Turn 1 0, Request 7 (message 0), Proceed] (wk_start 2 5) = Inr s \<and>
     wk_pcs s ! 1 = Asleep \<and> wk_main s = Stored \<and> (\<exists>s'. wk_step Proceed s = Inr s')"
proof -
  obtain s where run: "wk_run [Turn 1 0, Turn 1 0, Turn 1 0, Request 7 (message 0), Proceed] (wk_start 2 5) = Inr s"
    and s: "wk_pcs s ! 1 = Asleep" "wk_main s = Stored" "\<not> nothing_for False (tp_q (wk_pool s))"
    by (simp add: wk_eval)
  from no_lost_wakeup [OF threads.run_inv [OF wk_reach.start run], of 1] run s show ?thesis by auto
qed

text \<open>C10: the server can be shut down: with at least two workers (there are four) and no task queued,
  after the quit broadcast every run of worker steps ends after at most \<open>left_over s\<close> of them, and
  when it cannot go on all workers have left and the join returns, although the loop sets \<^verbatim>\<open>exit\<close> and
  broadcasts without the mutex.\<close>

theorem shutdown_completes:
  assumes "wk_reach num s" and "2 \<le> num" and "wk_main s = Joining" and "q_size (tp_q (wk_pool s)) = 0"
    and "shutting n s s'"
  shows "n \<le> left_over s \<and>
    ((\<exists>i j s''. fair_move (Turn i j) s' \<and> wk_step (Turn i j) s' = Inr s'') \<or>
     (\<exists>s''. wk_step Conclude s' = Inr s'' \<and> wk_main s'' = Joined))"
proof -
  have "idle_exit num s" using wk_reach_ok [OF assms(1)] assms(3,4) by (simp add: idle_exit_def)
  with shut.steps_inv [OF assms(5)] shut.steps_bounded [OF assms(5)]
  have ok: "idle_exit num s'" and "n \<le> left_over s" by fastforce+
  moreover have "\<exists>s''. wk_step Conclude s' = Inr s'' \<and> wk_main s'' = Joined"
    if "list_all (\<lambda>p. p = Gone) (wk_pcs s')"
    using ok that by (simp add: idle_exit_def join_move_def)
  ultimately show ?thesis using worker_enabled [OF ok assms(2)] by auto
qed

lemma shutdown_completes_witness:
  "\<exists>s. wk_run [Turn 1 0, Turn 1 0, Interrupt, Conclude, Turn 1 0] (wk_start 2 5) = Inr s \<and> wk_pcs s ! 1 = Asleep \<and>
     (\<exists>s'. wk_run [Turn 0 0, Turn 0 0, Turn 0 1, Turn 1 0, Turn 1 0, Turn 1 0] s = Inr s' \<and>
       6 \<le> left_over s \<and> (\<exists>s''. wk_step Conclude s' = Inr s'' \<and> wk_main s'' = Joined))"
proof -
  obtain s where run: "wk_run [Turn 1 0, Turn 1 0, Interrupt, Conclude, Turn 1 0] (wk_start 2 5) = Inr s"
    and s: "wk_pcs s ! 1 = Asleep" "wk_main s = Joining" "q_size (tp_q (wk_pool s)) = 0"
    and t: "\<exists>s'. wk_run [Turn 0 0, Turn 0 0, Turn 0 1, Turn 1 0, Turn 1 0, Turn 1 0] s = Inr s' \<and>
      wk_pcs s' = [Gone, Gone]"
    by (simp add: wk_eval)
  from t obtain s' where s': "wk_run [Turn 0 0, Turn 0 0, Turn 0 1, Turn 1 0, Turn 1 0, Turn 1 0] s = Inr s'"
    "wk_pcs s' = [Gone, Gone]" by blast
  have "shutting 6 s s'" using run_of_steps [OF s'(1), of thread_turn] by (simp add: eval_nat_numeral)
  from shutdown_completes [OF threads.run_inv [OF wk_reach.start run] _ s(2,3) this] s'(2)
  have "6 \<le> left_over s \<and> (\<exists>s''. wk_step Conclude s' = Inr s'' \<and> wk_main s'' = Joined)"
    by (auto simp: worker_move_def less_Suc_eq split: if_splits)
  with run s(1) s'(1) show ?thesis by blast
qed

text \<open>
  The condition on the number of workers is needed: a single worker that has tested \<^verbatim>\<open>exit\<close> before it was
  set, and sleeps after the broadcast, is woken by nobody, and only the alarm ends the process.
\<close>

theorem single_worker_sleeps_on:
  "\<exists>s. wk_run [Turn 0 0, Turn 0 0, Interrupt, Conclude, Turn 0 0] (wk_start 1 5) = Inr s \<and>
     wk_main s = Joining \<and> (\<forall>m. wk_step m s = Inl Blocked)"
proof -
  obtain s where s: "wk_run [Turn 0 0, Turn 0 0, Interrupt, Conclude, Turn 0 0] (wk_start 1 5) = Inr s"
    "wk_main s = Joining" "wk_pcs s = [Asleep]"
    by (simp add: wk_eval)
  have "wk_step m s = Inl Blocked" for m
    using s(2,3) by (cases m) (simp_all add: worker_move_def main_move_def join_move_def request_move_def quit_move_def)
  with s show ?thesis by blast
qed

end
