(* ===== verification/DbPool.thy ===== *)
theory DbPool
  imports Prelude
begin

text \<open>
  The connection pool of \<^verbatim>\<open>server/database.c\<close>. A connection is the number of its \<^verbatim>\<open>MYSQL\<close> object.
  The contract its users rely on (a connection is handed to one holder only; giving it back
  makes the pool what it was) is the locale \<open>connection_source\<close>; the lemmas about any
  interleaving of holders are proved from it.
\<close>

abbreviation MAX_POOL_SIZE :: nat where
  "MAX_POOL_SIZE \<equiv> 4"

record connection =
  cn_connection :: int
  cn_in_use :: bool

record db_pool =
  dp_connects :: "connection list"
  dp_available :: int

text \<open>
  \<^verbatim>\<open>init_database_pool\<close> with the handles \<^verbatim>\<open>mysql_init\<close> returned and the outcome of each
  \<^verbatim>\<open>mysql_real_connect\<close>: the first failure ends the process.
\<close>

fun connect_all :: "(int \<times> bool) list \<Rightarrow> connection list res" where
  "connect_all [] = Inr []"
| "connect_all ((c, connected) # cs) =
     (if \<not> connected then Inl Exited
      else bindR (connect_all cs) (\<lambda>ds. Inr (\<lparr>cn_connection = c, cn_in_use = False\<rparr> # ds)))"

definition init_database_pool :: "(int \<times> bool) list \<Rightarrow> db_pool res" where
  "init_database_pool handles =
     bindR (connect_all (take MAX_POOL_SIZE handles)) (\<lambda>cs.
     Inr \<lparr>dp_connects = cs, dp_available = int MAX_POOL_SIZE\<rparr>)"

fun take_free :: "connection list \<Rightarrow> (int \<times> connection list) option" where
  "take_free [] = None"
| "take_free (c # cs) =
     (if \<not> cn_in_use c then Some (cn_connection c, c\<lparr>cn_in_use := True\<rparr> # cs)
      else map_option (\<lambda>(k, cs). (k, c # cs)) (take_free cs))"

definition get_connection :: "db_pool \<Rightarrow> (int option \<times> db_pool) res" where
  "get_connection pool =
     (if dp_available pool = 0 then Inl Blocked
      else case take_free (dp_connects pool) of
             Some (k, cs) \<Rightarrow>
               Inr (Some k, pool\<lparr>dp_connects := cs, dp_available := dp_available pool - 1\<rparr>)
           | None \<Rightarrow> Inr (None, pool))"

fun give_back :: "int \<Rightarrow> connection list \<Rightarrow> connection list option" where
  "give_back k [] = None"
| "give_back k (c # cs) =
     (if cn_connection c = k then Some (c\<lparr>cn_in_use := False\<rparr> # cs)
      else map_option ((#) c) (give_back k cs))"

definition release_connection :: "int \<Rightarrow> db_pool \<Rightarrow> db_pool" where
  "release_connection k pool =
     (case give_back k (dp_connects pool) of
        None \<Rightarrow> pool
      | Some cs \<Rightarrow> pool\<lparr>dp_connects := cs, dp_available := dp_available pool + 1\<rparr>)"

text \<open>\<^verbatim>\<open>destory_database_pool\<close>: the handles it closes, once every connection is back.\<close>

definition destory_database_pool :: "db_pool \<Rightarrow> int list res" where
  "destory_database_pool pool =
     (if dp_available pool \<noteq> int MAX_POOL_SIZE then Inl Blocked
      else Inr (map cn_connection (take MAX_POOL_SIZE (dp_connects pool))))"

subsection \<open>The contract\<close>

datatype cop = Acquire | Release int

locale connection_source =
  fixes get :: "'p \<Rightarrow> (int option \<times> 'p) res"
    and rel :: "int \<Rightarrow> 'p \<Rightarrow> 'p"
    and avail :: "'p \<Rightarrow> int"
    and used :: "'p \<Rightarrow> int set"
    and ok :: "'p \<Rightarrow> bool"
    and cap :: int
    and handles :: "'p \<Rightarrow> int list"
  assumes get_some: "ok p \<Longrightarrow> 0 < avail p \<Longrightarrow> \<exists>k p'. get p = Inr (Some k, p') \<and> k \<notin> used p \<and> ok p' \<and>
      used p' = insert k (used p) \<and> avail p' = avail p - 1 \<and> rel k p' = p"
    and get_waits: "ok p \<Longrightarrow> avail p = 0 \<Longrightarrow> get p = Inl Blocked"
    and rel_used: "ok p \<Longrightarrow> k \<in> used p \<Longrightarrow> ok (rel k p) \<and> used (rel k p) = used p - {k} \<and>
      avail (rel k p) = avail p + 1"
    and used_avail: "ok p \<Longrightarrow> finite (used p) \<and> 0 \<le> avail p \<and> avail p = cap - int (card (used p))"
    and get_handles: "get p = Inr (r, p') \<Longrightarrow> handles p' = handles p"
    and rel_handles: "handles (rel k p) = handles p"
begin

text \<open>One holder: taking a connection and giving it back changes nothing.\<close>

lemma bracket: "ok p \<Longrightarrow> get p = Inr (Some k, p') \<Longrightarrow> rel k p' = p"
  using get_some [of p] get_waits [of p] used_avail [of p] by (cases "avail p = 0") force+

lemma get_ok:
  assumes "ok p" and "get p = Inr (r, p')"
  shows "\<exists>k. r = Some k \<and> k \<notin> used p \<and> ok p' \<and> used p' = insert k (used p) \<and> avail p' = avail p - 1"
  using get_some [OF assms(1)] get_waits [OF assms(1)] used_avail [OF assms(1)] assms(2)
  by (cases "avail p = 0") force+

text \<open>Any number of holders: the connections in their hands after a sequence of calls.\<close>

fun hold_run :: "cop list \<Rightarrow> int list \<Rightarrow> 'p \<Rightarrow> (int list \<times> 'p) res" where
  "hold_run [] held p = Inr (held, p)"
| "hold_run (Acquire # ops) held p =
     bindR (get p) (\<lambda>(k, p). hold_run ops (case k of None \<Rightarrow> held | Some k \<Rightarrow> k # held) p)"
| "hold_run (Release k # ops) held p =
     (if k \<in> set held then hold_run ops (remove1 k held) (rel k p) else hold_run ops held p)"

lemma hold_run_inv:
  "ok p \<Longrightarrow> distinct held \<Longrightarrow> set held = used p \<Longrightarrow> hold_run ops held p = Inr (held', p') \<Longrightarrow>
   ok p' \<and> distinct held' \<and> set held' = used p' \<and> avail p' = cap - int (length held')"
proof (induction ops arbitrary: held p)
  case Nil
  then show ?case using used_avail by (auto simp: distinct_card [symmetric])
next
  case (Cons op ops)
  show ?case
  proof (cases op)
    case Acquire
    with Cons.prems obtain r p1 where g: "get p = Inr (r, p1)"
      by (auto simp: bindR_eq_Inr)
    from get_ok [OF Cons.prems(1) g] obtain k where "r = Some k" "k \<notin> used p" "ok p1"
      "used p1 = insert k (used p)" by blast
    with Cons.IH [of p1 "k # held"] Cons.prems g Acquire show ?thesis by simp
  next
    case (Release k)
    show ?thesis
    proof (cases "k \<in> set held")
      case True
      with Cons.IH [of "rel k p" "remove1 k held"] Cons.prems Release rel_used [of p k]
      show ?thesis by simp
    next
      case False
      with Cons.IH [of p held] Cons.prems Release show ?thesis by simp
    qed
  qed
qed

lemma hold_run_handles: "hold_run ops held p = Inr (held', p') \<Longrightarrow> handles p' = handles p"
  by (induction ops held p rule: hold_run.induct)
    (auto simp: bindR_eq_Inr rel_handles get_handles split: if_splits)

end

subsection \<open>The pool keeps it\<close>

definition pool_used :: "db_pool \<Rightarrow> int set" where
  "pool_used pool = cn_connection ` set (filter cn_in_use (dp_connects pool))"

definition pool_handles :: "db_pool \<Rightarrow> int list" where
  "pool_handles pool = map cn_connection (dp_connects pool)"

lemma give_back_handles: "give_back k cs = Some ds \<Longrightarrow> map cn_connection ds = map cn_connection cs"
  by (induction cs arbitrary: ds) (auto split: if_splits)

definition pool_ok :: "db_pool \<Rightarrow> bool" where
  "pool_ok pool \<longleftrightarrow> length (dp_connects pool) = MAX_POOL_SIZE \<and>
     distinct (map cn_connection (dp_connects pool)) \<and>
     dp_available pool = int (length (filter (\<lambda>c. \<not> cn_in_use c) (dp_connects pool)))"

lemma take_free_None: "take_free cs = None \<longleftrightarrow> (\<forall>c\<in>set cs. cn_in_use c)"
  by (induction cs) (auto split: prod.splits)

lemma take_free_Some:
  "take_free cs = Some (k, ds) \<Longrightarrow>
   \<exists>xs c ys. cs = xs @ c # ys \<and> \<not> cn_in_use c \<and> cn_connection c = k \<and> ds = xs @ c\<lparr>cn_in_use := True\<rparr> # ys"
proof (induction cs arbitrary: ds)
  case (Cons c cs)
  show ?case
  proof (cases "cn_in_use c")
    case False
    with Cons.prems have "c # cs = [] @ c # cs \<and> \<not> cn_in_use c \<and> cn_connection c = k \<and>
      ds = [] @ c\<lparr>cn_in_use := True\<rparr> # cs" by simp
    then show ?thesis by blast
  next
    case True
    with Cons.prems obtain es where "take_free cs = Some (k, es)" "ds = c # es" by auto
    moreover from Cons.IH [OF this(1)] obtain xs d ys where "cs = xs @ d # ys" "\<not> cn_in_use d"
      "cn_connection d = k" "es = xs @ d\<lparr>cn_in_use := True\<rparr> # ys" by blast
    ultimately have "c # cs = (c # xs) @ d # ys \<and> \<not> cn_in_use d \<and> cn_connection d = k \<and>
      ds = (c # xs) @ d\<lparr>cn_in_use := True\<rparr> # ys" by simp
    then show ?thesis by blast
  qed
qed simp

lemma give_back_at:
  "k \<notin> cn_connection ` set xs \<Longrightarrow> cn_connection c = k \<Longrightarrow>
   give_back k (xs @ c # ys) = Some (xs @ c\<lparr>cn_in_use := False\<rparr> # ys)"
  by (induction xs) auto

lemma pool_used_card:
  assumes "pool_ok p"
  shows "finite (pool_used p) \<and> dp_available p = 4 - int (card (pool_used p))"
proof -
  have "inj_on cn_connection (set (dp_connects p))" and "distinct (dp_connects p)"
    using assms by (auto simp: pool_ok_def distinct_map)
  then have "card (pool_used p) = card (set (filter cn_in_use (dp_connects p)))"
    unfolding pool_used_def by (intro card_image) (auto intro: inj_on_subset)
  also have "\<dots> = length (filter cn_in_use (dp_connects p))"
    using \<open>distinct (dp_connects p)\<close> by (intro distinct_card distinct_filter)
  finally have "card (pool_used p) = length (filter cn_in_use (dp_connects p))" .
  moreover have "length (filter cn_in_use (dp_connects p)) +
    length (filter (\<lambda>c. \<not> cn_in_use c) (dp_connects p)) = 4"
    using assms sum_length_filter_compl [of cn_in_use "dp_connects p"] by (simp add: pool_ok_def)
  ultimately show ?thesis using assms by (simp add: pool_used_def pool_ok_def)
qed

lemma get_connection_ok:
  assumes ok: "pool_ok p" and pos: "0 < dp_available p"
  shows "\<exists>k p'. get_connection p = Inr (Some k, p') \<and> k \<notin> pool_used p \<and> pool_ok p' \<and>
    pool_used p' = insert k (pool_used p) \<and> dp_available p' = dp_available p - 1 \<and>
    release_connection k p' = p"
proof -
  have "\<not> (\<forall>c\<in>set (dp_connects p). cn_in_use c)"
    using ok pos by (auto simp: pool_ok_def filter_empty_conv)
  then obtain k ds where free: "take_free (dp_connects p) = Some (k, ds)"
    by (metis not_Some_eq surj_pair take_free_None)
  then obtain xs c ys where cs: "dp_connects p = xs @ c # ys" and c: "\<not> cn_in_use c" "cn_connection c = k"
    and ds: "ds = xs @ c\<lparr>cn_in_use := True\<rparr> # ys" using take_free_Some by blast
  let ?p = "p\<lparr>dp_connects := ds, dp_available := dp_available p - 1\<rparr>"
  have k: "k \<notin> cn_connection ` set xs" "k \<notin> cn_connection ` set ys"
    using ok cs c by (auto simp: pool_ok_def)
  have "get_connection p = Inr (Some k, ?p)" using free pos by (simp add: get_connection_def)
  moreover have "k \<notin> pool_used p" using cs c k by (auto simp: pool_used_def)
  moreover have "pool_ok ?p" using ok c by (simp add: pool_ok_def cs ds)
  moreover have "pool_used ?p = insert k (pool_used p)"
    using c by (auto simp: pool_used_def cs ds)
  moreover have "release_connection k ?p = p"
    using cs c give_back_at [OF k(1), of "c\<lparr>cn_in_use := True\<rparr>" ys]
    by (cases p; cases c) (simp add: release_connection_def ds)
  ultimately show ?thesis by auto
qed

lemma release_connection_ok:
  assumes ok: "pool_ok p" and used: "k \<in> pool_used p"
  shows "pool_ok (release_connection k p) \<and> pool_used (release_connection k p) = pool_used p - {k} \<and>
    dp_available (release_connection k p) = dp_available p + 1"
proof -
  from used obtain c where c: "c \<in> set (dp_connects p)" "cn_in_use c" "cn_connection c = k"
    by (auto simp: pool_used_def)
  then obtain xs ys where cs: "dp_connects p = xs @ c # ys" by (meson split_list)
  have k: "k \<notin> cn_connection ` set xs" "k \<notin> cn_connection ` set ys"
    using ok cs c by (auto simp: pool_ok_def)
  have rel: "release_connection k p =
    p\<lparr>dp_connects := xs @ c\<lparr>cn_in_use := False\<rparr> # ys, dp_available := dp_available p + 1\<rparr>"
    using give_back_at [OF k(1) c(3), of ys] by (simp add: release_connection_def cs)
  have "pool_used (p\<lparr>dp_connects := xs @ c\<lparr>cn_in_use := False\<rparr> # ys, dp_available := dp_available p + 1\<rparr>)
    = pool_used p - {k}"
    using c k by (simp add: pool_used_def cs image_iff) blast
  then show ?thesis unfolding rel using ok c by (simp add: pool_ok_def cs)
qed

interpretation db: connection_source get_connection release_connection dp_available pool_used pool_ok 4 pool_handles
proof
  fix p p' :: db_pool and k r
  show "pool_ok p \<Longrightarrow> 0 < dp_available p \<Longrightarrow> \<exists>k p'. get_connection p = Inr (Some k, p') \<and>
      k \<notin> pool_used p \<and> pool_ok p' \<and> pool_used p' = insert k (pool_used p) \<and>
      dp_available p' = dp_available p - 1 \<and> release_connection k p' = p"
    by (rule get_connection_ok)
  show "pool_ok p \<Longrightarrow> dp_available p = 0 \<Longrightarrow> get_connection p = Inl Blocked"
    by (simp add: get_connection_def)
  show "pool_ok p \<Longrightarrow> k \<in> pool_used p \<Longrightarrow> pool_ok (release_connection k p) \<and>
      pool_used (release_connection k p) = pool_used p - {k} \<and>
      dp_available (release_connection k p) = dp_available p + 1"
    by (rule release_connection_ok)
  show "pool_ok p \<Longrightarrow> finite (pool_used p) \<and> 0 \<le> dp_available p \<and>
      dp_available p = 4 - int (card (pool_used p))"
    using pool_used_card [of p] by (simp add: pool_ok_def)
  show "get_connection p = Inr (r, p') \<Longrightarrow> pool_handles p' = pool_handles p"
    by (auto simp: get_connection_def pool_handles_def split: if_splits option.splits dest!: take_free_Some)
  show "pool_handles (release_connection k p) = pool_handles p"
    using give_back_handles by (auto simp: release_connection_def pool_handles_def split: option.splits)
qed

lemma connect_all_ok:
  "\<forall>h\<in>set hs. snd h \<Longrightarrow> connect_all hs = Inr (map (\<lambda>h. \<lparr>cn_connection = fst h, cn_in_use = False\<rparr>) hs)"
  by (induction hs) auto

lemma init_pool_ok:
  assumes "length hs = 4" and "distinct (map fst hs)" and "\<forall>h\<in>set hs. snd h"
  shows "\<exists>p. init_database_pool hs = Inr p \<and> pool_ok p \<and> pool_used p = {} \<and> dp_available p = 4 \<and>
    pool_handles p = map fst hs"
  using assms by (auto simp: pool_handles_def init_database_pool_def connect_all_ok pool_ok_def pool_used_def o_def)

subsection \<open>Properties\<close>

text \<open>C29: the connections handed out never coincide: from a freshly initialised pool, after any sequence of
  \<^verbatim>\<open>get_connection\<close> and \<^verbatim>\<open>release_connection\<close> calls by holders, the connections in hand are
  distinct, \<^verbatim>\<open>available\<close> is exactly what is left of the four, and once all are back
  \<^verbatim>\<open>destory_database_pool\<close> returns and closes each of the four handles \<^verbatim>\<open>mysql_init\<close> returned once, in
  their order.\<close>

theorem pool_exclusive:
  assumes "length hs = MAX_POOL_SIZE" and "distinct (map fst hs)" and "list_all snd hs"
    and "init_database_pool hs = Inr p" and "db.hold_run ops [] p = Inr (held, p')"
  shows "distinct held \<and> dp_available p' = int (MAX_POOL_SIZE - length held) \<and> length held \<le> MAX_POOL_SIZE \<and>
    (held = [] \<longrightarrow> destory_database_pool p' = Inr (map fst hs))"
proof -
  from init_pool_ok [of hs] assms have "pool_ok p" "pool_used p = {}" "pool_handles p = map fst hs"
    by (auto simp: list_all_iff)
  with db.hold_run_inv [of p "[]" ops held p'] assms(5) have inv: "pool_ok p'" "distinct held"
    "dp_available p' = 4 - int (length held)" "pool_handles p' = map fst hs"
    using db.hold_run_handles [OF assms(5)] by auto
  moreover have "0 \<le> dp_available p'" using inv(1) by (simp add: pool_ok_def)
  ultimately show ?thesis by (auto simp: destory_database_pool_def pool_ok_def pool_handles_def)
qed

lemma pool_exclusive_witness:
  "\<exists>p held p'. init_database_pool [(10, True), (11, True), (12, True), (13, True)] = Inr p \<and>
     db.hold_run [Acquire, Acquire, Release 10, Release 11] [] p = Inr (held, p') \<and> held = [] \<and>
     dp_available p' = 4 \<and> destory_database_pool p' = Inr [10, 11, 12, 13]"
proof -
  obtain p held p' where run: "init_database_pool [(10, True), (11, True), (12, True), (13, True)] = Inr p"
    "db.hold_run [Acquire, Acquire, Release 10, Release 11] [] p = Inr (held, p')" "held = []"
    by (simp add: init_database_pool_def eval_nat_numeral get_connection_def release_connection_def)
  with pool_exclusive [OF _ _ _ run(1,2)] show ?thesis by auto
qed

end
