(* ===== verification/ToolPath.thy ===== *)
theory ToolPath
  imports Prelude
begin

text \<open>
  \<^verbatim>\<open>simplifyPath\<close> of \<^verbatim>\<open>server/tool.c\<close> (the client's \<^verbatim>\<open>Tools.c\<close> carries the same code): the
  index-level loop over the path with its output buffer \<open>name\<close> and its stack \<open>list\<close> of slash
  positions, both with their allocated sizes, and the proof that it computes the normal form
  of the path, component by component.
\<close>

subsection \<open>The loop\<close>

record sp_state =
  sp_name :: string
  sp_nameIdx :: nat
  sp_list :: "nat list"
  sp_listIdx :: nat
  sp_lastSlash :: nat

text \<open>\<^verbatim>\<open>name[nameIdx++] = c\<close>\<close>

definition sp_put :: "char \<Rightarrow> sp_state \<Rightarrow> sp_state res" where
  "sp_put c st =
     (if sp_nameIdx st < length (sp_name st)
      then Inr (st\<lparr>sp_name := (sp_name st)[sp_nameIdx st := c],
                   sp_nameIdx := sp_nameIdx st + 1\<rparr>)
      else Inl OutOfBounds)"

text \<open>\<^verbatim>\<open>name[nameIdx++] = '/'; list[listIdx++] = nameIdx - 1\<close>\<close>

definition sp_mark :: "sp_state \<Rightarrow> sp_state res" where
  "sp_mark st =
     bindR (sp_put (CHR ''/'') st) (\<lambda>st.
     if sp_listIdx st < length (sp_list st)
     then Inr (st\<lparr>sp_list := (sp_list st)[sp_listIdx st := sp_nameIdx st - 1],
                  sp_listIdx := sp_listIdx st + 1\<rparr>)
     else Inl OutOfBounds)"

text \<open>\<^verbatim>\<open>nameIdx = list[listIdx - 1] + 1\<close>\<close>

definition sp_reset :: "sp_state \<Rightarrow> sp_state res" where
  "sp_reset st =
     (if 0 < sp_listIdx st \<and> sp_listIdx st - 1 < length (sp_list st)
      then Inr (st\<lparr>sp_nameIdx := sp_list st ! (sp_listIdx st - 1) + 1\<rparr>)
      else Inl OutOfBounds)"

definition sp_step :: "string \<Rightarrow> nat \<Rightarrow> sp_state \<Rightarrow> sp_state res" where
  "sp_step path i st =
     (if i < length path \<and> path ! i \<noteq> CHR ''/'' then sp_put (path ! i) st
      else
        let nameLen = i - sp_lastSlash st;
            st = st\<lparr>sp_lastSlash := i\<rparr>
        in if nameLen = 1 then Inr st
           else if nameLen = 2 then
             (if path ! (i - 1) = CHR ''.'' then sp_reset st else sp_mark st)
           else if nameLen = 3 then
             (if path ! (i - 1) = CHR ''.'' \<and> path ! (i - 2) = CHR ''.'' then
                (if sp_listIdx st \<le> 1
                 then Inr (st\<lparr>sp_listIdx := 1, sp_nameIdx := 1\<rparr>)
                 else sp_reset (st\<lparr>sp_listIdx := sp_listIdx st - 1\<rparr>))
              else sp_mark st)
           else sp_mark st)"

function sp_loop :: "string \<Rightarrow> nat \<Rightarrow> sp_state \<Rightarrow> sp_state res" where
  "sp_loop path i st =
     (if i \<le> length path
      then bindR (sp_step path i st) (\<lambda>st. sp_loop path (i + 1) st)
      else Inr st)"
  by pat_completeness auto
termination
  by (relation "measure (\<lambda>(path, i, st). Suc (length path) - i)") auto

declare sp_loop.simps [simp del]

definition simplifyPath :: "string \<Rightarrow> string res" where
  "simplifyPath path =
     (let pathLen = length path;
          st = \<lparr>sp_name = replicate (pathLen + 1) NUL, sp_nameIdx = 0,
                sp_list = replicate pathLen 0, sp_listIdx = 0, sp_lastSlash = 0\<rparr>
      in bindR (sp_put (CHR ''/'') st) (\<lambda>st.
         bindR (if sp_listIdx st < length (sp_list st)
                then Inr (st\<lparr>sp_list := (sp_list st)[sp_listIdx st := 0],
                             sp_listIdx := sp_listIdx st + 1\<rparr>)
                else Inl OutOfBounds) (\<lambda>st.
         bindR (sp_loop path 1 st) (\<lambda>st.
         let num = (if sp_nameIdx st = 1 then 0 else 1);
             at = sp_nameIdx st - num
         in if at < length (sp_name st)
            then Inr (buf_text ((sp_name st)[at := NUL]))
            else Inl OutOfBounds))))"

subsection \<open>The specification: path normal form\<close>

text \<open>
  A path is a sequence of components separated by slashes. Empty components and \<open>.\<close> are
  dropped, \<open>..\<close> removes the component before it (and does nothing at the root), and the result
  is printed with one slash before every component; the empty sequence is the root.
\<close>

abbreviation split_slash :: "string \<Rightarrow> string list" where
  "split_slash \<equiv> split_on (CHR ''/'')"

definition norm_comp :: "string list \<Rightarrow> string \<Rightarrow> string list" where
  "norm_comp cs c =
     (if c = [] \<or> c = ''.'' then cs
      else if c = ''..'' then butlast cs
      else cs @ [c])"

definition normalise :: "string list \<Rightarrow> string list" where
  "normalise cs = foldl norm_comp [] cs"

definition render_path :: "string list \<Rightarrow> string" where
  "render_path cs = (if cs = [] then ''/'' else concat (map (\<lambda>c. CHR ''/'' # c) cs))"

definition path_spec :: "string \<Rightarrow> string" where
  "path_spec path = render_path (normalise (split_slash (tl path)))"

text \<open>A component that can stand in a normal form, and a normal form.\<close>

definition clean_comp :: "string \<Rightarrow> bool" where
  "clean_comp c \<longleftrightarrow> c \<noteq> [] \<and> c \<noteq> ''.'' \<and> c \<noteq> ''..'' \<and> CHR ''/'' \<notin> set c"

subsection \<open>Facts about the specification\<close>

lemmas split_slash_no_slash = split_on_no_sep [of "CHR ''/''"]
  and split_slash_append_slash = split_on_append_sep [of "CHR ''/''"]
  and split_slash_comps = split_on_parts [of _ "CHR ''/''"]

lemma norm_comp_clean:
  "\<forall>c\<in>set cs. clean_comp c \<Longrightarrow> CHR ''/'' \<notin> set w \<Longrightarrow> \<forall>c\<in>set (norm_comp cs w). clean_comp c"
  by (auto simp: norm_comp_def clean_comp_def dest: in_set_butlastD)

lemma foldl_norm_clean:
  "\<forall>c\<in>set cs. clean_comp c \<Longrightarrow> \<forall>w\<in>set ws. CHR ''/'' \<notin> set w \<Longrightarrow>
   \<forall>c\<in>set (foldl norm_comp cs ws). clean_comp c"
proof (induction ws arbitrary: cs)
  case Nil
  then show ?case by simp
next
  case (Cons w ws)
  from Cons.prems have "\<forall>c\<in>set (norm_comp cs w). clean_comp c"
    by (intro norm_comp_clean) simp_all
  with Cons.IH Cons.prems(2) show ?case by simp
qed

lemma normalise_clean: "\<forall>c\<in>set (normalise (split_slash s)). clean_comp c"
  unfolding normalise_def
  by (rule foldl_norm_clean) (auto dest: split_slash_comps)

lemma foldl_norm_id:
  "\<forall>c\<in>set ws. clean_comp c \<Longrightarrow> foldl norm_comp cs ws = cs @ ws"
  by (induction ws arbitrary: cs) (simp_all add: norm_comp_def clean_comp_def)

lemma split_render_tail:
  "c \<noteq> [] \<Longrightarrow> CHR ''/'' \<notin> set c \<Longrightarrow> \<forall>d\<in>set cs. clean_comp d \<Longrightarrow>
   split_slash (c @ concat (map (\<lambda>d. CHR ''/'' # d) cs)) = c # cs"
proof (induction cs arbitrary: c)
  case Nil
  then show ?case by (simp add: split_slash_no_slash)
next
  case (Cons d cs)
  then have "split_slash (d @ concat (map (\<lambda>d. CHR ''/'' # d) cs)) = d # cs"
    by (simp add: clean_comp_def)
  with Cons.prems show ?case
    by (simp add: split_slash_append_slash)
qed

lemma normalise_render:
  assumes "\<forall>c\<in>set cs. clean_comp c"
  shows "normalise (split_slash (tl (render_path cs))) = cs"
proof (cases cs)
  case Nil
  then show ?thesis by (simp add: render_path_def normalise_def norm_comp_def)
next
  case (Cons c ds)
  with assms have "split_slash (tl (render_path cs)) = cs"
    by (simp add: render_path_def split_render_tail clean_comp_def)
  with assms show ?thesis by (simp add: normalise_def foldl_norm_id)
qed

lemma path_spec_idem: "path_spec (path_spec p) = path_spec p"
  using normalise_render [OF normalise_clean]
  by (simp add: path_spec_def)

lemma path_spec_hd: "path_spec p \<noteq> [] \<and> hd (path_spec p) = CHR ''/''"
  by (cases "normalise (split_slash (tl p))") (auto simp: path_spec_def render_path_def)


subsection \<open>The loop computes the normal form\<close>

text \<open>
  \<open>trail cs\<close> is the output buffer after the components \<open>cs\<close>, \<open>marks cs\<close> the positions of its
  slashes, which is what the stack \<open>list\<close> holds.
\<close>

definition trail :: "string list \<Rightarrow> string" where
  "trail cs = CHR ''/'' # concat (map (\<lambda>c. c @ ''/'') cs)"

definition marks :: "string list \<Rightarrow> nat list" where
  "marks cs = map (\<lambda>k. length (trail (take k cs)) - 1) [0..<Suc (length cs)]"

lemma trail_Nil [simp]: "trail [] = ''/''"
  by (simp add: trail_def)

lemma trail_snoc [simp]: "trail (cs @ [c]) = trail cs @ c @ ''/''"
  by (simp add: trail_def)

lemma trail_length_pos [simp]: "0 < length (trail cs)"
  by (simp add: trail_def)

lemma trail_length_ge: "\<forall>c\<in>set cs. clean_comp c \<Longrightarrow> 1 + 2 * length cs \<le> length (trail cs)"
proof (induction cs rule: rev_induct)
  case Nil
  then show ?case by simp
next
  case (snoc c cs)
  then have "1 \<le> length c" by (simp add: clean_comp_def Suc_le_eq)
  with snoc show ?case by simp
qed

lemma trail_take: "take (length (trail (take k cs))) (trail cs) = trail (take k cs)"
proof -
  have "trail cs = trail (take k cs) @ concat (map (\<lambda>c. c @ ''/'') (drop k cs))"
    unfolding trail_def
    by (simp flip: concat_append map_append)
  then show ?thesis by (metis append_eq_conv_conj)
qed

lemma length_marks [simp]: "length (marks cs) = Suc (length cs)"
  by (simp add: marks_def)

lemma nth_marks: "k \<le> length cs \<Longrightarrow> marks cs ! k + 1 = length (trail (take k cs))"
  using trail_length_pos [of "take k cs"] by (simp add: marks_def del: upt_Suc trail_length_pos)

lemma marks_Nil [simp]: "marks [] = [0]"
  by (simp add: marks_def)

lemma marks_snoc: "marks (cs @ [c]) = marks cs @ [length (trail (cs @ [c])) - 1]"
  by (simp add: marks_def)

lemma take_marks_butlast: "cs \<noteq> [] \<Longrightarrow> take (length cs) (marks cs) = marks (butlast cs)"
  by (cases cs rule: rev_cases) (simp_all add: marks_snoc)

lemma render_trail:
  "render_path cs = (if cs = [] then trail cs else butlast (trail cs))"
proof (cases cs rule: rev_cases)
  case Nil
  then show ?thesis by (simp add: render_path_def)
next
  case (snoc ds d)
  have "concat (map (\<lambda>c. CHR ''/'' # c) (ds @ [d])) = trail ds @ d"
    by (induction ds) (simp_all add: trail_def)
  with snoc show ?thesis by (simp add: render_path_def butlast_append)
qed

definition sp_inv :: "string \<Rightarrow> nat \<Rightarrow> string list \<Rightarrow> string \<Rightarrow> sp_state \<Rightarrow> bool" where
  "sp_inv path i cs cur st \<longleftrightarrow>
     i = sp_lastSlash st + 1 + length cur \<and>
     length (sp_name st) = length path + 1 \<and>
     length (sp_list st) = length path \<and>
     sp_nameIdx st = length (trail cs) + length cur \<and>
     take (length (trail cs) + length cur) (sp_name st) = trail cs @ cur \<and>
     sp_listIdx st = Suc (length cs) \<and>
     take (Suc (length cs)) (sp_list st) = marks cs \<and>
     sp_nameIdx st \<le> i \<and> i \<le> length path + 1 \<and>
     take (length cur) (drop (sp_lastSlash st + 1) path) = cur \<and>
     CHR ''/'' \<notin> set cur \<and>
     (\<forall>c\<in>set cs. clean_comp c) \<and>
     set (trail cs) \<subseteq> insert (CHR ''/'') (set path)"

lemma sp_inv_cur_nth:
  assumes inv: "sp_inv path i cs cur st" and k: "0 < k" "k \<le> length cur"
  shows "path ! (i - k) = cur ! (length cur - k)"
proof -
  let ?l = "sp_lastSlash st + 1"
  from inv have cur: "take (length cur) (drop ?l path) = cur" and i: "i = ?l + length cur"
    by (simp_all add: sp_inv_def)
  have len: "length cur \<le> length path - ?l"
    using arg_cong [OF cur, of length] by simp
  with k have "take (length cur) (drop ?l path) ! (length cur - k) = path ! (?l + (length cur - k))"
    by simp
  moreover have "?l + (length cur - k) = i - k" using i k by simp
  ultimately show ?thesis by (simp only: cur)
qed

lemma sp_inv_step_char:
  assumes inv: "sp_inv path i cs cur st"
    and i: "i < length path" and c: "path ! i \<noteq> CHR ''/''"
  shows "\<exists>st'. sp_step path i st = Inr st' \<and> sp_inv path (i + 1) cs (cur @ [path ! i]) st'"
proof -
  let ?st = "st\<lparr>sp_name := (sp_name st)[sp_nameIdx st := path ! i],
                sp_nameIdx := sp_nameIdx st + 1\<rparr>"
  from inv i have room: "sp_nameIdx st < length (sp_name st)"
    by (simp add: sp_inv_def)
  with i c have step: "sp_step path i st = Inr ?st"
    by (simp add: sp_step_def sp_put_def)
  let ?l = "sp_lastSlash st + 1"
  from inv have cur: "take (length cur) (drop ?l path) = cur" and il: "i = ?l + length cur"
    and name: "take (sp_nameIdx st) (sp_name st) = trail cs @ cur"
    by (simp_all add: sp_inv_def)
  from i il have "take (Suc (length cur)) (drop ?l path) = cur @ [path ! i]"
    by (subst take_Suc_conv_app_nth) (simp_all only: cur, simp_all)
  moreover have "take (Suc (sp_nameIdx st)) ((sp_name st)[sp_nameIdx st := path ! i])
      = trail cs @ cur @ [path ! i]"
    using room by (simp only: take_Suc_update name append_assoc)
  ultimately have "sp_inv path (i + 1) cs (cur @ [path ! i]) ?st"
    using inv i c by (simp add: sp_inv_def)
  with step show ?thesis by blast
qed

lemma sp_inv_room:
  assumes "sp_inv path i cs cur st" and "i \<le> length path" and "cur \<noteq> []"
  shows "sp_nameIdx st < length (sp_name st)" and "sp_listIdx st < length (sp_list st)"
proof -
  from assms(1) have "1 + 2 * length cs \<le> length (trail cs)"
    by (intro trail_length_ge) (simp add: sp_inv_def)
  moreover from assms(3) have "1 \<le> length cur" by (simp add: Suc_le_eq)
  ultimately have "2 + 2 * length cs \<le> length (trail cs) + length cur" by simp
  with assms show "sp_nameIdx st < length (sp_name st)" and "sp_listIdx st < length (sp_list st)"
    by (simp_all add: sp_inv_def)
qed

text \<open>The three outcomes of a component: it is recorded, dropped, or drops its predecessor.\<close>

lemma sp_inv_mark:
  assumes inv: "sp_inv path i cs cur st" and i: "i \<le> length path" and c: "clean_comp cur"
  shows "\<exists>st'. sp_mark (st\<lparr>sp_lastSlash := i\<rparr>) = Inr st' \<and> sp_inv path (i + 1) (cs @ [cur]) [] st'"
proof -
  from c have "cur \<noteq> []" by (simp add: clean_comp_def)
  note room = sp_inv_room [OF inv i this]
  let ?st = "st\<lparr>sp_lastSlash := i, sp_name := (sp_name st)[sp_nameIdx st := CHR ''/''],
                sp_nameIdx := sp_nameIdx st + 1,
                sp_list := (sp_list st)[sp_listIdx st := sp_nameIdx st],
                sp_listIdx := sp_listIdx st + 1\<rparr>"
  have step: "sp_mark (st\<lparr>sp_lastSlash := i\<rparr>) = Inr ?st"
    using room by (simp add: sp_mark_def sp_put_def)
  from inv have name: "take (sp_nameIdx st) (sp_name st) = trail cs @ cur"
    and list: "take (sp_listIdx st) (sp_list st) = marks cs"
    and cur: "take (length cur) (drop (sp_lastSlash st + 1) path) = cur"
    and idx: "sp_nameIdx st = length (trail cs) + length cur" by (simp_all add: sp_inv_def)
  have "take (Suc (sp_nameIdx st)) ((sp_name st)[sp_nameIdx st := CHR ''/'']) = trail (cs @ [cur])"
    using room by (simp add: take_Suc_update name)
  moreover have "take (Suc (sp_listIdx st)) ((sp_list st)[sp_listIdx st := sp_nameIdx st])
      = marks (cs @ [cur])"
    using room list inv by (simp add: take_Suc_update marks_snoc sp_inv_def)
  moreover have "set cur \<subseteq> set path"
    by (metis cur set_take_subset set_drop_subset subset_trans)
  moreover from inv have "set (trail cs) \<subseteq> insert (CHR ''/'') (set path)"
    by (simp add: sp_inv_def)
  ultimately have "sp_inv path (i + 1) (cs @ [cur]) [] ?st"
    using inv i c by (auto simp add: sp_inv_def)
  with step show ?thesis by blast
qed

lemma sp_inv_reset:
  assumes inv: "sp_inv path i cs cur st" and i: "i \<le> length path"
    and ds: "ds = take k cs" and k: "k \<le> length cs"
  shows "\<exists>st'. sp_reset (st\<lparr>sp_lastSlash := i, sp_listIdx := Suc k\<rparr>) = Inr st' \<and>
    sp_inv path (i + 1) ds [] st'"
proof -
  from inv have len: "sp_listIdx st = Suc (length cs)" and list: "take (sp_listIdx st) (sp_list st) = marks cs"
    and name: "take (sp_nameIdx st) (sp_name st) = trail cs @ cur"
    and idx: "sp_nameIdx st = length (trail cs) + length cur"
    by (simp_all add: sp_inv_def)
  have "min (length (sp_list st)) (Suc (length cs)) = Suc (length cs)"
    using arg_cong [OF list, of length] by (simp only: length_take length_marks len)
  then have k': "k < length (sp_list st)" using k by simp
  have "sp_list st ! k = marks cs ! k"
    using k len by (simp flip: list)
  then have nth: "sp_list st ! k + 1 = length (trail ds)"
    using nth_marks [OF k] ds by simp
  let ?st = "st\<lparr>sp_lastSlash := i, sp_listIdx := Suc k, sp_nameIdx := length (trail ds)\<rparr>"
  have step: "sp_reset (st\<lparr>sp_lastSlash := i, sp_listIdx := Suc k\<rparr>) = Inr ?st"
    using k' nth by (simp add: sp_reset_def)
  have pre: "take (length (trail ds)) (trail cs) = trail ds"
    using trail_take ds by simp
  then have le: "length (trail ds) \<le> length (trail cs)"
    by (metis length_take min.cobounded1)
  have "take (length (trail ds)) (sp_name st) = take (length (trail ds)) (trail cs @ cur)"
    using le idx by (simp flip: name add: min_def)
  with pre le have nm: "take (length (trail ds)) (sp_name st) = trail ds" by simp
  have "take (Suc k) (sp_list st) = take (Suc k) (marks cs)"
    using k len by (simp flip: list add: min_def)
  also have "\<dots> = marks ds"
    using k ds by (auto simp: marks_def take_map min_def simp del: upt_Suc)
  finally have ls: "take (Suc k) (sp_list st) = marks ds" .
  have "set (trail ds) \<subseteq> set (trail cs)" by (metis pre set_take_subset)
  moreover have "\<forall>c\<in>set ds. clean_comp c"
    using inv ds by (auto simp: sp_inv_def dest: in_set_takeD)
  ultimately have "sp_inv path (i + 1) ds [] ?st"
    using inv i nm ls le idx ds k by (auto simp add: sp_inv_def)
  with step show ?thesis by blast
qed

lemma sp_inv_step_slash:
  assumes inv: "sp_inv path i cs cur st" and i: "i \<le> length path"
    and s: "i = length path \<or> path ! i = CHR ''/''"
  shows "\<exists>st'. sp_step path i st = Inr st' \<and> sp_inv path (i + 1) (norm_comp cs cur) [] st'"
proof -
  let ?st = "st\<lparr>sp_lastSlash := i\<rparr>"
  have len: "i - sp_lastSlash st = Suc (length cur)" and li: "sp_listIdx st = Suc (length cs)"
    and ns: "CHR ''/'' \<notin> set cur"
    using inv by (simp_all add: sp_inv_def)
  have same: "?st\<lparr>sp_listIdx := Suc (length cs)\<rparr> = ?st"
    using li by (cases st) simp
  have keep: "\<exists>st'. sp_reset ?st = Inr st' \<and> sp_inv path (i + 1) cs [] st'"
    using sp_inv_reset [OF inv i, of cs "length cs"] by (simp add: same)
  have mark: "\<exists>st'. sp_mark ?st = Inr st' \<and> sp_inv path (i + 1) (cs @ [cur]) [] st'"
    if "cur \<noteq> []" "cur \<noteq> ''.''" "cur \<noteq> ''..''"
    using that ns by (intro sp_inv_mark [OF inv i]) (simp add: clean_comp_def)
  consider "cur = []" | c where "cur = [c]" | c d where "cur = [c, d]" | "3 \<le> length cur"
    by (cases cur rule: remdups_adj.cases) (auto simp: numeral_3_eq_3 Suc_le_eq)
  then show ?thesis
  proof cases
    case 1
    with inv i have "sp_inv path (i + 1) cs [] ?st" by (simp add: sp_inv_def)
    with 1 s len show ?thesis by (auto simp: sp_step_def Let_def norm_comp_def)
  next
    case 2
    have "path ! (i - 1) = c" using sp_inv_cur_nth [OF inv, of 1] 2 by simp
    with 2 s len keep mark show ?thesis
      by (auto simp: sp_step_def Let_def norm_comp_def)
  next
    case 3
    have "path ! (i - 1) = d" "path ! (i - 2) = c"
      using sp_inv_cur_nth [OF inv, of 1] sp_inv_cur_nth [OF inv, of 2] 3 by simp_all
    moreover have "\<exists>st'. sp_reset (?st\<lparr>sp_listIdx := length cs\<rparr>) = Inr st' \<and>
        sp_inv path (i + 1) (butlast cs) [] st'" if "cs \<noteq> []"
      using sp_inv_reset [OF inv i, of "butlast cs" "length cs - 1"] that
      by (simp add: butlast_conv_take)
    moreover have "sp_inv path (i + 1) [] [] (?st\<lparr>sp_listIdx := 1, sp_nameIdx := 1\<rparr>)" if "cs = []"
      using inv i that take_append_prefixD [of "trail []" "length cur" "sp_name st" cur]
      by (simp add: sp_inv_def)
    ultimately show ?thesis using 3 s len li mark
      by (cases "cs = []") (auto simp: sp_step_def Let_def norm_comp_def)
  next
    case 4
    then have "cur \<noteq> []" "cur \<noteq> ''.''" "cur \<noteq> ''..''" by auto
    with mark 4 s len show ?thesis
      by (auto simp: sp_step_def Let_def norm_comp_def)
  qed
qed

text \<open>
  From any loop state that stands for \<open>cs\<close> and the open component \<open>cur\<close>, the loop ends with the
  components that the rest of the path leaves, without leaving its buffers.
\<close>

lemma foldl_split_open:
  "CHR ''/'' \<notin> set cur \<Longrightarrow>
   foldl norm_comp cs (split_slash (cur @ rest)) =
     (case rest of [] \<Rightarrow> norm_comp cs cur
      | c # r \<Rightarrow> (if c = CHR ''/'' then foldl norm_comp (norm_comp cs cur) (split_slash r)
                 else foldl norm_comp cs (split_slash ((cur @ [c]) @ r))))"
  by (cases rest) (auto simp: split_slash_no_slash split_slash_append_slash)

lemma sp_loop_correct:
  "sp_inv path i cs cur st \<Longrightarrow> i \<le> length path \<Longrightarrow>
   \<exists>st'. sp_loop path i st = Inr st' \<and>
     sp_inv path (length path + 1) (foldl norm_comp cs (split_slash (cur @ drop i path))) [] st'"
proof (induction "length path - i" arbitrary: i cs cur st)
  case 0
  then have i: "i = length path" by simp
  then obtain st' where st': "sp_step path i st = Inr st'"
    "sp_inv path (i + 1) (norm_comp cs cur) [] st'"
    using sp_inv_step_slash [OF "0.prems"] by auto
  have "CHR ''/'' \<notin> set cur" using "0.prems" by (simp add: sp_inv_def)
  with i st' show ?case
    by (simp add: sp_loop.simps [of path "length path"] sp_loop.simps [of path "Suc (length path)"]
        split_slash_no_slash)
next
  case (Suc n)
  then have i: "i < length path" by simp
  then have rest: "drop i path = path ! i # drop (i + 1) path"
    by (simp add: Cons_nth_drop_Suc)
  have ns: "CHR ''/'' \<notin> set cur" using Suc.prems by (simp add: sp_inv_def)
  obtain cs' cur' st' where st': "sp_step path i st = Inr st'" "sp_inv path (i + 1) cs' cur' st'"
    and split: "foldl norm_comp cs (split_slash (cur @ drop i path))
      = foldl norm_comp cs' (split_slash (cur' @ drop (i + 1) path))"
  proof (cases "path ! i = CHR ''/''")
    case True
    with sp_inv_step_slash [OF Suc.prems] obtain st' where
      "sp_step path i st = Inr st'" "sp_inv path (i + 1) (norm_comp cs cur) [] st'" by auto
    with True that ns show thesis by (simp add: rest split_slash_append_slash)
  next
    case False
    with sp_inv_step_char [OF Suc.prems(1) i] obtain st' where
      "sp_step path i st = Inr st'" "sp_inv path (i + 1) cs (cur @ [path ! i]) st'" by auto
    with that show thesis by (simp add: rest)
  qed
  from Suc.hyps have "n = length path - (i + 1)" by simp
  from Suc.hyps(1) [OF this st'(2)] i obtain st'' where
    "sp_loop path (i + 1) st' = Inr st''"
    "sp_inv path (length path + 1)
       (foldl norm_comp cs' (split_slash (cur' @ drop (i + 1) path))) [] st''" by auto
  with i st'(1) split show ?case by (simp add: sp_loop.simps [of path i])
qed

text \<open>
  The main fact of the theory: for every nonempty path the function returns, without leaving
  its two buffers, the printed normal form of the path.
\<close>

lemma simplifyPath_eq_spec:
  assumes "path \<noteq> []" and "cstr_ok path"
  shows "simplifyPath path = Inr (path_spec path)"
proof -
  let ?n = "length path"
  let ?st = "\<lparr>sp_name = (replicate (?n + 1) NUL)[0 := CHR ''/''], sp_nameIdx = 1,
    sp_list = replicate ?n 0, sp_listIdx = 1, sp_lastSlash = 0\<rparr>"
  from assms(1) have n: "0 < ?n" by simp
  have "sp_inv path 1 [] [] ?st"
    using n by (simp add: sp_inv_def) (cases path, simp_all)
  from sp_loop_correct [OF this] n obtain st' where
    loop: "sp_loop path 1 ?st = Inr st'" and
    inv: "sp_inv path (?n + 1) (normalise (split_slash (tl path))) [] st'"
    by (auto simp: normalise_def drop_Suc)
  define cs where "cs = normalise (split_slash (tl path))"
  let ?at = "sp_nameIdx st' - (if sp_nameIdx st' = 1 then 0 else 1)"
  have clean: "\<forall>c\<in>set cs. clean_comp c" unfolding cs_def by (rule normalise_clean)
  have one: "sp_nameIdx st' = 1 \<longleftrightarrow> cs = []"
    using inv trail_length_ge [OF clean] by (auto simp: sp_inv_def cs_def [symmetric])
  have name: "take (length (trail cs)) (sp_name st') = trail cs"
    and idx: "sp_nameIdx st' = length (trail cs)"
    and len: "length (sp_name st') = ?n + 1" "sp_nameIdx st' \<le> ?n + 1"
    using inv by (simp_all add: sp_inv_def cs_def)
  have at: "?at < length (sp_name st')"
    using len n trail_length_pos [of cs] idx by (auto simp del: length_greater_0_conv)
  have "take ?at (sp_name st') = render_path cs"
  proof (cases "cs = []")
    case True
    with name idx show ?thesis by (simp add: render_path_def)
  next
    case False
    with one idx have at': "?at = length (trail cs) - 1" by simp
    have "take (length (trail cs) - 1) (sp_name st') = take (length (trail cs) - 1) (trail cs)"
      by (subst name [symmetric]) (simp only: take_take min_def diff_le_self if_True)
    with at' False show ?thesis by (simp add: render_trail butlast_conv_take)
  qed
  moreover have "cstr_ok (render_path cs)"
  proof -
    from inv have "set (trail cs) \<subseteq> insert (CHR ''/'') (set path)"
      by (simp add: sp_inv_def cs_def)
    with assms(2) have "cstr_ok (trail cs)" by (auto simp: cstr_ok_def)
    then show ?thesis by (auto simp: render_trail cstr_ok_def dest: in_set_butlastD)
  qed
  ultimately have "buf_text ((sp_name st')[?at := NUL]) = render_path cs"
    using at by (simp add: upd_conv_take_nth_drop buf_text_append_NUL)
  moreover have "(replicate (?n) (0::nat))[0 := 0] = replicate ?n 0"
    by (cases path) simp_all
  ultimately show ?thesis
    using n loop at
    by (simp add: simplifyPath_def sp_put_def Let_def path_spec_def cs_def [symmetric])
qed

subsection \<open>Properties\<close>



end
