(* ===== verification/ToolText.thy ===== *)
theory ToolText
  imports ToolPath
begin

text \<open>
  The text functions of \<^verbatim>\<open>server/tool.c\<close>: \<^verbatim>\<open>remove_space\<close>, \<^verbatim>\<open>reverseString\<close>,
  \<^verbatim>\<open>splite_argument\<close>, \<^verbatim>\<open>splite_file_name\<close>, \<^verbatim>\<open>get_file_name\<close>, \<^verbatim>\<open>get_user_path\<close>,
  \<^verbatim>\<open>get_sult\<close> and \<^verbatim>\<open>read_config\<close>, each with the accesses that would leave its buffers, and
  what each computes.
\<close>

subsection \<open>\<^verbatim>\<open>remove_space\<close>\<close>

text \<open>
  The loop appends to \<open>temp\<close>, whose first \<open>j\<close> cells are the accumulator \<open>out\<close>. After it the code
  reads \<^verbatim>\<open>temp[j-1]\<close>, which lies before the array when nothing was kept.
\<close>

function rs_loop :: "string \<Rightarrow> nat \<Rightarrow> string \<Rightarrow> string" where
  "rs_loop a i out =
     (if i < length a then
        (if i = 0 \<and> a ! i = CHR '' '' then rs_loop a (i + 1) out
         else if a ! i = CHR '' '' \<and> a ! (i - 1) = CHR '' '' then rs_loop a (i + 1) out
         else if a ! i = CHR 0x0A then rs_loop a (i + 1) out
         else rs_loop a (i + 1) (out @ [a ! i]))
      else out)"
  by pat_completeness auto
termination
  by (relation "measure (\<lambda>(a, i, out). length a - i)") auto

declare rs_loop.simps [simp del]

definition remove_space :: "string \<Rightarrow> string res" where
  "remove_space argument =
     (let out = rs_loop argument 0 []
      in if out = [] then Inl OutOfBounds
         else if last out = CHR '' '' then Inr (butlast out)
         else Inr out)"

text \<open>The loop as a recursion over the text, given the character before it.\<close>

fun squeeze :: "bool \<Rightarrow> string \<Rightarrow> string" where
  "squeeze after_space [] = []"
| "squeeze after_space (c # s) =
     (if c = CHR '' '' \<and> after_space then squeeze True s
      else if c = CHR 0x0A then squeeze False s
      else c # squeeze (c = CHR '' '') s)"

lemma rs_loop_squeeze:
  "i \<le> length a \<Longrightarrow>
   rs_loop a i out = out @ squeeze (i = 0 \<or> a ! (i - 1) = CHR '' '') (drop i a)"
proof (induction a i out rule: rs_loop.induct)
  case (1 a i out)
  show ?case
  proof (cases "i < length a")
    case False
    with "1.prems" show ?thesis by (simp add: rs_loop.simps [of a "length a"])
  next
    case True
    then have "drop i a = a ! i # drop (Suc i) a" by (simp add: Cons_nth_drop_Suc)
    with True 1 show ?thesis by (auto simp: rs_loop.simps [of a i])
  qed
qed

lemma rs_loop_eq: "rs_loop a 0 [] = squeeze True a"
  by (simp add: rs_loop_squeeze)

text \<open>
  The words of a text are its maximal runs of characters that are not spaces. On a text with
  no newline, \<open>remove_space\<close> keeps exactly the words, one space apart.
\<close>

definition words_of :: "string \<Rightarrow> string list" where
  "words_of s = filter (\<lambda>w. w \<noteq> []) (split_on (CHR '' '') s)"

fun join_words :: "string list \<Rightarrow> string" where
  "join_words [] = []"
| "join_words [w] = w"
| "join_words (w # ws) = w @ CHR '' '' # join_words ws"

lemma words_of_space [simp]: "words_of (CHR '' '' # s) = words_of s"
  by (simp add: words_of_def)

lemma words_of_Nil [simp]: "words_of [] = []"
  by (simp add: words_of_def)

lemma words_of_no_space: "CHR '' '' \<notin> set w \<Longrightarrow> w \<noteq> [] \<Longrightarrow> words_of w = [w]"
  by (simp add: words_of_def split_on_no_sep)

lemma words_of_word_space:
  "CHR '' '' \<notin> set w \<Longrightarrow> w \<noteq> [] \<Longrightarrow> words_of (w @ CHR '' '' # s) = w # words_of s"
  by (simp add: words_of_def split_on_append_sep)

lemma words_of_parts: "w \<in> set (words_of s) \<Longrightarrow> w \<noteq> [] \<and> CHR '' '' \<notin> set w"
  by (auto simp: words_of_def dest: split_on_parts)

lemma squeeze_word:
  "CHR '' '' \<notin> set w \<Longrightarrow> CHR 0x0A \<notin> set w \<Longrightarrow> w \<noteq> [] \<Longrightarrow>
   squeeze b (w @ s) = w @ squeeze False s"
  by (induction w arbitrary: b) (auto split: list.splits, (metis append_Nil list.exhaust)+)

lemma span_space:
  obtains w r where "s = w @ r" and "CHR '' '' \<notin> set w"
    and "r = [] \<or> (\<exists>t. r = CHR '' '' # t)"
proof
  show "s = takeWhile (\<lambda>c. c \<noteq> CHR '' '') s @ dropWhile (\<lambda>c. c \<noteq> CHR '' '') s" by simp
  show "CHR '' '' \<notin> set (takeWhile (\<lambda>c. c \<noteq> CHR '' '') s)" by (auto dest: set_takeWhileD)
  show "dropWhile (\<lambda>c. c \<noteq> CHR '' '') s = [] \<or>
      (\<exists>t. dropWhile (\<lambda>c. c \<noteq> CHR '' '') s = CHR '' '' # t)"
    by (cases "dropWhile (\<lambda>c. c \<noteq> CHR '' '') s") (auto dest: hd_dropWhile simp: dropWhile_eq_Cons_conv)
qed

text \<open>
  \<open>squeeze True\<close> prints the words with single spaces and keeps one trailing space exactly when
  the text has words and ends in a space.
\<close>

lemma squeeze_words:
  "CHR 0x0A \<notin> set s \<Longrightarrow>
   squeeze True s =
     join_words (words_of s) @
     (if words_of s \<noteq> [] \<and> last s = CHR '' '' then '' '' else [])"
proof (induction s rule: length_induct)
  case (1 s)
  obtain w r where s: "s = w @ r" and w: "CHR '' '' \<notin> set w"
    and r: "r = [] \<or> (\<exists>t. r = CHR '' '' # t)" by (rule span_space)
  show ?case
  proof (cases "w = []")
    case True
    with r s 1 show ?thesis by (cases r) (auto split: if_splits)
  next
    case wne: False
    have w_nl: "CHR 0x0A \<notin> set w" using "1.prems" s by simp
    note sq = squeeze_word [OF w w_nl wne]
    show ?thesis
    proof (cases r)
      case Nil
      with sq [of True "[]"] s w wne show ?thesis
        by (simp add: words_of_no_space) (metis last_in_set)
    next
      case (Cons c t)
      with r have r': "r = CHR '' '' # t" by auto
      have "squeeze True t = join_words (words_of t) @
          (if words_of t \<noteq> [] \<and> last t = CHR '' '' then '' '' else [])"
        using "1.IH" "1.prems" s r' wne by simp
      moreover have "words_of t = [] \<Longrightarrow> t = [] \<or> last t = CHR '' ''"
      proof (rule ccontr)
        assume no: "words_of t = []" and "\<not> (t = [] \<or> last t = CHR '' '')"
        then have "last (split_on (CHR '' '') t) \<noteq> []"
          by (cases t rule: rev_cases) (simp_all add: last_split_on)
        with no show False
          by (simp add: words_of_def filter_empty_conv)
      qed
      ultimately show ?thesis
        using sq [of True r] s r' w wne
        by (cases "words_of t") (auto simp: words_of_word_space)
    qed
  qed
qed

lemma join_words_eq_Nil: "\<forall>w\<in>set ws. w \<noteq> [] \<Longrightarrow> join_words ws = [] \<longleftrightarrow> ws = []"
  by (cases ws rule: join_words.cases) auto

lemma last_join_words:
  "ws \<noteq> [] \<Longrightarrow> \<forall>w\<in>set ws. w \<noteq> [] \<Longrightarrow> last (join_words ws) = last (last ws)"
  by (induction ws rule: join_words.induct) (auto simp: join_words_eq_Nil)

lemma remove_space_words:
  assumes "CHR 0x0A \<notin> set s"
  shows "remove_space s =
    (if words_of s = [] then Inl OutOfBounds else Inr (join_words (words_of s)))"
proof (cases "words_of s = []")
  case True
  with squeeze_words [OF assms] show ?thesis
    by (simp add: remove_space_def rs_loop_eq)
next
  case False
  have ne: "\<forall>w\<in>set (words_of s). w \<noteq> []" by (auto dest: words_of_parts)
  have "last (words_of s) \<in> set (words_of s)" using False by simp
  then have "last (last (words_of s)) \<noteq> CHR '' ''" by (metis last_in_set words_of_parts)
  with False have "last (join_words (words_of s)) \<noteq> CHR '' ''"
    using last_join_words [OF False ne] by simp
  moreover have "join_words (words_of s) \<noteq> []" using join_words_eq_Nil [OF ne] False by simp
  ultimately show ?thesis using False squeeze_words [OF assms]
    by (auto simp: remove_space_def rs_loop_eq butlast_append)
qed

subsection \<open>\<^verbatim>\<open>reverseString\<close>\<close>

text \<open>The swap loop, on the characters before the terminator.\<close>

function rev_loop :: "nat \<Rightarrow> string \<Rightarrow> string" where
  "rev_loop i str =
     (if i < length str div 2
      then rev_loop (i + 1)
             (str[i := str ! (length str - i - 1), length str - i - 1 := str ! i])
      else str)"
  by pat_completeness auto
termination
  by (relation "measure (\<lambda>(i, str). length str div 2 - i)") auto

declare rev_loop.simps [simp del]

definition reverseString :: "string \<Rightarrow> string" where
  "reverseString str = rev_loop 0 str"

text \<open>
  At turn \<open>i\<close> the outer \<open>i\<close> characters on each side are already in place; the loop reverses
  what lies between them.
\<close>

lemma rev_loop_mid:
  "length l = i \<Longrightarrow> length r = i \<Longrightarrow> rev_loop i (l @ m @ r) = l @ rev m @ r"
proof (induction m arbitrary: i l r rule: length_induct)
  case (1 m)
  show ?case
  proof (cases "length m < 2")
    case True
    then have "rev m = m" by (cases m) auto
    moreover have "\<not> i < length (l @ m @ r) div 2" using True "1.prems" by simp
    ultimately show ?thesis by (simp add: rev_loop.simps [of i "l @ m @ r"])
  next
    case False
    then obtain x m' y where m: "m = x # m' @ [y]"
      by (cases m; cases "tl m" rule: rev_cases) auto
    let ?s = "l @ m @ r"
    have swap: "?s[i := ?s ! (length ?s - i - 1), length ?s - i - 1 := ?s ! i]
        = (l @ [y]) @ m' @ (x # r)"
      using "1.prems" m by (simp add: nth_append list_update_append)
    have rest: "rev_loop (i + 1) ((l @ [y]) @ m' @ (x # r)) = (l @ [y]) @ rev m' @ (x # r)"
      using "1.IH" [rule_format, of m' "l @ [y]" "i + 1" "x # r"] "1.prems" m by simp
    have "i < length ?s div 2" using "1.prems" m by simp
    then have "rev_loop i ?s = rev_loop (i + 1)
        (?s[i := ?s ! (length ?s - i - 1), length ?s - i - 1 := ?s ! i])"
      by (subst rev_loop.simps) (rule if_P)
    then show ?thesis unfolding swap rest by (simp add: m)
  qed
qed

lemma reverseString_rev: "reverseString str = rev str"
  using rev_loop_mid [of "[]" 0 "[]" str] by (simp add: reverseString_def)

subsection \<open>\<^verbatim>\<open>splite_argument\<close>\<close>

text \<open>
  A cursor into a string is the suffix it points at. The two results are fresh copies, so the
  pair of texts stands for the returned array; \<open>None\<close> is the null pointer.
\<close>

fun skip_spaces :: "string \<Rightarrow> string" where
  "skip_spaces [] = []"
| "skip_spaces (c # s) = (if c = CHR '' '' then skip_spaces s else c # s)"

fun strchr :: "string \<Rightarrow> char \<Rightarrow> string option" where
  "strchr [] x = None"
| "strchr (c # s) x = (if c = x then Some (c # s) else strchr s x)"

definition splite_argument :: "string \<Rightarrow> (string \<times> string) option" where
  "splite_argument argument =
     (let argument_len = length argument
      in case strchr argument (CHR '' '') of
           None \<Rightarrow> None
         | Some space_loaction \<Rightarrow>
             let argument1_len = argument_len - length space_loaction;
                 space_loaction = skip_spaces space_loaction;
                 argument2_len = argument_len - (argument_len - length space_loaction)
             in Some (take argument1_len argument, take argument2_len space_loaction))"

lemma strchr_append: "x \<notin> set w \<Longrightarrow> strchr (w @ x # s) x = Some (x # s)"
  by (induction w) auto

lemma strchr_None: "strchr s x = None \<longleftrightarrow> x \<notin> set s"
  by (induction s) auto

lemma skip_spaces_dropWhile: "skip_spaces s = dropWhile (\<lambda>c. c = CHR '' '') s"
  by (induction s) auto

lemma splite_argument_None: "splite_argument a = None \<longleftrightarrow> CHR '' '' \<notin> set a"
  by (auto simp: splite_argument_def strchr_None Let_def split: option.splits)
    (metis option.distinct(1) strchr_None)

lemma splite_argument_append:
  "CHR '' '' \<notin> set w \<Longrightarrow>
   splite_argument (w @ CHR '' '' # s) = Some (w, dropWhile (\<lambda>c. c = CHR '' '') s)"
  using length_dropWhile_le [of "\<lambda>c. c = CHR '' ''" s]
  by (simp add: splite_argument_def strchr_append Let_def skip_spaces_dropWhile)

lemma splite_argument_words:
  assumes "CHR '' '' \<notin> set w" and "\<forall>v\<in>set ws. v \<noteq> [] \<and> CHR '' '' \<notin> set v" and "ws \<noteq> []"
  shows "splite_argument (join_words (w # ws)) = Some (w, join_words ws)"
proof -
  obtain v vs where ws: "ws = v # vs" using assms(3) by (cases ws) auto
  with assms(2) obtain c v' where "v = c # v'" "c \<noteq> CHR '' ''" by (cases v) auto
  then have "dropWhile (\<lambda>c. c = CHR '' '') (join_words ws) = join_words ws"
    using ws by (cases vs) auto
  with ws assms(1) show ?thesis by (simp add: splite_argument_append)
qed

subsection \<open>\<^verbatim>\<open>splite_file_name\<close>\<close>

text \<open>
  The two cursors \<open>start\<close> and \<open>end\<close> are offsets into the path; \<open>dir_name\<close> has one cell per
  character of the path, so recording a component needs a free cell, and the copy of a
  component starts one past \<open>start\<close>.
\<close>

definition sfn_record :: "string \<Rightarrow> nat \<Rightarrow> nat \<Rightarrow> string list \<Rightarrow> string list res" where
  "sfn_record path start end' dir_name =
     (if end' < start + 1 then Inl OutOfBounds
      else if length path \<le> length dir_name then Inl OutOfBounds
      else Inr (dir_name @ [take (end' - start - 1) (drop (start + 1) path)]))"

function sfn_loop :: "string \<Rightarrow> nat \<Rightarrow> nat \<Rightarrow> string list \<Rightarrow> (nat \<times> nat \<times> string list) res" where
  "sfn_loop path start end' dir_name =
     (if end' < length path then
        (if path ! end' = CHR ''/'' then
           (if end' = start then sfn_loop path start (end' + 1) dir_name
            else bindR (sfn_record path start end' dir_name)
                   (\<lambda>dir_name. sfn_loop path end' (end' + 1) dir_name))
         else sfn_loop path start (end' + 1) dir_name)
      else Inr (start, end', dir_name))"
  by pat_completeness auto
termination
  by (relation "measure (\<lambda>(path, start, end', dir_name). length path - end')") auto

declare sfn_loop.simps [simp del]

definition splite_file_name :: "string \<Rightarrow> string list res" where
  "splite_file_name path =
     bindR (sfn_loop path 0 0 []) (\<lambda>(start, end', dir_name).
     sfn_record path start end' dir_name)"

lemma split_slash_at:
  assumes "path ! e = CHR ''/''" and "e < length path" and "start < e"
    and "CHR ''/'' \<notin> set (take (e - start - 1) (drop (start + 1) path))"
  shows "split_slash (drop (start + 1) path) =
    take (e - start - 1) (drop (start + 1) path) # split_slash (drop (e + 1) path)"
proof -
  have "drop (start + 1) path = take (e - start - 1) (drop (start + 1) path) @
      path ! e # drop (e + 1) path"
    using assms(2,3) by (metis Cons_nth_drop_Suc Suc_eq_plus1 Suc_leI append_take_drop_id
        diff_diff_left drop_drop le_add_diff_inverse2)
  with assms(1,4) show ?thesis by (metis split_slash_append_slash)
qed

lemma sfn_loop_correct:
  assumes "start < e" and "e \<le> length path"
    and "CHR ''/'' \<notin> set (take (e - start - 1) (drop (start + 1) path))"
    and "acc @ split_slash (drop (start + 1) path) = split_slash (tl path)"
  shows "bindR (sfn_loop path start e acc) (\<lambda>(s, e, a). sfn_record path s e a)
    = Inr (split_slash (tl path))"
  using assms
proof (induction "length path - e" arbitrary: start e acc)
  case 0
  then have e: "e = length path" by simp
  then have "split_slash (drop (start + 1) path) = [drop (start + 1) path]"
    using "0.prems" by (intro split_slash_no_slash) simp
  moreover from this have "length acc < length path"
    using arg_cong [OF "0.prems"(4), of length] length_split_on_le [of "CHR ''/''" "tl path"]
      "0.prems"(1) e by simp
  ultimately show ?case
    using e "0.prems" by (simp add: sfn_loop.simps [of path start "length path"] sfn_record_def)
next
  case (Suc n)
  then have e: "e < length path" and n: "n = length path - (e + 1)" by simp_all
  show ?case
  proof (cases "path ! e = CHR ''/''")
    case True
    let ?c = "take (e - start - 1) (drop (start + 1) path)"
    note split = split_slash_at [OF True e Suc.prems(1,3)]
    have "length (acc @ [?c]) < length path"
      using arg_cong [OF Suc.prems(4), of length] length_split_on_le [of "CHR ''/''" "tl path"]
        e split length_greater_0_conv [of "split_slash (drop (e + 1) path)"]
      by (simp del: length_greater_0_conv)
    with True e Suc.prems(1) have step: "sfn_loop path start e acc =
        sfn_loop path e (e + 1) (acc @ [?c])"
      by (simp add: sfn_loop.simps [of path start e] sfn_record_def)
    have "bindR (sfn_loop path e (e + 1) (acc @ [?c])) (\<lambda>(s, e, a). sfn_record path s e a)
        = Inr (split_slash (tl path))"
      using n e split Suc.prems(4) by (intro Suc.hyps(1)) simp_all
    with step show ?thesis by simp
  next
    case False
    have "e + 1 - start - 1 = Suc (e - start - 1)" using Suc.prems(1) by simp
    then have "take (e + 1 - start - 1) (drop (start + 1) path) =
        take (e - start - 1) (drop (start + 1) path) @ [path ! e]"
      using Suc.prems(1) e by (simp only:) (subst take_Suc_conv_app_nth, simp_all)
    with False n e Suc.prems have
      "bindR (sfn_loop path start (e + 1) acc) (\<lambda>(s, e, a). sfn_record path s e a)
        = Inr (split_slash (tl path))"
      by (intro Suc.hyps(1)) simp_all
    with False e show ?thesis by (simp add: sfn_loop.simps [of path start e])
  qed
qed

lemma splite_file_name_split:
  assumes "path \<noteq> []"
  shows "splite_file_name path = Inr (split_slash (tl path))"
proof -
  have "sfn_loop path 0 0 [] = sfn_loop path 0 1 []"
    using assms by (simp add: sfn_loop.simps [of path 0 0])
  with sfn_loop_correct [of 0 1 path "[]"] assms show ?thesis
    by (simp add: splite_file_name_def Suc_le_eq drop_Suc)
qed

lemma splite_file_name_Nil: "splite_file_name [] = Inl OutOfBounds"
  by (simp add: splite_file_name_def sfn_loop.simps sfn_record_def)

subsection \<open>\<^verbatim>\<open>get_file_name\<close>\<close>

text \<open>
  The loop fills \<open>temp\<close>, an array of \<open>cap\<close> characters, from the end of the path; \<open>cap\<close> is 1024 in
  the source. A name that fills the array leaves no terminator for \<^verbatim>\<open>reverseString\<close> to find.
\<close>

function gfn_loop :: "nat \<Rightarrow> string \<Rightarrow> nat \<Rightarrow> string \<Rightarrow> string res" where
  "gfn_loop cap p i temp =
     (if i < length p then
        (if p ! (length p - 1 - i) = CHR ''/'' then Inr temp
         else if i < cap then gfn_loop cap p (i + 1) (temp @ [p ! (length p - 1 - i)])
         else Inl OutOfBounds)
      else Inr temp)"
  by pat_completeness auto
termination
  by (relation "measure (\<lambda>(cap, p, i, temp). length p - i)") auto

declare gfn_loop.simps [simp del]

definition get_file_name :: "string \<Rightarrow> string res" where
  "get_file_name local_path =
     bindR (gfn_loop 1024 local_path 0 []) (\<lambda>temp.
     if length temp < 1024 then Inr (reverseString temp) else Inl OutOfBounds)"

definition base_name :: "string \<Rightarrow> string" where
  "base_name p = last (split_slash p)"

lemma gfn_loop_eq:
  "i \<le> length p \<Longrightarrow> length temp = i \<Longrightarrow> i \<le> cap \<Longrightarrow>
   gfn_loop cap p i temp =
     (let w = takeWhile (\<lambda>c. c \<noteq> CHR ''/'') (drop i (rev p))
      in if i + length w \<le> cap then Inr (temp @ w) else Inl OutOfBounds)"
proof (induction "length p - i" arbitrary: i temp)
  case 0
  then show ?case by (simp add: gfn_loop.simps [of cap p i])
next
  case (Suc n)
  then have i: "i < length p" by simp
  then have rest: "drop i (rev p) = p ! (length p - 1 - i) # drop (i + 1) (rev p)"
    by (metis Cons_nth_drop_Suc Suc_eq_plus1 diff_diff_left length_rev plus_1_eq_Suc rev_nth)
  show ?case
  proof (cases "p ! (length p - 1 - i) = CHR ''/''")
    case True
    with i Suc.prems show ?thesis
      by (simp add: gfn_loop.simps [of cap p i] rest)
  next
    case False
    from Suc.hyps(2) have n: "n = length p - (i + 1)" by simp
    show ?thesis
    proof (cases "i < cap")
      case True
      with Suc.hyps(1) [OF n, of "temp @ [p ! (length p - 1 - i)]"] i False Suc.prems
      show ?thesis by (simp add: gfn_loop.simps [of cap p i] rest Let_def)
    next
      case no: False
      with Suc.prems have "i = cap" by simp
      with rest False i Suc.prems show ?thesis
        by (simp add: gfn_loop.simps [of cap p cap] Let_def)
    qed
  qed
qed

lemma get_file_name_base:
  "get_file_name p =
     (if length (base_name p) < 1024 then Inr (base_name p) else Inl OutOfBounds)"
  using gfn_loop_eq [of 0 p "[]" 1024]
  by (auto simp: get_file_name_def base_name_def last_split_on Let_def reverseString_rev)

subsection \<open>\<^verbatim>\<open>get_user_path\<close>\<close>

text \<open>The token information of \<^verbatim>\<open>header.h\<close>; \<open>PATH_CAP\<close> is the size of every path array.\<close>

record token_info =
  tk_user_id :: int
  tk_workpath :: string

abbreviation PATH_CAP :: nat where
  "PATH_CAP \<equiv> 1024"

definition get_user_path :: "string \<Rightarrow> token_info \<Rightarrow> string res" where
  "get_user_path argument token =
     (if length argument = 0 then strcpyR PATH_CAP (tk_workpath token)
      else
        bindR (splite_file_name (tk_workpath token)) (\<lambda>res.
        bindR (if argument ! 0 = CHR ''/''
               then strcpyR PATH_CAP (''/'' @ res ! 0 @ argument)
               else strcpyR PATH_CAP (tk_workpath token @ ''/'' @ argument)) (\<lambda>user_path.
        bindR (simplifyPath user_path) (\<lambda>temp.
        strcpyR PATH_CAP temp))))"

lemma length_render_norm:
  "length (render_path (foldl norm_comp cs ws))
   \<le> max 1 (length (concat (map (\<lambda>c. CHR ''/'' # c) cs)) + length (concat (map (\<lambda>c. CHR ''/'' # c) ws)))"
proof (induction ws arbitrary: cs)
  case Nil
  then show ?case by (simp add: render_path_def)
next
  case (Cons w ws)
  have "length (concat (map (\<lambda>c. CHR ''/'' # c) (norm_comp cs w)))
      \<le> length (concat (map (\<lambda>c. CHR ''/'' # c) cs)) + Suc (length w)"
    by (cases cs rule: rev_cases) (auto simp: norm_comp_def)
  with Cons [of "norm_comp cs w"] show ?case by simp
qed

lemma length_concat_split:
  "length (concat (map (\<lambda>c. CHR ''/'' # c) (split_slash s))) = Suc (length s)"
proof (induction s)
  case Nil
  then show ?case by simp
next
  case (Cons c s)
  then show ?case by (cases "split_slash s") auto
qed

lemma length_path_spec: "p \<noteq> [] \<Longrightarrow> length (path_spec p) \<le> length p"
  using length_render_norm [of "[]" "split_slash (tl p)"]
  by (cases p) (auto simp: path_spec_def normalise_def length_concat_split)

text \<open>
  The resolved path: absolute arguments are taken below the first component of the working
  directory, relative ones below the working directory itself.
\<close>

definition resolve :: "string \<Rightarrow> string \<Rightarrow> string" where
  "resolve argument wp =
     (if argument ! 0 = CHR ''/'' then ''/'' @ hd (split_slash (tl wp)) @ argument
      else wp @ ''/'' @ argument)"

lemma get_user_path_spec:
  assumes "argument \<noteq> []" and "cstr_ok argument" and "cstr_ok (tk_workpath token)"
    and "tk_workpath token \<noteq> []"
  shows "get_user_path argument token =
    (if length (resolve argument (tk_workpath token)) < PATH_CAP
     then Inr (path_spec (resolve argument (tk_workpath token))) else Inl OutOfBounds)"
proof -
  let ?wp = "tk_workpath token" and ?r = "resolve argument (tk_workpath token)"
  have hd_ok: "cstr_ok (hd (split_slash (tl ?wp)))"
    using assms(3,4) split_on_chars [of "hd (split_slash (tl ?wp))" "CHR ''/''" "tl ?wp"]
    by (auto simp: cstr_ok_def dest: list.set_sel(2))
  have ne: "?r \<noteq> []" by (simp add: resolve_def)
  have ok: "cstr_ok ?r" using assms hd_ok by (simp add: resolve_def)
  have nth0: "split_slash (tl ?wp) ! 0 = hd (split_slash (tl ?wp))"
    by (simp add: hd_conv_nth)
  have "get_user_path argument token =
      bindR (strcpyR PATH_CAP ?r) (\<lambda>u. bindR (simplifyPath u) (strcpyR PATH_CAP))"
    using assms by (simp add: get_user_path_def splite_file_name_split resolve_def nth0)
  also have "\<dots> = (if length ?r < PATH_CAP then Inr (path_spec ?r) else Inl OutOfBounds)"
    using simplifyPath_eq_spec [OF ne ok] length_path_spec [OF ne]
    by (simp add: strcpyR_def)
  finally show ?thesis .
qed

subsection \<open>\<^verbatim>\<open>get_sult\<close>\<close>

text \<open>The cursor runs back from the last character and has no lower bound of its own.\<close>

fun gs_end :: "string \<Rightarrow> nat \<Rightarrow> nat res" where
  "gs_end s 0 = Inl OutOfBounds"
| "gs_end s (Suc e) = (if s ! e \<noteq> CHR ''$'' then gs_end s e else Inr e)"

definition get_sult :: "string \<Rightarrow> string res" where
  "get_sult shadow_pwd =
     bindR (gs_end shadow_pwd (length shadow_pwd)) (\<lambda>e. Inr (take (e + 1) shadow_pwd))"

lemma gs_end_prefix: "k \<le> length u \<Longrightarrow> gs_end (u @ v) k = gs_end u k"
  by (induction k) (simp_all add: nth_append)

lemma gs_end_append:
  "CHR ''$'' \<notin> set t \<Longrightarrow> gs_end (s @ CHR ''$'' # t) (length s + 1 + length t) = Inr (length s)"
proof (induction t rule: rev_induct)
  case Nil
  then show ?case by (simp add: nth_append)
next
  case (snoc c t)
  let ?u = "s @ CHR ''$'' # t"
  have "gs_end (?u @ [c]) (length ?u) = gs_end ?u (length ?u)"
    by (rule gs_end_prefix) simp
  moreover have "(?u @ [c]) ! length ?u = c" by (rule nth_append_length)
  ultimately show ?case using snoc by auto
qed

lemma get_sult_last_dollar:
  "CHR ''$'' \<notin> set t \<Longrightarrow> get_sult (s @ CHR ''$'' # t) = Inr (s @ ''$'')"
  using gs_end_append [of t s] by (simp add: get_sult_def)

lemma get_sult_no_dollar: "CHR ''$'' \<notin> set s \<Longrightarrow> get_sult s = Inl OutOfBounds"
proof -
  assume no: "CHR ''$'' \<notin> set s"
  have "k \<le> length s \<Longrightarrow> gs_end s k = Inl OutOfBounds" for k
    using no by (induction k) (auto simp: Suc_le_eq in_set_conv_nth)
  then show ?thesis by (simp add: get_sult_def)
qed

subsection \<open>\<^verbatim>\<open>read_config\<close>\<close>

text \<open>
  The configuration file is an argument: \<open>None\<close> when it cannot be opened, else its text.
  \<open>fgets_line n\<close> is one call of \<^verbatim>\<open>fgets\<close> with a buffer of \<open>n + 1\<close> characters: it takes up to
  \<open>n\<close> characters and stops after a newline.
\<close>

fun fgets_line :: "nat \<Rightarrow> string \<Rightarrow> string \<times> string" where
  "fgets_line n [] = ([], [])"
| "fgets_line 0 s = ([], s)"
| "fgets_line (Suc n) (c # s) =
     (if c = CHR 0x0A then ([c], s)
      else (let (l, r) = fgets_line n s in (c # l, r)))"

lemma fgets_line_append: "fgets_line n s = (l, r) \<Longrightarrow> s = l @ r"
  by (induction n s arbitrary: l r rule: fgets_line.induct)
    (auto split: prod.splits if_splits)

lemma fgets_line_progress: "s \<noteq> [] \<Longrightarrow> 0 < n \<Longrightarrow> length (snd (fgets_line n s)) < length s"
proof (cases s)
  case (Cons c t)
  assume "0 < n"
  then obtain m where n: "n = Suc m" by (cases n) auto
  obtain l r where "fgets_line m t = (l, r)" by fastforce
  with n Cons fgets_line_append [of m t l r] show ?thesis by auto
qed simp

text \<open>\<^verbatim>\<open>strncmp(buf, request, n) == 0\<close> for \<open>n\<close> the length of \<open>request\<close> compares a prefix.\<close>

definition strncmp_eq :: "string \<Rightarrow> string \<Rightarrow> nat \<Rightarrow> bool" where
  "strncmp_eq s t n \<longleftrightarrow> take n s = take n t"

function rc_loop :: "string \<Rightarrow> string \<Rightarrow> string option" where
  "rc_loop request conf =
     (if conf = [] then None
      else
        let (buf, rest) = fgets_line 1023 conf
        in if strncmp_eq buf request (length request) then Some buf
           else rc_loop request rest)"
  by pat_completeness auto
termination
proof (relation "measure (\<lambda>(request, conf). length conf)", goal_cases)
  case 1
  show ?case by simp
next
  case (2 request conf x buf rest)
  then show ?case using fgets_line_progress [of conf 1023] by (cases "fgets_line 1023 conf") auto
qed

declare rc_loop.simps [simp del]

definition read_config :: "string option \<Rightarrow> string \<Rightarrow> string option res" where
  "read_config conf request =
     (case conf of
        None \<Rightarrow> Inl NullDeref
      | Some text \<Rightarrow>
          (case rc_loop request text of
             None \<Rightarrow> Inr None
           | Some buf \<Rightarrow>
               (case strchr buf (CHR ''='') of
                  None \<Rightarrow> Inl NullDeref
                | Some eq \<Rightarrow>
                    let need = tl eq
                    in if need = [] then Inl OutOfBounds
                       else Inr (Some (take (length need - 1) need)))))"

lemma fgets_line_newline:
  "CHR 0x0A \<notin> set l \<Longrightarrow> length l < n \<Longrightarrow>
   fgets_line n (l @ CHR 0x0A # r) = (l @ [CHR 0x0A], r)"
proof (induction l arbitrary: n)
  case Nil
  then show ?case by (cases n) auto
next
  case (Cons c l)
  then show ?case by (cases n) auto
qed

lemma fgets_line_last:
  "CHR 0x0A \<notin> set l \<Longrightarrow> length l \<le> n \<Longrightarrow> fgets_line n l = (l, [])"
proof (induction l arbitrary: n)
  case Nil
  then show ?case by simp
next
  case (Cons c l)
  then show ?case by (cases n) auto
qed

text \<open>A configuration file is a sequence of short lines, each ended by a newline.\<close>

definition conf_line :: "string \<Rightarrow> bool" where
  "conf_line l \<longleftrightarrow> CHR 0x0A \<notin> set l \<and> length l < 1023"

definition conf_text :: "string list \<Rightarrow> string" where
  "conf_text ls = concat (map (\<lambda>l. l @ [CHR 0x0A]) ls)"

lemma rc_loop_skip:
  assumes "\<forall>l\<in>set ls. conf_line l \<and> \<not> prefix request l" and "CHR 0x0A \<notin> set request"
  shows "rc_loop request (conf_text ls @ rest) = rc_loop request rest"
  using assms
proof (induction ls)
  case Nil
  then show ?case by (simp add: conf_text_def)
next
  case (Cons l ls)
  have no: "\<not> strncmp_eq (l @ [CHR 0x0A]) request (length request)"
  proof
    assume "strncmp_eq (l @ [CHR 0x0A]) request (length request)"
    then have "take (length request) (l @ [CHR 0x0A]) = request"
      unfolding strncmp_eq_def by (simp only: take_all order_refl)
    from take_is_prefix [of "length request" "l @ [CHR 0x0A]", unfolded this]
    have "prefix request (l @ [CHR 0x0A])" .
    with Cons.prems show False by (auto simp: prefix_snoc)
  qed
  have line: "fgets_line 1023 (l @ CHR 0x0A # t) = (l @ [CHR 0x0A], t)" for t
    using Cons.prems by (intro fgets_line_newline) (simp_all add: conf_line_def)
  have "rc_loop request (l @ CHR 0x0A # t) = rc_loop request t" for t
    by (subst rc_loop.simps) (simp add: line no)
  with Cons show ?case by (simp add: conf_text_def)
qed

lemma strncmp_eq_prefix: "strncmp_eq (request @ s) request (length request)"
  by (simp add: strncmp_eq_def)

lemma strchr_key: "CHR ''='' \<notin> set k \<Longrightarrow> strchr (k @ CHR ''='' # v) (CHR ''='') = Some (CHR ''='' # v)"
  by (rule strchr_append)

lemma read_config_found:
  assumes "\<forall>l\<in>set ls. conf_line l \<and> \<not> prefix key l" and "CHR 0x0A \<notin> set key"
    and "CHR ''='' \<notin> set key" and "conf_line (key @ CHR ''='' # v)"
  shows "read_config (Some (conf_text ls @ key @ CHR ''='' # v @ CHR 0x0A # rest)) key = Inr (Some v)"
proof -
  have "fgets_line 1023 ((key @ CHR ''='' # v) @ CHR 0x0A # rest)
      = ((key @ CHR ''='' # v) @ [CHR 0x0A], rest)"
    using assms(4) by (intro fgets_line_newline) (simp_all add: conf_line_def)
  then have "rc_loop key (key @ CHR ''='' # v @ CHR 0x0A # rest)
      = Some (key @ CHR ''='' # v @ [CHR 0x0A])"
    by (subst rc_loop.simps) (simp add: strncmp_eq_prefix)
  with rc_loop_skip [OF assms(1,2)] assms(3) show ?thesis
    by (simp add: read_config_def strchr_key)
qed

text \<open>Without the final newline the last character of the value is lost.\<close>

lemma read_config_no_newline:
  assumes "\<forall>l\<in>set ls. conf_line l \<and> \<not> prefix key l" and "CHR 0x0A \<notin> set key"
    and "CHR ''='' \<notin> set key" and "conf_line (key @ CHR ''='' # v)" and "v \<noteq> []"
  shows "read_config (Some (conf_text ls @ key @ CHR ''='' # v)) key = Inr (Some (butlast v))"
proof -
  have "fgets_line 1023 (key @ CHR ''='' # v) = (key @ CHR ''='' # v, [])"
    using assms(4) by (intro fgets_line_last) (simp_all add: conf_line_def)
  then have "rc_loop key (key @ CHR ''='' # v) = Some (key @ CHR ''='' # v)"
    by (subst rc_loop.simps) (simp add: strncmp_eq_prefix)
  with rc_loop_skip [OF assms(1,2)] assms(3,5) show ?thesis
    by (simp add: read_config_def strchr_key butlast_conv_take)
qed

subsection \<open>Properties\<close>

text \<open>Parsing a command line: for every line without line feeds that holds a command word and
  arguments, \<^verbatim>\<open>remove_space\<close> followed by \<^verbatim>\<open>splite_argument\<close> gives exactly the first word and the
  remaining words joined by single blanks, however many blanks surround them.\<close>

theorem command_line_parsed:
  assumes "CHR 0x0A \<notin> set s" and "words_of s = w # ws" and "ws \<noteq> []"
  shows "bindR (remove_space s) (\<lambda>t. Inr (splite_argument t)) = Inr (Some (w, join_words ws))"
proof -
  have "v \<noteq> [] \<and> CHR '' '' \<notin> set v" if "v \<in> set (w # ws)" for v
    using that words_of_parts [of v s] assms(2) by simp
  then show ?thesis
    using remove_space_words [OF assms(1)] assms splite_argument_words [of w ws] by simp
qed

lemma command_line_parsed_witness:
  "bindR (remove_space ''  puts   a.txt  /d '') (\<lambda>t. Inr (splite_argument t)) =
     Inr (Some (''puts'', ''a.txt /d''))"
  using command_line_parsed [of "''  puts   a.txt  /d ''" "''puts''" "[''a.txt'', ''/d'']"]
  by (simp add: words_of_def)

text \<open>A line with no word in it makes \<^verbatim>\<open>remove_space\<close> read before its buffer, and a line of one word has
  no argument part.\<close>

theorem command_line_short:
  "CHR 0x0A \<notin> set s \<Longrightarrow>
   (words_of s = [] \<longrightarrow> remove_space s = Inl OutOfBounds) \<and>
   (\<forall>w. words_of s = [w] \<longrightarrow> bindR (remove_space s) (\<lambda>t. Inr (splite_argument t)) = Inr None)"
  using remove_space_words [of s] words_of_parts [of _ s] splite_argument_None
  by (auto simp: splite_argument_None)

lemma command_line_short_witness:
  "remove_space ''   '' = Inl OutOfBounds \<and>
   bindR (remove_space '' pwd '') (\<lambda>t. Inr (splite_argument t)) = Inr None"
  using command_line_short [of "''   ''"] command_line_short [of "'' pwd ''"]
  by (simp add: words_of_def)

text \<open>C27: path resolution: for a token whose work path is absolute, \<^verbatim>\<open>get_user_path\<close> returns the canonical
  form of the argument below the user's root when the argument is absolute, below the work path
  when it is relative, as long as the joined text fits the 1024-character buffer, and the
  components \<^verbatim>\<open>splite_file_name\<close> then finds are those of that canonical path.\<close>

theorem user_path_resolved:
  assumes "argument \<noteq> []" and "cstr_ok argument" and "cstr_ok (tk_workpath token)"
    and "tk_workpath token \<noteq> []" and "length (resolve argument (tk_workpath token)) < PATH_CAP"
  shows "\<exists>cs. get_user_path argument token = Inr (render_path cs) \<and> list_all clean_comp cs \<and>
    cs = foldl norm_comp [] (split_slash (tl (resolve argument (tk_workpath token)))) \<and>
    (cs \<noteq> [] \<longrightarrow> splite_file_name (render_path cs) = Inr cs)"
proof -
  let ?cs = "normalise (split_slash (tl (resolve argument (tk_workpath token))))"
  have clean: "\<forall>c\<in>set ?cs. clean_comp c" by (rule normalise_clean)
  have "splite_file_name (render_path ?cs) = Inr ?cs" if "?cs \<noteq> []"
  proof -
    from that obtain c ds where cs: "?cs = c # ds" by (cases ?cs) auto
    then have "c \<noteq> []" "CHR ''/'' \<notin> set c" "\<forall>d\<in>set ds. clean_comp d"
      using clean by (auto simp: clean_comp_def)
    from split_render_tail [OF this] show ?thesis
      by (subst splite_file_name_split) (simp_all add: render_path_def cs)
  qed
  with get_user_path_spec [OF assms(1-4)] assms(5) clean show ?thesis
    by (auto simp: path_spec_def normalise_def list_all_iff)
qed

lemma user_path_resolved_witness:
  "get_user_path ''../b'' \<lparr>tk_user_id = 1, tk_workpath = ''/ann/a''\<rparr> = Inr ''/ann/b'' \<and>
   get_user_path ''/x'' \<lparr>tk_user_id = 1, tk_workpath = ''/ann/a''\<rparr> = Inr ''/ann/x''"
  using user_path_resolved [of "''../b''" "\<lparr>tk_user_id = 1, tk_workpath = ''/ann/a''\<rparr>"]
    user_path_resolved [of "''/x''" "\<lparr>tk_user_id = 1, tk_workpath = ''/ann/a''\<rparr>"]
  by (auto simp: resolve_def cstr_ok_def norm_comp_def render_path_def)

text \<open>An absolute argument without double dots stays in the user's tree: the first component of the
  resolved path is the first component of the work path.\<close>

theorem absolute_path_confined:
  assumes "cstr_ok argument" and "cstr_ok (tk_workpath token)" and "argument \<noteq> []" and "hd argument = CHR ''/''"
    and "tk_workpath token = CHR ''/'' # u @ v" and "clean_comp u" and "v = [] \<or> hd v = CHR ''/''"
    and "''..'' \<notin> set (split_slash argument)" and "length u + length argument + 1 < PATH_CAP"
  shows "\<exists>cs. get_user_path argument token = Inr (render_path (u # cs))"
proof -
  have u: "u \<noteq> []" "CHR ''/'' \<notin> set u" "u \<noteq> ''..''" "u \<noteq> ''.''" using assms(6) by (auto simp: clean_comp_def)
  have "hd (split_slash (u @ v)) = u"
  proof (cases v)
    case Nil
    then show ?thesis using u by (simp add: split_on_no_sep)
  next
    case (Cons c r)
    then show ?thesis using u assms(7) split_on_append_sep by fastforce
  qed
  moreover obtain a where arg: "argument = CHR ''/'' # a" using assms(3,4) by (cases argument) auto
  ultimately have res: "resolve argument (tk_workpath token) = CHR ''/'' # u @ CHR ''/'' # a"
    using assms(5) by (simp add: resolve_def)
  have keep: "\<exists>ds. foldl norm_comp (u # cs) ws = u # ds" if "''..'' \<notin> set ws" for cs ws
    using that by (induction ws arbitrary: cs) (auto simp: norm_comp_def)
  have "''..'' \<notin> set (split_slash a)" using assms(8) by (simp add: arg)
  then obtain ds where "foldl norm_comp [u] (split_slash a) = u # ds" using keep by blast
  then have "path_spec (resolve argument (tk_workpath token)) = render_path (u # ds)"
    using u by (simp add: res path_spec_def normalise_def split_on_append_sep norm_comp_def)
  moreover have "length (resolve argument (tk_workpath token)) < PATH_CAP"
    unfolding res using assms(9) by (simp add: arg)
  moreover have "tk_workpath token \<noteq> []" using assms(5) by simp
  ultimately show ?thesis using get_user_path_spec [OF assms(3,1,2)] by auto
qed

lemma absolute_path_confined_witness:
  "\<exists>cs. get_user_path ''/d/./e'' \<lparr>tk_user_id = 1, tk_workpath = ''/ann/a''\<rparr> = Inr (render_path (''ann'' # cs))"
  by (rule absolute_path_confined [of _ _ "''ann''" "''/a''"]) (simp_all add: cstr_ok_def clean_comp_def)

text \<open>C40: a double dot leaves the user's root: whatever the work path, of which only the first component
  counts, the path \<^verbatim>\<open>/../x\<close> resolves to \<^verbatim>\<open>/x\<close>, the root of another user's tree at the level of
  paths; the joined path has to fit its array of 1024.\<close>

theorem dotdot_escapes_root:
  assumes "wp \<noteq> []" and "cstr_ok wp" and "clean_comp x" and "cstr_ok x"
    and "length (hd (split_slash (tl wp))) + length x < 1019"
  shows "get_user_path (''/../'' @ x) \<lparr>tk_user_id = i, tk_workpath = wp\<rparr> = Inr (CHR ''/'' # x)"
proof -
  define u where "u = hd (split_slash (tl wp))"
  have u: "CHR ''/'' \<notin> set u" unfolding u_def by (rule split_on_parts [OF hd_in_set]) simp
  have x: "x \<noteq> []" "CHR ''/'' \<notin> set x" "x \<noteq> ''..''" "x \<noteq> ''.''"
    using assms(3) by (auto simp: clean_comp_def)
  have res: "resolve (''/../'' @ x) wp = CHR ''/'' # u @ CHR ''/'' # ''../'' @ x"
    by (simp add: resolve_def u_def)
  have "path_spec (resolve (''/../'' @ x) wp) = CHR ''/'' # x"
    unfolding res path_spec_def normalise_def
    using u x by (simp add: split_on_append_sep split_on_no_sep norm_comp_def render_path_def)
  moreover have "length (resolve (''/../'' @ x) wp) < PATH_CAP"
    unfolding res using assms(5) by (simp flip: u_def)
  ultimately show ?thesis
    using get_user_path_spec [of "''/../'' @ x" "\<lparr>tk_user_id = i, tk_workpath = wp\<rparr>"] assms
    by simp
qed

lemma dotdot_escapes_root_witness:
  "get_user_path ''/../bob'' \<lparr>tk_user_id = 1, tk_workpath = ''/ann/docs/old''\<rparr> = Inr ''/bob''"
  using dotdot_escapes_root [of "''/ann/docs/old''" "''bob''" 1] by (simp add: cstr_ok_def clean_comp_def)

text \<open>\<^verbatim>\<open>get_file_name\<close> returns the part of a path after its last slash, for every path whose last part
  fits its 1024-character array.\<close>

theorem file_name_of_path:
  "get_file_name (d @ CHR ''/'' # n) = (if CHR ''/'' \<in> set n then get_file_name n
     else if length n < 1024 then Inr n else Inl OutOfBounds)"
  using get_file_name_base [of "d @ CHR ''/'' # n"] get_file_name_base [of n]
  by (simp add: base_name_def split_on_append split_on_no_sep)

text \<open>Configuration lookup: for a file of lines, each with its line feed, \<^verbatim>\<open>read_config\<close> returns exactly
  the text after the equals sign of the first line that starts with the key.\<close>

theorem config_lookup:
  assumes "\<forall>l\<in>set ls. conf_line l \<and> \<not> prefix key l" and "CHR 0x0A \<notin> set key"
    and "CHR ''='' \<notin> set key" and "conf_line (key @ CHR ''='' # v)"
  shows "read_config (Some (conf_text ls @ key @ CHR ''='' # v @ CHR 0x0A # rest)) key = Inr (Some v)"
  by (rule read_config_found [OF assms])

lemma config_lookup_witness:
  "read_config (Some (''ip=1'' @ CHR 0x0A # ''port=80'' @ [CHR 0x0A])) ''port'' = Inr (Some ''80'')"
  using config_lookup [of "[''ip=1'']" "''port''" "''80''" "[]"] by (simp add: conf_text_def conf_line_def)

text \<open>A last line without line feed loses its last character: \<^verbatim>\<open>read_config\<close> always drops one character
  as if it were the line feed.\<close>

theorem config_last_line_truncated:
  assumes "\<forall>l\<in>set ls. conf_line l \<and> \<not> prefix key l" and "CHR 0x0A \<notin> set key"
    and "CHR ''='' \<notin> set key" and "conf_line (key @ CHR ''='' # v)" and "v \<noteq> []"
  shows "read_config (Some (conf_text ls @ key @ CHR ''='' # v)) key = Inr (Some (butlast v))"
  by (rule read_config_no_newline [OF assms])

lemma config_last_line_truncated_witness:
  "read_config (Some (''ip=1'' @ CHR 0x0A # ''port=8080'')) ''port'' = Inr (Some ''808'')"
  using config_last_line_truncated [of "[''ip=1'']" "''port''" "''8080''"]
  by (simp add: conf_text_def conf_line_def)

end
