(* ===== verification/Lifecycle.thy ===== *)
theory Lifecycle
  imports ServerProgress DbPool ToolText
begin

text \<open>
  The life of the work process around \<open>ServerLoop\<close>: its start (\<^verbatim>\<open>server/main.c\<close>, \<^verbatim>\<open>init_server\<close> of
  \<^verbatim>\<open>tcpConnect.c\<close>, the settings \<^verbatim>\<open>database.c\<close> reads), the turn of the loop over a batch of ready
  descriptors, and its end; and the connection a client opens (\<^verbatim>\<open>client/tcpInit.c\<close>). The answers of
  the system calls are arguments.
\<close>

subsection \<open>Start\<close>

text \<open>
  \<open>sock\<close>, \<open>bound\<close> and \<open>listening\<close> are what \<^verbatim>\<open>socket\<close>, \<^verbatim>\<open>bind\<close> and \<^verbatim>\<open>listen\<close> return; the result comes with
  the descriptors the process then has open. \<^verbatim>\<open>inet_addr\<close> and \<^verbatim>\<open>atoi\<close> read their argument unchecked.
\<close>

definition init_server :: "string option \<Rightarrow> string option \<Rightarrow> int \<Rightarrow> int \<Rightarrow> int \<Rightarrow> int list \<Rightarrow> (int \<times> int list) res" where
  "init_server ip port sock bound listening opened =
     (if sock \<le> 0 then Inr (sock, if sock = 0 then 0 # opened else opened)
      else if ip = None \<or> port = None then Inl NullDeref
      else if bound < 0 then Inr (bound, opened)
      else if listening < 0 then Inr (-1, opened)
      else Inr (sock, sock # opened))"

record boot =
  bt_sock :: int
  bt_bound :: int
  bt_listening :: int
  bt_epoll :: int
  bt_pipe :: "(int \<times> int) option"
  bt_handles :: "(int \<times> bool) list"

text \<open>The settings of \<^verbatim>\<open>init_database_pool\<close>; \<^verbatim>\<open>atoi\<close> of a missing port reads a null pointer.\<close>

definition database_config :: "string option \<Rightarrow> (string option list \<times> string) res" where
  "database_config conf =
     bindR (read_config conf ''mysql_host'') (\<lambda>host.
     bindR (read_config conf ''mysql_name'') (\<lambda>user.
     bindR (read_config conf ''mysql_password'') (\<lambda>password.
     bindR (read_config conf ''mysql_database'') (\<lambda>db.
     bindR (read_config conf ''mysql_port'') (\<lambda>port.
     case port of
       None \<Rightarrow> Inl NullDeref
     | Some port \<Rightarrow>
         bindR (read_config conf ''mysql_charset'') (\<lambda>character_set.
         Inr ([host, user, password, db, character_set], port)))))))"

record work_condition =
  wc_listen :: int
  wc_epoll :: int
  wc_pipe :: "int \<times> int"
  wc_pool :: thread_pool
  wc_db :: db_pool
  wc_open :: "int list"

definition init_work_condition :: "string option \<Rightarrow> string option \<Rightarrow> string option \<Rightarrow> boot \<Rightarrow> int list \<Rightarrow>
    work_condition res" where
  "init_work_condition conf addr port B opened =
     bindR (init_server addr port (bt_sock B) (bt_bound B) (bt_listening B) opened) (\<lambda>(listen_fd, opened).
     if listen_fd = -1 then Inl Exited
     else if bt_epoll B = -1 then Inl Exited
     else case bt_pipe B of
       None \<Rightarrow> Inl Exited
     | Some (pipe_out, pipe_in) \<Rightarrow>
         let thread_pool = init_thread_pool 4 pipe_in
         in bindR (database_config conf) (\<lambda>_.
            bindR (init_database_pool (bt_handles B)) (\<lambda>db.
            Inr \<lparr>wc_listen = listen_fd, wc_epoll = bt_epoll B, wc_pipe = (pipe_out, pipe_in),
                 wc_pool = thread_pool, wc_db = db, wc_open = pipe_in # pipe_out # bt_epoll B # opened\<rparr>)))"

text \<open>
  The descriptors the loop tells apart: the listening socket, the pipe from the parent, the pipe
  from the workers. Epoll watches all three before the first event.
\<close>

record control =
  ct_listen :: int
  ct_quit :: int
  ct_thread :: int

definition start_work_process :: "string option \<Rightarrow> boot \<Rightarrow> int \<Rightarrow> int list \<Rightarrow>
    (control \<times> int list \<times> server \<times> db_pool) res" where
  "start_work_process conf B pipe_fd0 opened =
     bindR (read_config conf ''server_ip'') (\<lambda>addr.
     bindR (read_config conf ''server_port'') (\<lambda>port.
     bindR (init_work_condition conf addr port B opened) (\<lambda>wc.
     bindR (add_node (wc_open wc) [] (wc_listen wc)) (\<lambda>ep.
     bindR (add_node (wc_open wc) ep pipe_fd0) (\<lambda>ep.
     bindR (add_node (wc_open wc) ep (fst (wc_pipe wc))) (\<lambda>ep.
     Inr (\<lparr>ct_listen = wc_listen wc, ct_quit = pipe_fd0, ct_thread = fst (wc_pipe wc)\<rparr>, ep,
       start_server 4 (snd (wc_pipe wc)), wc_db wc)))))))"

subsection \<open>A turn of the loop\<close>

text \<open>
  The branch taken for one descriptor of the batch \<^verbatim>\<open>epoll_wait\<close> returned; \<open>new_fd\<close> is what \<^verbatim>\<open>accept\<close>
  would return, \<open>received\<close> what \<^verbatim>\<open>recv\<close> would.
\<close>

definition loop_event :: "control \<Rightarrow> int \<Rightarrow> trans_file option \<Rightarrow> int \<Rightarrow> event" where
  "loop_event ctl new_fd received curr_fd =
     (if curr_fd = ct_listen ctl then Accept new_fd
      else if curr_fd = ct_quit ctl then Quit
      else if curr_fd = ct_thread ctl then Repost
      else Readable curr_fd received)"

fun by_worker :: "event \<Rightarrow> bool" where
  "by_worker (Take i) = True"
| "by_worker (Finish i closed) = True"
| "by_worker _ = False"

text \<open>
  The states the process can be in after the loop has handled the descriptors \<open>done\<close> of a batch, the
  workers going on in between.
\<close>

inductive batch :: "control \<Rightarrow> int list \<Rightarrow> server \<Rightarrow> server \<Rightarrow> bool" for ctl :: control where
  begins: "batch ctl [] s s"
| worker: "batch ctl fds s s1 \<Longrightarrow> by_worker e \<Longrightarrow> proper e s1 \<Longrightarrow> sv_step e s1 = Inr s2 \<Longrightarrow> batch ctl fds s s2"
| handles: "batch ctl fds s s1 \<Longrightarrow> \<not> sv_quit s1 \<Longrightarrow> (fd = ct_listen ctl \<longrightarrow> 0 \<le> new_fd \<and> new_fd \<notin> set (sv_open s1)) \<Longrightarrow>
    sv_step (loop_event ctl new_fd received fd) s1 = Inr s2 \<Longrightarrow> batch ctl (fds @ [fd]) s s2"

text \<open>What epoll reports: control descriptors, the workers' pipe when it holds something, and clients watched.\<close>

definition reported :: "control \<Rightarrow> server \<Rightarrow> int list \<Rightarrow> bool" where
  "reported ctl s fds \<longleftrightarrow> distinct fds \<and> (\<forall>fd\<in>set fds.
     if fd = ct_listen ctl \<or> fd = ct_quit ctl then True
     else if fd = ct_thread ctl then sv_pipe s \<noteq> []
     else fd \<in> set (sv_epoll s))"

text \<open>A worker may close the descriptor it serves, but that one is not watched.\<close>

lemma worker_keeps_epoll:
  assumes "by_worker e" and "sv_step e s = Inr s'" and inv: "loop_inv s"
  shows "sv_epoll s' = sv_epoll s \<and> sv_quit s' = sv_quit s \<and> (sv_pipe s \<noteq> [] \<longrightarrow> sv_pipe s' \<noteq> [])"
proof (cases e)
  case (Take i)
  with assms(2) have "worker_take i s = Inr s'" by simp
  then show ?thesis by (rule worker_take_cases) simp
next
  case (Finish i closed)
  with assms(2) busy_not_watched [OF inv, of i] show ?thesis
    by (auto simp: worker_finish_def Let_def split: if_splits worker.splits)
qed (use assms(1) in simp_all)

text \<open>Handling one descriptor takes no other out of epoll, and only the workers' pipe out of itself.\<close>

lemma handled_keeps_epoll:
  assumes "sv_step (loop_event ctl new_fd received fd) s = Inr s'" and "x \<noteq> fd" and "x \<in> set (sv_epoll s)"
  shows "x \<in> set (sv_epoll s')"
  using assms
  by (auto simp: loop_event_def main_accept_def main_repost_def main_client_def main_quit_def add_node_def
      remove_node_def bindR_eq_Inr Let_def split: if_splits option.splits list.splits)

lemma handled_keeps_pipe:
  assumes "sv_step (loop_event ctl new_fd received fd) s = Inr s'" and "fd \<noteq> ct_thread ctl"
  shows "sv_pipe s' = sv_pipe s"
  using assms
  by (auto simp: loop_event_def main_accept_def main_client_def main_quit_def add_node_def
      remove_node_def bindR_eq_Inr Let_def split: if_splits option.splits)

lemma batch_keeps:
  assumes "batch ctl fds s s1" and "reach num s" and "reported ctl s (fds @ rest)"
  shows "reach num s1 \<and> (\<forall>x. x \<notin> set fds \<and> x \<in> set (sv_epoll s) \<longrightarrow> x \<in> set (sv_epoll s1)) \<and>
    (ct_thread ctl \<notin> set fds \<and> sv_pipe s \<noteq> [] \<longrightarrow> sv_pipe s1 \<noteq> [])"
  using assms
proof (induction arbitrary: rest rule: batch.induct)
  case (worker fds s s1 e s2)
  note IH = worker.IH [OF worker.prems]
  with worker_keeps_epoll [OF worker(2,4) reach_inv] have "sv_epoll s2 = sv_epoll s1"
    "sv_pipe s1 \<noteq> [] \<longrightarrow> sv_pipe s2 \<noteq> []" by auto
  moreover have "reach num s2" using IH worker(3,4) by (blast intro: reach.step)
  ultimately show ?case using IH by simp
next
  case (handles fds s s1 fd new_fd received s2)
  have rep: "reported ctl s (fds @ fd # rest)" using handles.prems(2) by simp
  note IH = handles.IH [OF handles.prems(1) rep]
  have "proper (loop_event ctl new_fd received fd) s1"
    using handles(2,3) rep IH by (auto simp: loop_event_def reported_def)
  with IH handles(4) have "reach num s2" by (blast intro: reach.step)
  with IH handled_keeps_epoll [OF handles(4)] handled_keeps_pipe [OF handles(4)] show ?case by auto
qed simp

subsection \<open>End\<close>

text \<open>
  The parent's handler writes the quit message. The work process reads it, has the workers leave, joins
  them and closes the database; its exit code is 0, or -1 from the alarm that ends it when it waits
  longer than five seconds.
\<close>

definition handler_int :: "int \<Rightarrow> int list \<Rightarrow> int list res" where
  "handler_int ret pipe = (if ret = -1 then Inl Exited else Inr (pipe @ [1]))"

definition work_process_quit :: "server \<Rightarrow> db_pool \<Rightarrow> int \<times> int list" where
  "work_process_quit s db =
     (if main_join s = Inl Exited
      then case destory_database_pool db of Inr closed \<Rightarrow> (0, closed) | Inl _ \<Rightarrow> (-1, [])
      else (-1, []))"

text \<open>\<^verbatim>\<open>client/tcpInit.c\<close>: the result of \<^verbatim>\<open>connect\<close> is not looked at.\<close>

definition initTcpSocket :: "int \<Rightarrow> int \<Rightarrow> int \<times> int" where
  "initTcpSocket sock connected = (0, sock)"

lemma unconnected_client_unnoticed: "fst (initTcpSocket sock (-1)) = fst (initTcpSocket sock 0)"
  by (simp add: initTcpSocket_def)

subsection \<open>Properties\<close>

text \<open>C12: no event of a batch is stale: in a run as in C1, while the loop works through the descriptors one call of
  \<^verbatim>\<open>epoll_wait\<close> reported, closing and re-adding clients and with the workers running in between, each
  descriptor still is what it was reported as when its turn comes, so that a client is still
  watched and the read of the workers' pipe does not block.\<close>

theorem ready_still_allowed:
  assumes "reach num s" and "reported ctl s (done @ fd # rest)" and "batch ctl done s s1" and "\<not> sv_quit s1"
    and "fd = ct_listen ctl \<longrightarrow> 0 \<le> new_fd \<and> new_fd \<notin> set (sv_open s1)"
  shows "reach num s1 \<and> allowed (loop_event ctl new_fd received fd) s1"
proof -
  have "fd \<notin> set done" using assms(2) by (auto simp: reported_def)
  then show ?thesis
    using assms(2,4,5) batch_keeps [OF assms(3,1,2)] by (auto simp: loop_event_def reported_def)
qed

lemma ready_still_allowed_witness:
  "\<exists>s s1. sv_run [Accept 7] (start_server 4 5) = Inr s \<and>
     batch \<lparr>ct_listen = 3, ct_quit = 4, ct_thread = 6\<rparr> [3] s s1 \<and> allowed (Readable 7 None) s1"
proof -
  let ?ctl = "\<lparr>ct_listen = 3, ct_quit = 4, ct_thread = 6\<rparr>"
  define s where "s = (start_server 4 5)\<lparr>sv_epoll := [7], sv_open := [7]\<rparr>"
  define s1 where "s1 = (start_server 4 5)\<lparr>sv_epoll := [8, 7], sv_open := [8, 7]\<rparr>"
  have run: "sv_run [Accept 7] (start_server 4 5) = Inr s" by (simp add: run_eval s_def)
  have "sv_step (loop_event ?ctl 8 None 3) s = Inr s1"
    by (simp add: loop_event_def run_eval s_def s1_def)
  then have b: "batch ?ctl [3] s s1"
    using batch.handles [OF batch.begins, of s 3 ?ctl 8 None s1] by (simp add: s_def start_server_def)
  have "reported ?ctl s ([3] @ 7 # [])" by (simp add: reported_def s_def)
  from ready_still_allowed [OF loop.run_inv [OF reach.start run] this b, of 0 None] run b show ?thesis
    by (auto simp: s1_def start_server_def loop_event_def)
qed

text \<open>Start: when the process gets as far as its loop, every system call before it has succeeded, the
  listening socket and both pipes are watched and open, the four workers share an empty queue for
  twelve requests, and the state is a start of the step relation.\<close>

theorem startup_correct:
  assumes "start_work_process conf B pipe_fd0 opened = Inr (ctl, ep, s, db)"
  shows "reach 4 s \<and> distinct ep \<and> set ep = {ct_listen ctl, ct_quit ctl, ct_thread ctl} \<and>
    ct_quit ctl = pipe_fd0 \<and> (0 < ct_listen ctl \<longrightarrow> 0 \<le> bt_bound B \<and> 0 \<le> bt_listening B) \<and>
    q_max (tp_q (sv_pool s)) = 12 \<and> dp_available db = int MAX_POOL_SIZE"
proof -
  from assms obtain wc where wc: "\<exists>a p. init_work_condition conf a p B opened = Inr wc"
    and ep: "ep = [fst (wc_pipe wc), pipe_fd0, wc_listen wc]" "distinct ep"
    and ctl: "ctl = \<lparr>ct_listen = wc_listen wc, ct_quit = pipe_fd0, ct_thread = fst (wc_pipe wc)\<rparr>"
    and s: "s = start_server 4 (snd (wc_pipe wc))" "db = wc_db wc"
    by (auto simp: start_work_process_def bindR_eq_Inr add_node_def split: if_splits)
  have "0 < wc_listen wc \<longrightarrow> 0 \<le> bt_bound B \<and> 0 \<le> bt_listening B" "dp_available (wc_db wc) = int MAX_POOL_SIZE"
    using wc by (auto simp: init_work_condition_def init_server_def init_database_pool_def bindR_eq_Inr
        split: if_splits option.splits)
  moreover have "reach 4 s" unfolding s by (rule reach.start)
  moreover have "q_max (tp_q (sv_pool s)) = 12"
    by (simp add: s start_server_def init_thread_pool_def empty_queue_def)
  ultimately show ?thesis using ep ctl s(2) by auto
qed

end
