(* ===== verification/SqlText.thy ===== *)
theory SqlText
  imports Prelude
begin

text \<open>
  The text side of \<^verbatim>\<open>server/database.c\<close>: the decimal numerals the server prints into statements
  and reads out of result rows, the conversions of \<^verbatim>\<open>vsnprintf\<close> its format strings use, and
  the limit of 1023 characters on a statement.
\<close>

subsection \<open>Decimal numerals\<close>

definition digit_char :: "nat \<Rightarrow> char" where
  "digit_char d = char_of (48 + d)"

definition is_digit :: "char \<Rightarrow> bool" where
  "is_digit c \<longleftrightarrow> 48 \<le> (of_char c :: nat) \<and> (of_char c :: nat) \<le> 57"

definition digit_val :: "char \<Rightarrow> nat" where
  "digit_val c = of_char c - 48"

fun nat_str :: "nat \<Rightarrow> string" where
  "nat_str n = (if n < 10 then [digit_char n] else nat_str (n div 10) @ [digit_char (n mod 10)])"

declare nat_str.simps [simp del]

text \<open>\<^verbatim>\<open>%lu\<close>, \<^verbatim>\<open>%ld\<close> and \<^verbatim>\<open>%d\<close> of an integer.\<close>

definition num_str :: "int \<Rightarrow> string" where
  "num_str n = (if n < 0 then CHR ''-'' # nat_str (nat (- n)) else nat_str (nat n))"

text \<open>
  \<^verbatim>\<open>strtoul\<close> in base 10 of a text without leading blanks or sign, which is what the server
  stores: the value of the leading digits, the largest \<^verbatim>\<open>unsigned long\<close> when they exceed it.
  \<^verbatim>\<open>atoi\<close> is the same scan into an \<^verbatim>\<open>int\<close>.
\<close>

definition digits_val :: "string \<Rightarrow> nat" where
  "digits_val s = foldl (\<lambda>n c. 10 * n + digit_val c) 0 (takeWhile is_digit s)"

definition strtoul :: "string \<Rightarrow> int" where
  "strtoul s = min (int (digits_val s)) (2 ^ 64 - 1)"

definition atoi :: "string \<Rightarrow> int" where
  "atoi s = c_int (int (digits_val s))"

lemma of_char_digit [simp]: "d < 10 \<Longrightarrow> of_char (digit_char d) = (48 + d :: nat)"
  by (simp add: digit_char_def)

lemma is_digit_char [simp]: "d < 10 \<Longrightarrow> is_digit (digit_char d)"
  by (simp add: is_digit_def)

lemma digit_val_char [simp]: "d < 10 \<Longrightarrow> digit_val (digit_char d) = d"
  by (simp add: digit_val_def)

lemma nat_str_digits: "c \<in> set (nat_str n) \<Longrightarrow> is_digit c"
  by (induction n rule: nat_str.induct) (subst (asm) (2) nat_str.simps, auto split: if_splits)

lemma nat_str_ne [simp]: "nat_str n \<noteq> []"
  by (subst nat_str.simps) simp

lemma foldl_nat_str: "foldl (\<lambda>n c. 10 * n + digit_val c) 0 (nat_str n) = n"
proof (induction n rule: nat_str.induct)
  case (1 n)
  then show ?case by (subst nat_str.simps) auto
qed

lemma takeWhile_digits:
  "s = [] \<or> \<not> is_digit (hd s) \<Longrightarrow> takeWhile is_digit (nat_str n @ s) = nat_str n"
  by (cases s) (auto simp: takeWhile_append nat_str_digits)

lemma digits_val_nat_str: "s = [] \<or> \<not> is_digit (hd s) \<Longrightarrow> digits_val (nat_str n @ s) = n"
  by (simp add: digits_val_def takeWhile_digits foldl_nat_str)

lemma strtoul_num_str: "0 \<le> n \<Longrightarrow> n < 2 ^ 64 \<Longrightarrow> strtoul (num_str n) = n"
  using digits_val_nat_str [of "[]" "nat n"] by (simp add: strtoul_def num_str_def)

lemma atoi_num_str: "0 \<le> n \<Longrightarrow> n < 2 ^ 31 \<Longrightarrow> atoi (num_str n) = n"
  using digits_val_nat_str [of "[]" "nat n"] by (simp add: atoi_def num_str_def c_int_id)

lemma length_nat_str: "n < 10 ^ k \<Longrightarrow> 0 < k \<Longrightarrow> length (nat_str n) \<le> k"
proof (induction n arbitrary: k rule: nat_str.induct)
  case (1 n)
  show ?case
  proof (cases "n < 10")
    case True
    with 1 show ?thesis by (subst nat_str.simps) simp
  next
    case False
    with 1(2,3) obtain j where k: "k = Suc j" "0 < j"
      by (cases k; cases "k = 1") auto
    with 1(2) have "n div 10 < 10 ^ j" by (simp add: less_mult_imp_div_less mult.commute)
    with 1(1) [OF False _ k(2)] have "length (nat_str (n div 10)) \<le> j" by simp
    with False k show ?thesis by (subst nat_str.simps) simp
  qed
qed

lemma length_num_str: "0 \<le> n \<Longrightarrow> n < 10 ^ k \<Longrightarrow> 0 < k \<Longrightarrow> length (num_str n) \<le> k"
proof -
  assume "0 \<le> n" "n < 10 ^ k" "0 < k"
  moreover from this have "nat n < 10 ^ k" by (simp add: nat_less_iff)
  ultimately show ?thesis by (simp add: num_str_def length_nat_str)
qed

subsection \<open>Format strings\<close>

datatype sql_arg = Str string | Num int

text \<open>
  \<^verbatim>\<open>vsnprintf\<close> for the conversions in the server's statements: \<^verbatim>\<open>%s\<close>, \<^verbatim>\<open>%lu\<close> and \<^verbatim>\<open>%ld\<close>.
\<close>

fun sql_fmt :: "string \<Rightarrow> sql_arg list \<Rightarrow> string" where
  "sql_fmt [] args = []"
| "sql_fmt (c # f) args =
     (if c = CHR ''%'' then
        (case args of
           [] \<Rightarrow> []
         | Str s # args \<Rightarrow> s @ sql_fmt (drop 1 f) args
         | Num n # args \<Rightarrow> num_str n @ sql_fmt (drop 2 f) args)
      else c # sql_fmt f args)"

text \<open>The array of \<^verbatim>\<open>query\<close> holds 1024 characters, the last of them the terminator.\<close>

definition STMT_CAP :: nat where
  "STMT_CAP = 1024"

definition stmt_buffer :: "string \<Rightarrow> sql_arg list \<Rightarrow> string" where
  "stmt_buffer format args = take (STMT_CAP - 1) (sql_fmt format args)"

text \<open>
  Reading arguments back out of a statement text: a number ends at the first character that is
  no digit, a string at the closing quote.
\<close>

definition quote_char :: char where
  "quote_char = CHR 39"

fun sql_unfmt :: "string \<Rightarrow> string \<Rightarrow> sql_arg list option" where
  "sql_unfmt [] t = (if t = [] then Some [] else None)"
| "sql_unfmt (c # f) t =
     (if c = CHR ''%'' then
        (case f of
           [] \<Rightarrow> None
         | k # f' \<Rightarrow>
             if k = CHR ''s'' then
               map_option ((#) (Str (takeWhile (\<lambda>x. x \<noteq> quote_char) t)))
                 (sql_unfmt f' (dropWhile (\<lambda>x. x \<noteq> quote_char) t))
             else
               map_option ((#) (Num (int (digits_val t))))
                 (sql_unfmt (drop 1 f') (dropWhile is_digit t)))
      else (case t of [] \<Rightarrow> None | x # t \<Rightarrow> if x = c then sql_unfmt f t else None))"

text \<open>
  A format is fit for reading back when each \<^verbatim>\<open>%s\<close> stands before a quote and each \<^verbatim>\<open>%lu\<close> before a
  character that is no digit; arguments fit when strings have no quote and numbers no sign.
\<close>

fun fmt_fits :: "string \<Rightarrow> sql_arg list \<Rightarrow> bool" where
  "fmt_fits [] args \<longleftrightarrow> args = []"
| "fmt_fits (c # f) args \<longleftrightarrow>
     (if c = CHR ''%'' then
        (case f of
           [] \<Rightarrow> False
         | k # f' \<Rightarrow>
             if k = CHR ''s'' then
               (case args of Str s # args \<Rightarrow> quote_char \<notin> set s \<and> f' \<noteq> [] \<and> hd f' = quote_char \<and> fmt_fits f' args
                | _ \<Rightarrow> False)
             else
               (case args of Num n # args \<Rightarrow> 0 \<le> n \<and>
                   (drop 1 f' = [] \<or> \<not> is_digit (hd (drop 1 f')) \<and> hd (drop 1 f') \<noteq> CHR ''%'') \<and>
                   fmt_fits (drop 1 f') args
                | _ \<Rightarrow> False))
      else fmt_fits f args)"

lemma sql_fmt_hd:
  "f = [] \<or> hd f \<noteq> CHR ''%'' \<Longrightarrow> sql_fmt f args = [] \<longleftrightarrow> f = []"
  "f \<noteq> [] \<Longrightarrow> hd f \<noteq> CHR ''%'' \<Longrightarrow> hd (sql_fmt f args) = hd f"
  by (cases f; simp)+

lemma takeWhile_quote:
  "quote_char \<notin> set s \<Longrightarrow> takeWhile (\<lambda>x. x \<noteq> quote_char) (s @ quote_char # r) = s"
  "quote_char \<notin> set s \<Longrightarrow> dropWhile (\<lambda>x. x \<noteq> quote_char) (s @ quote_char # r) = quote_char # r"
  by (induction s) auto

lemma dropWhile_digits:
  "s = [] \<or> \<not> is_digit (hd s) \<Longrightarrow> dropWhile is_digit (nat_str n @ s) = s"
  by (cases s) (auto simp: dropWhile_append nat_str_digits)

lemma sql_unfmt_fmt: "fmt_fits f args \<Longrightarrow> sql_unfmt f (sql_fmt f args) = Some args"
proof (induction f args rule: fmt_fits.induct)
  case (2 c f args)
  show ?case
  proof (cases "c = CHR ''%''")
    case False
    with 2 show ?thesis by simp
  next
    case True
    with "2.prems" obtain k f' where f: "f = k # f'" by (cases f) auto
    show ?thesis
    proof (cases "k = CHR ''s''")
      case ks: True
      with "2.prems" True f obtain s as g where args: "args = Str s # as" and s: "quote_char \<notin> set s"
        and f': "f' = quote_char # g" and fits: "fmt_fits f' as"
        by (cases f') (auto split: list.splits sql_arg.splits)
      have "sql_unfmt f' (sql_fmt f' as) = Some as"
        using "2.IH"(1) True f ks args fits by simp
      moreover have "sql_fmt f' as = quote_char # sql_fmt g as" by (simp add: f' quote_char_def)
      ultimately show ?thesis
        using True f ks args s by (simp add: takeWhile_quote)
    next
      case ks: False
      with "2.prems" True f obtain n as where args: "args = Num n # as" and n: "0 \<le> n"
        and nd: "drop 1 f' = [] \<or> \<not> is_digit (hd (drop 1 f')) \<and> hd (drop 1 f') \<noteq> CHR ''%''"
        and fits: "fmt_fits (drop 1 f') as"
        by (auto split: list.splits sql_arg.splits)
      let ?r = "sql_fmt (drop 1 f') as"
      have "sql_unfmt (drop 1 f') ?r = Some as"
        using "2.IH"(2) True f ks args fits by simp
      moreover have "?r = [] \<or> \<not> is_digit (hd ?r)"
        using nd sql_fmt_hd [of "drop 1 f'" as] by metis
      ultimately show ?thesis
        using True f ks args n
        by (simp add: num_str_def digits_val_nat_str dropWhile_digits numeral_2_eq_2)
    qed
  qed
qed simp

end
