(* ===== verification/DbHelpers.thy ===== *)
theory DbHelpers
  imports SqlText "HOL-Library.Word"
begin

text \<open>
  The parts of \<^verbatim>\<open>server/database.c\<close> and \<^verbatim>\<open>server/convert_entity.c\<close> that stand ready for prepared
  statements and time columns and that no handler calls yet: the time conversions with the conversion
  \<^verbatim>\<open>%d\<close> of \<^verbatim>\<open>sscanf\<close>, and \<^verbatim>\<open>query_security\<close> over the functions of the MySQL client it calls.
\<close>

subsection \<open>Times\<close>

record mysql_time =
  mt_year :: "32 word"
  mt_month :: "32 word"
  mt_day :: "32 word"
  mt_hour :: "32 word"
  mt_minute :: "32 word"
  mt_second :: "32 word"

definition blank :: "char \<Rightarrow> bool" where
  "blank c \<longleftrightarrow> c = CHR '' '' \<or> (9 \<le> (of_char c :: nat) \<and> (of_char c :: nat) \<le> 13)"

text \<open>\<^verbatim>\<open>%d\<close>: blanks, a sign, digits; the value as \<^verbatim>\<open>strtol\<close> clamps it, stored into an \<^verbatim>\<open>int\<close>.\<close>

definition split_sign :: "string \<Rightarrow> int \<times> string" where
  "split_sign s =
     (case s of
        [] \<Rightarrow> (1, [])
      | c # r \<Rightarrow> if c = CHR ''-'' then (-1, r) else if c = CHR ''+'' then (1, r) else (1, s))"

definition scan_int :: "string \<Rightarrow> (int \<times> string) option" where
  "scan_int s =
     (let (sign, t) = split_sign (dropWhile blank s)
      in if takeWhile is_digit t = [] then None
         else Some (c_int (max (- (2 ^ 63)) (min (2 ^ 63 - 1) (sign * int (digits_val t)))),
           dropWhile is_digit t))"

text \<open>\<^verbatim>\<open>sscanf\<close> for formats of \<^verbatim>\<open>%d\<close>, blanks and other characters: the values it assigns.\<close>

fun sscanf_ints :: "string \<Rightarrow> string \<Rightarrow> int list" where
  "sscanf_ints [] s = []"
| "sscanf_ints (c # f) s =
     (if c = CHR ''%'' then
        (case scan_int s of None \<Rightarrow> [] | Some (n, r) \<Rightarrow> n # sscanf_ints (drop 1 f) r)
      else if blank c then sscanf_ints f (dropWhile blank s)
      else (case s of [] \<Rightarrow> [] | x # r \<Rightarrow> if x = c then sscanf_ints f r else []))"

definition sscanf_result :: "string \<Rightarrow> string \<Rightarrow> int" where
  "sscanf_result f s =
     (if sscanf_ints f s = [] \<and> dropWhile blank s = [] then -1 else int (length (sscanf_ints f s)))"

definition TIME_FORMAT :: string where
  "TIME_FORMAT = ''%d-%d-%d %d:%d:%d''"

text \<open>The assignments, as far as they got.\<close>

definition assign_fields :: "int list \<Rightarrow> mysql_time \<Rightarrow> mysql_time" where
  "assign_fields ns ts =
     (let field = (\<lambda>k old. if k < length ns then word_of_int (ns ! k) else old)
      in \<lparr>mt_year = field 0 (mt_year ts), mt_month = field 1 (mt_month ts), mt_day = field 2 (mt_day ts),
          mt_hour = field 3 (mt_hour ts), mt_minute = field 4 (mt_minute ts), mt_second = field 5 (mt_second ts)\<rparr>)"

definition convert_to_time :: "string \<Rightarrow> mysql_time \<Rightarrow> int \<times> mysql_time" where
  "convert_to_time time_str timestamp =
     (let ret = sscanf_result TIME_FORMAT time_str;
          timestamp = assign_fields (sscanf_ints TIME_FORMAT time_str) timestamp
      in (if ret < 0 then -1 else ret, timestamp))"

text \<open>\<^verbatim>\<open>%d\<close> prints the unsigned fields as signed numbers.\<close>

definition time_text :: "mysql_time \<Rightarrow> string" where
  "time_text ts =
     num_str (sint (mt_year ts)) @ ''-'' @ num_str (sint (mt_month ts)) @ ''-'' @ num_str (sint (mt_day ts)) @ '' '' @
     num_str (sint (mt_hour ts)) @ '':'' @ num_str (sint (mt_minute ts)) @ '':'' @ num_str (sint (mt_second ts))"

definition convert_to_str :: "mysql_time \<Rightarrow> int \<times> string" where
  "convert_to_str timestamp =
     (let time_str = time_text timestamp; ret = int (length time_str)
      in (if ret < -1 then -1 else ret, time_str))"

lemma digit_not_blank: "is_digit c \<Longrightarrow> \<not> blank c \<and> c \<noteq> CHR ''-'' \<and> c \<noteq> CHR ''+''"
  by (auto simp: is_digit_def blank_def)

lemma nat_str_hd: "is_digit (hd (nat_str n))"
  by (rule nat_str_digits [OF hd_in_set]) simp

lemma takeWhile_nat_str_ne: "takeWhile is_digit (nat_str n @ r) \<noteq> []"
  using nat_str_hd [of n] by (cases "nat_str n") (simp_all add: nat_str_ne [symmetric])

lemma split_sign_num_str:
  "split_sign (dropWhile blank (num_str n @ r)) = (if n < 0 then -1 else 1, nat_str (nat \<bar>n\<bar>) @ r)"
proof (cases "n < 0")
  case True
  then show ?thesis by (simp add: num_str_def split_sign_def blank_def)
next
  case False
  obtain d ds where "nat_str (nat n) = d # ds" by (cases "nat_str (nat n)") auto
  with False nat_str_hd [of "nat n"] digit_not_blank [of d] show ?thesis
    by (simp add: num_str_def split_sign_def)
qed

text \<open>What \<^verbatim>\<open>%d\<close> prints, \<^verbatim>\<open>%d\<close> reads.\<close>

lemma scan_int_num_str:
  assumes "- (2 ^ 31) \<le> n" and "n < 2 ^ 31" and "r = [] \<or> \<not> is_digit (hd r)"
  shows "scan_int (num_str n @ r) = Some (n, r)"
proof -
  have "(if n < 0 then -1 else 1) * int (digits_val (nat_str (nat \<bar>n\<bar>) @ r)) = n"
    using digits_val_nat_str [OF assms(3), of "nat \<bar>n\<bar>"] by simp
  with assms show ?thesis
    by (simp add: scan_int_def split_sign_num_str takeWhile_nat_str_ne dropWhile_digits c_int_id)
qed

lemma sint_range: "- (2 ^ 31) \<le> sint (x :: 32 word) \<and> sint x < 2 ^ 31"
  using sint_greater_eq [of x] sint_less [of x] by simp

lemma scan_field: "r = [] \<or> \<not> is_digit (hd r) \<Longrightarrow> scan_int (num_str (sint (x :: 32 word)) @ r) = Some (sint x, r)"
  using scan_int_num_str sint_range [of x] by blast

lemma num_str_not_blank: "dropWhile blank (num_str n @ r) = num_str n @ r \<and> num_str n @ r \<noteq> []"
proof -
  have "is_digit (hd (nat_str k))" for k by (rule nat_str_hd)
  then have "\<not> blank (hd (num_str n)) \<and> num_str n \<noteq> []"
    using digit_not_blank by (auto simp: num_str_def blank_def)
  then show ?thesis by (cases "num_str n") auto
qed

lemma scan_time_text:
  "sscanf_ints TIME_FORMAT (time_text ts) =
     [sint (mt_year ts), sint (mt_month ts), sint (mt_day ts), sint (mt_hour ts), sint (mt_minute ts),
      sint (mt_second ts)]"
proof -
  have last: "scan_int (num_str (sint x)) = Some (sint x, [])" for x :: "32 word"
    using scan_field [of "[]" x] by simp
  have sep: "\<not> is_digit (CHR ''-'')" "\<not> is_digit (CHR '' '')" "\<not> is_digit (CHR '':'')"
    "blank (CHR '' '')" "\<not> blank (CHR ''-'')" "\<not> blank (CHR '':'')"
    by (simp_all add: is_digit_def blank_def)
  show ?thesis
    by (simp add: TIME_FORMAT_def time_text_def scan_field last sep num_str_not_blank)
qed

subsection \<open>Prepared statements\<close>

text \<open>
  The functions of the client library, on the connection's state: a null handle or a true error code
  is a failure. The parameters are handed on as they are; their printing into the log reads
  \<open>bind_params_size\<close> of them.
\<close>

datatype bind_param = BindString string | BindDouble | BindLong int | BindOther

record 'd stmt_api =
  sa_init :: "'d \<Rightarrow> int option \<times> 'd"
  sa_prepare :: "int \<Rightarrow> string \<Rightarrow> 'd \<Rightarrow> bool \<times> 'd"
  sa_bind :: "int \<Rightarrow> bind_param list \<Rightarrow> 'd \<Rightarrow> bool \<times> 'd"
  sa_execute :: "int \<Rightarrow> 'd \<Rightarrow> bool \<times> 'd"
  sa_close :: "int \<Rightarrow> 'd \<Rightarrow> 'd"

definition query_security :: "'d stmt_api \<Rightarrow> string \<Rightarrow> bind_param list \<Rightarrow> int \<Rightarrow> 'd \<Rightarrow> (int \<times> 'd) res" where
  "query_security A format bind_params bind_params_size conn =
     (case sa_init A conn of
        (None, conn) \<Rightarrow> Inr (-1, conn)
      | (Some stmt, conn) \<Rightarrow>
          let (failed, conn) = sa_prepare A stmt format conn in
          if failed then Inr (-1, sa_close A stmt conn)
          else
            let (failed, conn) = sa_bind A stmt bind_params conn in
            if failed then Inr (-1, sa_close A stmt conn)
            else
              bindR (guardR (bind_params_size \<le> int (length bind_params)) OutOfBounds) (\<lambda>_.
              let (failed, conn) = sa_execute A stmt conn in
              if failed then Inr (-1, sa_close A stmt conn)
              else Inr (0, sa_close A stmt conn)))"

text \<open>
  What the library documents: a new handle is open, the calls on it open and close none, and
  closing it closes it alone.
\<close>

definition stmt_library :: "'d stmt_api \<Rightarrow> ('d \<Rightarrow> int set) \<Rightarrow> bool" where
  "stmt_library A opened \<longleftrightarrow>
     (\<forall>d. case sa_init A d of (None, d') \<Rightarrow> opened d' = opened d
        | (Some s, d') \<Rightarrow> s \<notin> opened d \<and> opened d' = insert s (opened d)) \<and>
     (\<forall>s f d. opened (snd (sa_prepare A s f d)) = opened d) \<and>
     (\<forall>s b d. opened (snd (sa_bind A s b d)) = opened d) \<and>
     (\<forall>s d. opened (snd (sa_execute A s d)) = opened d) \<and>
     (\<forall>s d. opened (sa_close A s d) = opened d - {s})"

text \<open>All four steps succeed.\<close>

definition stmt_passes :: "'d stmt_api \<Rightarrow> string \<Rightarrow> bind_param list \<Rightarrow> 'd \<Rightarrow> bool" where
  "stmt_passes A format bind_params conn =
     (case sa_init A conn of
        (None, conn) \<Rightarrow> False
      | (Some stmt, conn) \<Rightarrow>
          let (failed1, conn) = sa_prepare A stmt format conn;
              (failed2, conn) = sa_bind A stmt bind_params conn;
              (failed3, conn) = sa_execute A stmt conn
          in \<not> failed1 \<and> \<not> failed2 \<and> \<not> failed3)"

subsection \<open>Properties\<close>

text \<open>Time round trip: every time, whatever its six unsigned fields hold, prints to a text from which
  \<^verbatim>\<open>convert_to_time\<close> reads all six fields back, over any previous content of its argument.\<close>

theorem time_roundtrip:
  "convert_to_time (snd (convert_to_str ts)) old = (6, ts)"
  by (simp add: convert_to_time_def convert_to_str_def Let_def scan_time_text sscanf_result_def assign_fields_def
      eval_nat_numeral)

text \<open>
  Only an empty text is refused: a date alone, or fields out of range, come back as a time, and the
  fields that were not read keep what the structure held.
\<close>

lemma malformed_time_accepted:
  "fst (convert_to_time ''2024-13-45 99:99:99'' ts) = 6"
  "convert_to_time ''2024'' ts = (1, ts\<lparr>mt_year := 2024\<rparr>)"
  "fst (convert_to_time '''' ts) = -1"
  by (simp_all add: convert_to_time_def sscanf_result_def TIME_FORMAT_def scan_int_def split_sign_def
      blank_def is_digit_def digits_val_def digit_val_def assign_fields_def Let_def c_int_id)

text \<open>C31: \<^verbatim>\<open>query_security\<close> closes the statement it opens on every path: it returns 0 or -1, 0 exactly
  when the statement could be made, prepared, bound and executed, and no handle stays open.\<close>

theorem query_security_closes:
  assumes lib: "stmt_library A opened" and "bind_params_size \<le> int (length bind_params)"
  shows "\<exists>conn'. query_security A format bind_params bind_params_size conn =
      Inr (if stmt_passes A format bind_params conn then 0 else -1, conn') \<and> opened conn' = opened conn"
proof (cases "sa_init A conn")
  case (Pair h c1)
  note init = lib [unfolded stmt_library_def, THEN conjunct1, rule_format, of conn, unfolded Pair]
  show ?thesis
  proof (cases h)
    case None
    with Pair init show ?thesis by (simp add: query_security_def stmt_passes_def)
  next
    case (Some s)
    obtain e2 c2 where p: "sa_prepare A s format c1 = (e2, c2)" by fastforce
    obtain e3 c3 where b: "sa_bind A s bind_params c2 = (e3, c3)" by fastforce
    obtain e4 c4 where x: "sa_execute A s c3 = (e4, c4)" by fastforce
    have "s \<notin> opened conn" "opened c1 = insert s (opened conn)" using init Some by simp_all
    moreover have "opened c2 = opened c1" "opened c3 = opened c2" "opened c4 = opened c3"
      using lib p b x unfolding stmt_library_def by (metis snd_conv)+
    ultimately have "opened (sa_close A s c) = opened conn" if "c = c2 \<or> c = c3 \<or> c = c4" for c
      using lib that unfolding stmt_library_def by auto
    with Pair Some p b x assms(2) show ?thesis by (auto simp: query_security_def stmt_passes_def)
  qed
qed

text \<open>A library whose state is the list of open handles, and which refuses an empty statement.\<close>

definition list_stmts :: "int list stmt_api" where
  "list_stmts = \<lparr>sa_init = (\<lambda>d. (Some (1 + foldr max d 0), (1 + foldr max d 0) # d)),
     sa_prepare = (\<lambda>s f d. (f = [], d)), sa_bind = (\<lambda>s b d. (False, d)), sa_execute = (\<lambda>s d. (False, d)),
     sa_close = (\<lambda>s d. filter (\<lambda>x. x \<noteq> s) d)\<rparr>"

lemma foldr_max: "x \<in> set d \<Longrightarrow> x \<le> foldr max d (0 :: int)"
  by (induction d) auto

lemma list_stmts_ok: "stmt_library list_stmts set"
  using foldr_max by (auto simp: stmt_library_def list_stmts_def) fastforce+

lemma query_security_closes_witness:
  "(\<exists>d. query_security list_stmts ''select 1'' [BindLong 5] 1 [] = Inr (0, d) \<and> set d = {}) \<and>
   (\<exists>d. query_security list_stmts [] [BindLong 5] 1 [] = Inr (-1, d) \<and> set d = {})"
  using query_security_closes [OF list_stmts_ok, of 1 "[BindLong 5]" "''select 1''" "[]"]
    query_security_closes [OF list_stmts_ok, of 1 "[BindLong 5]" "[]" "[]"]
  by (simp add: stmt_passes_def list_stmts_def)

end
