(* ===== verification/ServerLog.thy ===== *)
theory ServerLog
  imports ToolText SqlText
begin

text \<open>
  The server's log: \<^verbatim>\<open>server/log.c\<close> and the macros \<^verbatim>\<open>LOG\<close> and \<^verbatim>\<open>LOG_WITH_TIME\<close> of
  \<^verbatim>\<open>server/header.h\<close>. The globals are a record; beside them the state holds which path each open
  descriptor writes to and the lines written. Choosing the output level is recursive, through the
  message about a missing level: a call that never returns is None.
\<close>

subsection \<open>The globals\<close>

record log_state =
  log_fd :: "int list"
  log_isolate :: int
  log_thread :: int
  curr_date :: string
  output_level :: int
  log_open :: "int \<rightharpoonup> string"
  log_lines :: "(string \<times> string) list"

definition log_start :: log_state where
  "log_start = \<lparr>log_fd = [-1, -1, -1, -1, -1], log_isolate = -1, log_thread = -1, curr_date = [],
     output_level = -1, log_open = Map.empty, log_lines = []\<rparr>"

text \<open>
  What a call reads beside the globals: the configuration file, the local date, the time as printed,
  the descriptor \<^verbatim>\<open>open\<close> returns, the thread's number and the text of \<^verbatim>\<open>strerror\<close>.
\<close>

record tm =
  tm_year :: int
  tm_mon :: int
  tm_mday :: int

record log_env =
  le_conf :: "string option"
  le_tm :: tm
  le_time :: string
  le_open :: "string \<Rightarrow> (int \<rightharpoonup> string) \<Rightarrow> int"
  le_tid :: nat
  le_errmsg :: string

definition LOG_LEVEL_DEBUG :: int where "LOG_LEVEL_DEBUG = 0"
definition LOG_LEVEL_INFO :: int where "LOG_LEVEL_INFO = 1"
definition LOG_LEVEL_WARNING :: int where "LOG_LEVEL_WARNING = 2"
definition LOG_LEVEL_ERROR :: int where "LOG_LEVEL_ERROR = 3"

lemmas log_levels = LOG_LEVEL_DEBUG_def LOG_LEVEL_INFO_def LOG_LEVEL_WARNING_def LOG_LEVEL_ERROR_def

subsection \<open>Settings\<close>

definition config_flag :: "string option \<Rightarrow> string \<Rightarrow> int res" where
  "config_flag conf key =
     bindR (read_config conf key) (\<lambda>v.
     Inr (case v of None \<Rightarrow> 0 | Some s \<Rightarrow> if s = ''true'' then 1 else 0))"

definition get_log_isolate :: "log_env \<Rightarrow> log_state \<Rightarrow> (int \<times> log_state) res" where
  "get_log_isolate env st =
     (if log_isolate st \<noteq> -1 then Inr (log_isolate st, st)
      else bindR (config_flag (le_conf env) ''log_output_isolate'') (\<lambda>b. Inr (b, st\<lparr>log_isolate := b\<rparr>)))"

definition get_thread_conf :: "log_env \<Rightarrow> log_state \<Rightarrow> (int \<times> log_state) res" where
  "get_thread_conf env st =
     (if log_thread st \<noteq> -1 then Inr (log_thread st, st)
      else bindR (config_flag (le_conf env) ''log_output_thread'') (\<lambda>b. Inr (b, st\<lparr>log_thread := b\<rparr>)))"

definition toupper :: "char \<Rightarrow> char" where
  "toupper c = (let n = of_char c :: nat in if 97 \<le> n \<and> n \<le> 122 then char_of (n - 32) else c)"

definition str_to_lever :: "string \<Rightarrow> int" where
  "str_to_lever set_lever =
     (let s = map toupper set_lever
      in if s = ''DEBUG'' then LOG_LEVEL_DEBUG
         else if s = ''INFO'' then LOG_LEVEL_INFO
         else if s = ''WARNING'' then LOG_LEVEL_WARNING
         else if s = ''ERROR'' then LOG_LEVEL_ERROR
         else -1)"

text \<open>None is the result -1; the message about it is not modelled, no caller passes such a level.\<close>

definition level_to_str :: "int \<Rightarrow> string option" where
  "level_to_str level =
     (if level < 0 \<or> 3 < level then None
      else Some ([''DBUG'', ''INFO'', ''WARN'', ''ERRO''] ! nat level))"

subsection \<open>Files\<close>

definition log_slot :: "int \<Rightarrow> int \<Rightarrow> nat res" where
  "log_slot is_isolate level =
     (let log_idx = (if is_isolate = 1 then level + 1 else 0)
      in if 0 \<le> log_idx \<and> log_idx < 5 then Inr (nat log_idx) else Inl OutOfBounds)"

definition get_curr_fd :: "log_env \<Rightarrow> int \<Rightarrow> log_state \<Rightarrow> (int \<times> log_state) res" where
  "get_curr_fd env level st =
     bindR (get_log_isolate env st) (\<lambda>(is_isolate, st).
     bindR (log_slot is_isolate level) (\<lambda>k. Inr (log_fd st ! k, st)))"

text \<open>The date as \<^verbatim>\<open>get_now_date\<close> prints it, into the 11 characters its caller has for it.\<close>

definition two_digits :: "int \<Rightarrow> string" where
  "two_digits n = (if 0 \<le> n \<and> n < 10 then CHR ''0'' # num_str n else num_str n)"

definition date_text :: "tm \<Rightarrow> string" where
  "date_text t =
     (let year = tm_year t + 1900; month = tm_mon t + 1; day = tm_mday t
      in num_str year @ ''-'' @ two_digits month @ ''-'' @ two_digits day)"

definition get_now_date :: "tm \<Rightarrow> string res" where
  "get_now_date t = strcpyR 11 (date_text t)"

abbreviation le_date :: "log_env \<Rightarrow> string" where
  "le_date env \<equiv> date_text (le_tm env)"

definition log_path :: "int \<Rightarrow> string \<Rightarrow> int \<Rightarrow> string" where
  "log_path is_isolate now_date level =
     (if is_isolate = 1
      then ''./log/'' @ now_date @ ''_'' @ (case level_to_str level of None \<Rightarrow> [] | Some s \<Rightarrow> s) @ ''.log''
      else ''./log/'' @ now_date @ ''.log'')"

definition update_log_info :: "log_env \<Rightarrow> string \<Rightarrow> int \<Rightarrow> log_state \<Rightarrow> (int \<times> log_state) res" where
  "update_log_info env now_date level st =
     bindR (get_curr_fd env level st) (\<lambda>(curr_log_fd, st).
     let st = (if curr_log_fd \<noteq> -1 then st\<lparr>log_open := (log_open st)(curr_log_fd := None)\<rparr> else st)
     in bindR (get_log_isolate env st) (\<lambda>(is_isolate, st).
        let path = log_path is_isolate now_date level;
            curr_log_fd = le_open env path (log_open st);
            st = (if curr_log_fd = -1 then st else st\<lparr>log_open := (log_open st)(curr_log_fd \<mapsto> path)\<rparr>)
        in bindR (log_slot is_isolate level) (\<lambda>k.
           bindR (strcpyR 11 now_date) (\<lambda>date.
           Inr (curr_log_fd, st\<lparr>log_fd := (log_fd st)[k := curr_log_fd], curr_date := date\<rparr>)))))"

definition get_log_fd :: "log_env \<Rightarrow> int \<Rightarrow> log_state \<Rightarrow> (int \<times> log_state) res" where
  "get_log_fd env level st =
     bindR (get_now_date (le_tm env)) (\<lambda>now_date.
     bindR (get_curr_fd env level st) (\<lambda>(curr_fd, st).
     if curr_fd = -1 \<or> \<not> strncmp_eq (curr_date st) now_date 10
     then update_log_info env now_date level st
     else Inr (curr_fd, st)))"

subsection \<open>A line\<close>

text \<open>
  \<open>text\<close> is what \<^verbatim>\<open>vsprintf\<close> makes of the format and the arguments. \<open>strcatR\<close> is \<^verbatim>\<open>strcat\<close> into an
  array of the given size.
\<close>

definition strcatR :: "nat \<Rightarrow> string \<Rightarrow> string \<Rightarrow> string res" where
  "strcatR n buf s = strcpyR n (buf @ s)"

definition print_log :: "log_env \<Rightarrow> int \<Rightarrow> string \<Rightarrow> log_state \<Rightarrow> log_state res" where
  "print_log env level text st =
     bindR (strcpyR 1024 text) (\<lambda>buf.
     bindR (get_thread_conf env st) (\<lambda>(thread, st).
     bindR (if thread = 1
            then bindR (strcpyR 20 ('' [tid: '' @ nat_str (le_tid env mod 10000) @ ''] '')) (strcatR 1024 buf)
            else Inr buf) (\<lambda>buf.
     bindR (if level = LOG_LEVEL_ERROR
            then bindR (strcatR 1024 buf ''[errmsg:'') (\<lambda>buf.
                 bindR (strcatR 1024 buf (le_errmsg env)) (\<lambda>buf. strcatR 1024 buf '']''))
            else Inr buf) (\<lambda>buf.
     bindR (strcatR 1024 buf [CHR 0x0A]) (\<lambda>buf.
     bindR (get_log_fd env level st) (\<lambda>(fd, st).
     Inr (case log_open st fd of
            None \<Rightarrow> st
          | Some path \<Rightarrow> st\<lparr>log_lines := log_lines st @ [(path, buf)]\<rparr>)))))))"

text \<open>
  A call of the macro: level, place in the source as \<^verbatim>\<open>file:line:function\<close>, format, and what the
  arguments make of a format. \<open>log_emit\<close> is the macro after \<^verbatim>\<open>output_control\<close>. \<^verbatim>\<open>snprintf\<close> may write
  2048 characters into the 512 of \<^verbatim>\<open>temp_info\<close>.
\<close>

record log_call =
  lc_level :: int
  lc_place :: string
  lc_format :: string
  lc_expand :: "string \<Rightarrow> string"

definition log_emit :: "log_env \<Rightarrow> log_call \<Rightarrow> log_state \<Rightarrow> log_state res" where
  "log_emit env c st =
     (case level_to_str (lc_level c) of
        None \<Rightarrow> Inr st
      | Some target_level \<Rightarrow>
          bindR (strcpyR 512 (take 2047 (''['' @ target_level @ ''] ['' @ lc_place c @ ''] '' @ lc_format c)))
            (\<lambda>temp_info. print_log env (lc_level c) (lc_expand c temp_info) st))"

subsection \<open>The output level\<close>

definition level_warning :: log_call where
  "level_warning = \<lparr>lc_level = LOG_LEVEL_WARNING, lc_place = ''log.c:180:output_control'',
     lc_format = ''log_output_level is not set, use default value: INFO'', lc_expand = (\<lambda>s. s)\<rparr>"

definition config_level :: "string option \<Rightarrow> int res" where
  "config_level conf =
     bindR (read_config conf ''log_output_level'') (\<lambda>v.
     Inr (case v of None \<Rightarrow> -1 | Some s \<Rightarrow> str_to_lever s))"

partial_function (option) output_control ::
  "log_env \<Rightarrow> int \<Rightarrow> log_state \<Rightarrow> (bool \<times> log_state) res option" where
  "output_control env level st =
     (if output_level st = -1 then
        (case config_level (le_conf env) of
           Inl e \<Rightarrow> Some (Inl e)
         | Inr set_level \<Rightarrow>
             if set_level = -1 then
               Option.bind (output_control env LOG_LEVEL_WARNING st) (\<lambda>r.
                 Some (bindR (bindR r (\<lambda>(allowed, st).
                     if allowed then log_emit env level_warning st else Inr st)) (\<lambda>st.
                   Inr (LOG_LEVEL_INFO \<le> level, st\<lparr>output_level := LOG_LEVEL_INFO\<rparr>))))
             else Some (Inr (set_level \<le> level, st\<lparr>output_level := set_level\<rparr>)))
      else Some (Inr (output_level st \<le> level, st)))"

definition LOG :: "log_env \<Rightarrow> log_call \<Rightarrow> log_state \<Rightarrow> log_state res option" where
  "LOG env c st =
     Option.bind (output_control env (lc_level c) st) (\<lambda>r.
       Some (bindR r (\<lambda>(allowed, st). if allowed then log_emit env c st else Inr st)))"

definition LOG_WITH_TIME :: "log_env \<Rightarrow> log_call \<Rightarrow> log_state \<Rightarrow> log_state res option" where
  "LOG_WITH_TIME env c st =
     Option.bind (output_control env (lc_level c) st) (\<lambda>r.
       case r of
         Inl e \<Rightarrow> Some (Inl e)
       | Inr (allowed, st) \<Rightarrow>
           if \<not> allowed then Some (Inr st)
           else case strcpyR 1024 (''['' @ le_time env @ ''] '' @ lc_format c) of
             Inl e \<Rightarrow> Some (Inl e)
           | Inr new_format \<Rightarrow> LOG env (c\<lparr>lc_format := new_format\<rparr>) st)"

subsection \<open>When a call returns\<close>

definition level_unset :: "log_env \<Rightarrow> log_state \<Rightarrow> bool" where
  "level_unset env st \<longleftrightarrow> output_level st = -1 \<and> config_level (le_conf env) = Inr (-1)"

text \<open>Each unfolding leads to the same call again, so the least fixed point is undefined there.\<close>

lemma output_control_unset:
  assumes "output_control env level st = Some r"
  shows "\<not> level_unset env st"
proof (rule output_control.raw_induct [where P = "\<lambda>env level st r. \<not> level_unset env st", OF _ assms])
  fix f :: "log_env \<Rightarrow> int \<Rightarrow> log_state \<Rightarrow> (bool \<times> log_state) res option" and env level st r
  assume "\<And>env level st r. f env level st = Some r \<Longrightarrow> \<not> level_unset env st"
  then have "f env LOG_LEVEL_WARNING st = None" if "level_unset env st"
    using that by (cases "f env LOG_LEVEL_WARNING st") auto
  moreover assume "(if output_level st = -1 then
      (case config_level (le_conf env) of
         Inl e \<Rightarrow> Some (Inl e)
       | Inr set_level \<Rightarrow>
           if set_level = -1 then
             Option.bind (f env LOG_LEVEL_WARNING st) (\<lambda>r.
               Some (bindR (bindR r (\<lambda>(allowed, st).
                   if allowed then log_emit env level_warning st else Inr st)) (\<lambda>st.
                 Inr (LOG_LEVEL_INFO \<le> level, st\<lparr>output_level := LOG_LEVEL_INFO\<rparr>))))
           else Some (Inr (set_level \<le> level, st\<lparr>output_level := set_level\<rparr>)))
    else Some (Inr (output_level st \<le> level, st))) = Some r"
  ultimately show "\<not> level_unset env st" by (auto simp: level_unset_def)
qed

lemma output_control_set:
  assumes "\<not> level_unset env st"
  shows "\<exists>r. output_control env level st = Some r \<and>
    (\<forall>allowed st'. r = Inr (allowed, st') \<longrightarrow> output_level st' \<noteq> -1)"
  using assms by (subst output_control.simps) (auto simp: level_unset_def split: sum.split)

lemma output_control_level:
  "output_level st \<noteq> -1 \<Longrightarrow> output_control env level st = Some (Inr (output_level st \<le> level, st))"
  by (subst output_control.simps) simp

lemma LOG_level:
  "output_level st \<noteq> -1 \<Longrightarrow>
   LOG env c st = Some (if output_level st \<le> lc_level c then log_emit env c st else Inr st)"
  by (simp add: LOG_def output_control_level)

lemma LOG_returns: "LOG env c st \<noteq> None \<longleftrightarrow> \<not> level_unset env st"
  using output_control_set [of env st "lc_level c"] output_control_unset [of env "lc_level c" st]
  by (cases "output_control env (lc_level c) st") (auto simp: LOG_def)

lemma LOG_WITH_TIME_returns: "LOG_WITH_TIME env c st \<noteq> None \<longleftrightarrow> \<not> level_unset env st"
proof (cases "level_unset env st")
  case True
  with output_control_unset [of env "lc_level c" st] show ?thesis
    by (cases "output_control env (lc_level c) st") (auto simp: LOG_WITH_TIME_def)
next
  case False
  then obtain r where r: "output_control env (lc_level c) st = Some r"
    "\<forall>allowed st'. r = Inr (allowed, st') \<longrightarrow> output_level st' \<noteq> -1"
    using output_control_set by blast
  then show ?thesis
    using False by (cases r) (auto simp: LOG_WITH_TIME_def LOG_level split: sum.splits)
qed

subsection \<open>Where a line goes\<close>

text \<open>Globals after the first calls: level, separation and thread setting are known.\<close>

definition log_settled :: "log_state \<Rightarrow> bool" where
  "log_settled st \<longleftrightarrow> length (log_fd st) = 5 \<and> log_isolate st \<in> {0, 1} \<and> log_thread st \<in> {0, 1} \<and>
     output_level st \<noteq> -1 \<and> finite (dom (log_open st))"

definition slot :: "log_state \<Rightarrow> int \<Rightarrow> nat" where
  "slot st level = (if log_isolate st = 1 then nat (level + 1) else 0)"

definition log_text :: "log_call \<Rightarrow> string" where
  "log_text c = lc_expand c (''['' @ the (level_to_str (lc_level c)) @ ''] ['' @ lc_place c @ ''] '' @ lc_format c)"

text \<open>What \<^verbatim>\<open>print_log\<close> puts behind it: the thread's number when that is set, and the last error of the
  system for an error.\<close>

definition log_tags :: "log_env \<Rightarrow> log_state \<Rightarrow> int \<Rightarrow> string" where
  "log_tags env st level =
     (if log_thread st = 1 then '' [tid: '' @ nat_str (le_tid env mod 10000) @ ''] '' else []) @
     (if level = LOG_LEVEL_ERROR then ''[errmsg:'' @ le_errmsg env @ '']'' else [])"

definition log_line :: "log_env \<Rightarrow> log_state \<Rightarrow> log_call \<Rightarrow> string" where
  "log_line env st c = log_text c @ log_tags env st (lc_level c) @ [CHR 0x0A]"

text \<open>A date of the years 1000 to 9999 fills its array, and no two of them print alike.\<close>

definition calendar :: "tm \<Rightarrow> bool" where
  "calendar t \<longleftrightarrow> 1000 \<le> tm_year t + 1900 \<and> tm_year t + 1900 < 10000 \<and> 0 \<le> tm_mon t \<and> tm_mon t < 12 \<and>
     1 \<le> tm_mday t \<and> tm_mday t \<le> 31"

lemma length_year:
  assumes "1000 \<le> n" and "n < 10000"
  shows "length (num_str n) = 4"
proof -
  define k where "k = nat n"
  have "1000 \<le> k" and "k < 10000" using assms by (simp_all add: k_def)
  then have "\<not> k < 10" and "\<not> k div 10 < 10" and "\<not> k div 100 < 10" and "k div 1000 < 10"
    by (simp_all add: div_less_iff_less_mult)
  then have "length (nat_str k) = 4"
    by (simp add: nat_str.simps [of k] nat_str.simps [of "k div 10"] nat_str.simps [of "k div 100"]
        nat_str.simps [of "k div 1000"] flip: div_mult2_eq)
  then show ?thesis using assms by (simp add: num_str_def k_def)
qed

lemma length_two_digits: "0 \<le> n \<Longrightarrow> n < 100 \<Longrightarrow> length (two_digits n) = 2"
  by (auto simp: two_digits_def num_str_def nat_str.simps [of "nat n"] nat_str.simps [of "nat n div 10"])

lemma two_digits_inj:
  assumes "0 \<le> m" and "m < 100" and "0 \<le> n" and "n < 100" and "two_digits m = two_digits n"
  shows "m = n"
proof -
  have "atoi (two_digits k) = k" if "0 \<le> k" "k < 100" for k
    using that atoi_num_str [of k] by (auto simp: two_digits_def atoi_def digits_val_def is_digit_def digit_val_def)
  then show ?thesis using assms by metis
qed

lemma length_date: "calendar t \<Longrightarrow> length (date_text t) = 10"
  by (simp add: calendar_def date_text_def Let_def length_two_digits length_year)

lemma date_inj:
  assumes "calendar a" and "calendar b"
  shows "date_text a = date_text b \<longleftrightarrow> a = b"
proof
  assume eq: "date_text a = date_text b"
  have y: "0 \<le> tm_year t + 1900" "tm_year t + 1900 < 2 ^ 31" "length (num_str (tm_year t + 1900)) = 4"
    if "calendar t" for t
    using that by (simp_all add: calendar_def length_year)
  have m: "0 \<le> tm_mon t + 1" "tm_mon t + 1 < 100" "0 \<le> tm_mday t" "tm_mday t < 100"
    if "calendar t" for t
    using that by (simp_all add: calendar_def)
  from eq y(3) [OF assms(1)] y(3) [OF assms(2)] m [OF assms(1)] m [OF assms(2)]
  have parts: "num_str (tm_year a + 1900) = num_str (tm_year b + 1900)"
    "two_digits (tm_mon a + 1) = two_digits (tm_mon b + 1)" "two_digits (tm_mday a) = two_digits (tm_mday b)"
    by (auto simp: date_text_def Let_def length_two_digits append_eq_append_conv)
  have "tm_year a + 1900 = tm_year b + 1900"
    using parts(1) atoi_num_str y(1,2) [OF assms(1)] y(1,2) [OF assms(2)] by metis
  moreover have "tm_mon a + 1 = tm_mon b + 1"
    by (rule two_digits_inj) (use m assms parts in auto)
  moreover have "tm_mday a = tm_mday b" by (rule two_digits_inj) (use m assms parts in auto)
  ultimately show "a = b" by (simp add: tm.equality)
qed simp

lemma get_now_date_eq: "calendar t \<Longrightarrow> get_now_date t = Inr (date_text t)"
  by (simp add: get_now_date_def strcpyR_def length_date)

text \<open>A call whose prefix and line fit the arrays of 512 and 1024.\<close>

definition log_short :: "log_env \<Rightarrow> log_state \<Rightarrow> log_call \<Rightarrow> bool" where
  "log_short env st c \<longleftrightarrow> length (lc_place c) + length (lc_format c) < 500 \<and> length (log_line env st c) < 1024"

lemma length_tid: "n < 10000 \<Longrightarrow> length (nat_str n) \<le> 4"
  using length_nat_str [of n 4] by simp

lemma tags_appended:
  assumes "log_thread st \<in> {0, 1}" and "length (buf @ log_tags env st level @ [CHR 0x0A]) < 1024"
  shows "bindR (if log_thread st = 1
      then bindR (strcpyR 20 ('' [tid: '' @ nat_str (le_tid env mod 10000) @ ''] '')) (strcatR 1024 buf)
      else Inr buf) (\<lambda>buf.
    bindR (if level = LOG_LEVEL_ERROR
      then bindR (strcatR 1024 buf ''[errmsg:'') (\<lambda>buf.
           bindR (strcatR 1024 buf (le_errmsg env)) (\<lambda>buf. strcatR 1024 buf '']''))
      else Inr buf) (\<lambda>buf.
    bindR (strcatR 1024 buf [CHR 0x0A]) k)) = k (buf @ log_tags env st level @ [CHR 0x0A])"
  using assms length_tid [of "le_tid env mod 10000"]
  by (auto simp: log_tags_def strcatR_def strcpyR_def)

lemma slot_less: "log_settled st \<Longrightarrow> 0 \<le> level \<Longrightarrow> level \<le> 3 \<Longrightarrow> slot st level < 5"
  by (auto simp: slot_def log_settled_def)

lemma log_slot_eq:
  "log_settled st \<Longrightarrow> 0 \<le> level \<Longrightarrow> level \<le> 3 \<Longrightarrow> log_slot (log_isolate st) level = Inr (slot st level)"
  by (auto simp: log_slot_def slot_def log_settled_def)

lemma get_curr_fd_eq:
  assumes "log_settled st" and "0 \<le> level" and "level \<le> 3"
  shows "get_curr_fd env level st = Inr (log_fd st ! slot st level, st)"
  using log_slot_eq [OF assms] assms(1) by (auto simp: get_curr_fd_def get_log_isolate_def log_settled_def)

definition fresh_file :: "log_env \<Rightarrow> int \<Rightarrow> log_state \<Rightarrow> int \<Rightarrow> log_state \<Rightarrow> bool" where
  "fresh_file env level st fd st' \<longleftrightarrow>
     (let m = (if log_fd st ! slot st level = -1 then log_open st
               else (log_open st)(log_fd st ! slot st level := None));
          path = log_path (log_isolate st) (le_date env) level
      in fd = le_open env path m \<and> fd \<noteq> -1 \<and>
         st' = st\<lparr>log_open := m(fd \<mapsto> path), log_fd := (log_fd st)[slot st level := fd], curr_date := le_date env\<rparr>)"

lemma update_log_info_eq:
  assumes st: "log_settled st" and l: "0 \<le> level" "level \<le> 3" and d: "length (le_date env) = 10"
    and o: "\<forall>p m. le_open env p m \<noteq> -1"
  shows "\<exists>fd st'. update_log_info env (le_date env) level st = Inr (fd, st') \<and> fresh_file env level st fd st'"
proof -
  have iso: "get_log_isolate env (st\<lparr>log_open := m\<rparr>) = Inr (log_isolate st, st\<lparr>log_open := m\<rparr>)"
    "get_log_isolate env st = Inr (log_isolate st, st)" for m
    using st by (auto simp: get_log_isolate_def log_settled_def)
  show ?thesis
    using o d log_slot_eq [OF st l]
    by (auto simp: update_log_info_def get_curr_fd_eq [OF st l] iso strcpyR_def fresh_file_def Let_def)
qed

lemma get_log_fd_eq:
  assumes st: "log_settled st" and l: "0 \<le> level" "level \<le> 3" and cal: "calendar (le_tm env)"
    and "length (curr_date st) = 10" and o: "\<forall>p m. le_open env p m \<noteq> -1"
  shows "if log_fd st ! slot st level \<noteq> -1 \<and> curr_date st = le_date env
    then get_log_fd env level st = Inr (log_fd st ! slot st level, st)
    else \<exists>fd st'. get_log_fd env level st = Inr (fd, st') \<and> fresh_file env level st fd st'"
proof -
  have "strncmp_eq (curr_date st) (le_date env) 10 \<longleftrightarrow> curr_date st = le_date env"
    using length_date [OF cal] assms(5) by (simp add: strncmp_eq_def)
  with update_log_info_eq [OF st l length_date [OF cal] o] show ?thesis
    by (auto simp: get_log_fd_def get_now_date_eq [OF cal] get_curr_fd_eq [OF st l])
qed

lemma level_names:
  assumes "0 \<le> level" and "level \<le> 3"
  shows "\<exists>s. level_to_str level = Some s \<and> length s = 4"
proof -
  from assms have "level = 0 \<or> level = 1 \<or> level = 2 \<or> level = 3" by arith
  then show ?thesis by (auto simp: level_to_str_def)
qed

lemma LOG_line:
  assumes st: "log_settled st" and c: "log_short env st c" and l: "0 \<le> lc_level c" "lc_level c \<le> 3"
    and lev: "output_level st \<le> lc_level c"
    and fd: "get_log_fd env (lc_level c) st = Inr (fd, st')" "log_open st' fd = Some path"
  shows "LOG env c st = Some (Inr (st'\<lparr>log_lines := log_lines st' @ [(path, log_line env st c)]\<rparr>))"
proof -
  obtain t where t: "level_to_str (lc_level c) = Some t" "length t = 4"
    using l level_names [of "lc_level c"] by auto
  let ?f = "''['' @ t @ ''] ['' @ lc_place c @ ''] '' @ lc_format c"
  have len: "length ?f < 512" using c t(2) by (simp add: log_short_def)
  then have "take 2047 ?f = ?f" by simp
  moreover have "lc_expand c ?f = log_text c" using t(1) by (simp add: log_text_def)
  ultimately have emit: "log_emit env c st = print_log env (lc_level c) (log_text c) st"
    using t(1) len by (simp add: log_emit_def strcpyR_def)
  have conf: "get_thread_conf env st = Inr (log_thread st, st)" and th: "log_thread st \<in> {0, 1}"
    using st by (auto simp: get_thread_conf_def log_settled_def)
  have fits: "length (log_text c @ log_tags env st (lc_level c) @ [CHR 0x0A]) < 1024"
    using c by (simp add: log_short_def log_line_def)
  then have "strcpyR 1024 (log_text c) = Inr (log_text c)" by (simp add: strcpyR_def)
  then have "print_log env (lc_level c) (log_text c) st =
      Inr (st'\<lparr>log_lines := log_lines st' @ [(path, log_line env st c)]\<rparr>)"
    unfolding print_log_def by (simp only: conf bindR_Inr prod.case tags_appended [OF th fits] fd) (simp add: log_line_def)
  then show ?thesis using lev st emit by (simp add: LOG_level log_settled_def)
qed

text \<open>The descriptor of a level is open on the file of its level and the recorded date.\<close>

definition slot_current :: "log_state \<Rightarrow> int \<Rightarrow> bool" where
  "slot_current st level \<longleftrightarrow> log_fd st ! slot st level \<noteq> -1 \<longrightarrow>
     log_open st (log_fd st ! slot st level) = Some (log_path (log_isolate st) (curr_date st) level)"

text \<open>\<^verbatim>\<open>open\<close> succeeds with a descriptor that is not in use.\<close>

definition open_works :: "log_env \<Rightarrow> bool" where
  "open_works env \<longleftrightarrow> (\<forall>path m. le_open env path m \<noteq> -1 \<and>
     (finite (dom m) \<longrightarrow> m (le_open env path m) = None))"

lemma LOG_current:
  assumes st: "log_settled st" and c: "log_short env st c" and l: "0 \<le> lc_level c" "lc_level c \<le> 3"
    and lev: "output_level st \<le> lc_level c" and d: "calendar (le_tm env)" "length (curr_date st) = 10"
    and o: "open_works env" and cur: "slot_current st (lc_level c)"
  shows "\<exists>st'. LOG env c st = Some (Inr st') \<and>
    log_lines st' = log_lines st @ [(log_path (log_isolate st) (le_date env) (lc_level c), log_line env st c)] \<and>
    log_settled st' \<and> log_thread st' = log_thread st \<and> curr_date st' = le_date env \<and> slot_current st' (lc_level c) \<and>
    log_isolate st' = log_isolate st \<and> output_level st' = output_level st \<and>
    (\<forall>k fd. k \<noteq> slot st (lc_level c) \<and> log_fd st ! k = fd \<and> fd \<noteq> log_fd st ! slot st (lc_level c) \<and>
       log_open st fd \<noteq> None \<longrightarrow> log_fd st' ! k = fd \<and> log_open st' fd = log_open st fd)"
proof (cases "log_fd st ! slot st (lc_level c) \<noteq> -1 \<and> curr_date st = le_date env")
  case True
  let ?fd = "log_fd st ! slot st (lc_level c)"
  have "get_log_fd env (lc_level c) st = Inr (?fd, st)"
    using get_log_fd_eq [OF st l d] o True by (auto simp: open_works_def split: if_splits)
  moreover have "log_open st ?fd = Some (log_path (log_isolate st) (le_date env) (lc_level c))"
    using cur True by (simp add: slot_current_def)
  ultimately show ?thesis
    using LOG_line [OF st c l lev] True cur st by (auto simp: slot_current_def slot_def log_settled_def)
next
  case False
  let ?k = "slot st (lc_level c)"
  obtain fd st' where f: "get_log_fd env (lc_level c) st = Inr (fd, st')" "fresh_file env (lc_level c) st fd st'"
    using get_log_fd_eq [OF st l d] o False by (auto simp: open_works_def split: if_splits)
  obtain m where m: "st' = st\<lparr>log_open := m(fd \<mapsto> log_path (log_isolate st) (le_date env) (lc_level c)),
      log_fd := (log_fd st)[?k := fd], curr_date := le_date env\<rparr>"
    and fresh: "m fd = None" "finite (dom m)" and old: "\<And>x. x \<noteq> log_fd st ! ?k \<Longrightarrow> m x = log_open st x"
    using f(2) o st by (auto simp: fresh_file_def open_works_def log_settled_def Let_def split: if_splits)
  have k: "?k < length (log_fd st)" using slot_less [OF st l] st by (simp add: log_settled_def)
  have s: "slot (st\<lparr>log_open := x, log_fd := y, curr_date := z, log_lines := u\<rparr>) level = slot st level" for x y z u level
    by (simp add: slot_def)
  have "LOG env c st = Some (Inr (st'\<lparr>log_lines := log_lines st' @
      [(log_path (log_isolate st) (le_date env) (lc_level c), log_line env st c)]\<rparr>))"
    by (rule LOG_line [OF st c l lev f(1)]) (simp add: m)
  moreover have "fd \<noteq> x" if "log_open st x \<noteq> None" "x \<noteq> log_fd st ! ?k" for x
    using fresh(1) old [OF that(2)] that(1) by metis
  ultimately show ?thesis
    using m k st old fresh(2) by (auto simp: s slot_current_def log_settled_def)
qed

subsection \<open>Properties\<close>

text \<open>C32: logging returns exactly when it is configured: \<^verbatim>\<open>output_control\<close> and both macros return for every call
  if the level has been read before or \<^verbatim>\<open>log_output_level\<close> names one of the four levels (or reading
  the file faults); with the level missing or misspelt they never return, because the warning about
  it asks for the level again.\<close>

theorem logging_returns_iff_configured:
  "(output_control env level st = None \<longleftrightarrow> output_level st = -1 \<and> config_level (le_conf env) = Inr (-1)) \<and>
   (LOG env c st = None \<longleftrightarrow> output_level st = -1 \<and> config_level (le_conf env) = Inr (-1)) \<and>
   (LOG_WITH_TIME env c st = None \<longleftrightarrow> output_level st = -1 \<and> config_level (le_conf env) = Inr (-1))"
  using LOG_returns [of env c st] LOG_WITH_TIME_returns [of env c st] output_control_unset [of env level st]
    output_control_set [of env st level]
  by (auto simp: level_unset_def)

text \<open>C33: a line reaches the file of its day and level: once the settings are read, a call of any of the four
  levels at or above the output level, whose line fits \<^verbatim>\<open>print_log\<close>'s arrays, appends exactly its
  formatted line (followed by the thread's number when that is configured, by the system's error
  message for an error, and by a line feed) to the log of the current date (and of its level, when
  logs are separated), opening that file when the date has changed, provided \<^verbatim>\<open>open\<close> succeeds and the
  level's own descriptor was right for the recorded date; a call below the level writes nothing.\<close>

theorem log_line_placed:
  assumes "log_settled st" and "log_short env st c" and "0 \<le> lc_level c" and "lc_level c \<le> 3"
    and "calendar (le_tm env)" and "length (curr_date st) = 10" and "open_works env"
    and "slot_current st (lc_level c)"
  shows "\<exists>st'. LOG env c st = Some (Inr st') \<and>
    (if output_level st \<le> lc_level c
     then log_lines st' = log_lines st @
         [(log_path (log_isolate st) (le_date env) (lc_level c), log_line env st c)] \<and>
       curr_date st' = le_date env \<and> slot_current st' (lc_level c)
     else st' = st)"
proof (cases "output_level st \<le> lc_level c")
  case True
  with LOG_current [OF assms(1-4) True assms(5-8)] show ?thesis by auto
next
  case False
  with assms(1) show ?thesis by (simp add: LOG_level log_settled_def)
qed

definition demo_log :: log_state where
  "demo_log = \<lparr>log_fd = [-1, 10, 11, -1, -1], log_isolate = 1, log_thread = 0, curr_date = ''2024-01-01'',
     output_level = 0, log_open = [10 \<mapsto> ''./log/2024-01-01_DBUG.log'', 11 \<mapsto> ''./log/2024-01-01_INFO.log''],
     log_lines = []\<rparr>"

definition demo_env :: log_env where
  "demo_env = \<lparr>le_conf = Some [], le_tm = \<lparr>tm_year = 124, tm_mon = 0, tm_mday = 2\<rparr>, le_time = ''2024-01-02 00:00:01'',
     le_open = (\<lambda>path m. if finite (dom m) then Max (insert 9 (dom m)) + 1 else 9), le_tid = 7, le_errmsg = ''Success''\<rparr>"

definition demo_call :: "int \<Rightarrow> log_call" where
  "demo_call level = \<lparr>lc_level = level, lc_place = ''a.c:1:f'', lc_format = ''hello'', lc_expand = (\<lambda>s. s)\<rparr>"

lemma demo_open: "open_works demo_env"
proof -
  have "m (Max (insert 9 (dom m)) + 1) = None" if "finite (dom m)" for m :: "int \<rightharpoonup> string"
  proof (rule ccontr)
    assume "m (Max (insert 9 (dom m)) + 1) \<noteq> None"
    then have "Max (insert 9 (dom m)) + 1 \<le> Max (insert 9 (dom m))" using that by (intro Max_ge) auto
    then show False by simp
  qed
  moreover have "Max (insert 9 (dom m)) + 1 \<noteq> - 1" if "finite (dom m)" for m :: "int \<rightharpoonup> string"
  proof -
    have "9 \<le> Max (insert 9 (dom m))" using that by simp
    then show ?thesis by linarith
  qed
  ultimately show ?thesis by (simp add: open_works_def demo_env_def)
qed

lemma demo_date: "date_text \<lparr>tm_year = 124, tm_mon = 0, tm_mday = 2\<rparr> = ''2024-01-02''"
  by code_simp

lemmas demo_log_simps = demo_log_def demo_env_def demo_call_def log_settled_def log_short_def slot_current_def
  slot_def log_text_def log_line_def log_tags_def log_levels level_to_str_def log_path_def calendar_def demo_date

lemma log_line_placed_witness:
  "\<exists>st'. LOG demo_env (demo_call 3) (demo_log\<lparr>log_thread := 1\<rparr>) = Some (Inr st') \<and>
     log_lines st' =
       [(''./log/2024-01-02_ERRO.log'', ''[ERRO] [a.c:1:f] hello [tid: 7] [errmsg:Success]'' @ [CHR 0x0A])]"
proof -
  have "nat_str 7 = ''7''" by code_simp
  then show ?thesis
    using log_line_placed [of "demo_log\<lparr>log_thread := 1\<rparr>" demo_env "demo_call 3"] demo_open
    by (simp add: demo_log_simps) blast
qed

text \<open>
  A level's file changes exactly with the local day, since no two dates of the calendar print alike.
\<close>

theorem rotates_with_the_day:
  assumes "log_settled st" and "0 \<le> level" and "level \<le> 3" and "calendar (le_tm env)" and "calendar t"
    and "curr_date st = date_text t" and "open_works env" and "log_fd st ! slot st level \<noteq> -1"
  shows "if t = le_tm env then get_log_fd env level st = Inr (log_fd st ! slot st level, st)
    else \<exists>fd st'. get_log_fd env level st = Inr (fd, st') \<and> fresh_file env level st fd st'"
  using get_log_fd_eq [OF assms(1-4)] length_date [OF assms(5)] date_inj [OF assms(5,4)] assms(6-8)
  by (auto simp: open_works_def)

text \<open>At midnight the other levels keep yesterday's file: with separated logs one date is recorded for all
  levels, so the first call of a new day opens the new file of its own level only, and a call of
  another level whose file was open is appended to the old day's file.\<close>

theorem other_level_keeps_old_day:
  assumes st: "log_settled st" "log_isolate st = 1" and a: "log_short env st a" "0 \<le> lc_level a" "lc_level a \<le> 3"
    and b: "log_short env st b" "0 \<le> lc_level b" "lc_level b \<le> 3" and ab: "lc_level a \<noteq> lc_level b"
    and lev: "output_level st \<le> lc_level a" "output_level st \<le> lc_level b"
    and d: "calendar (le_tm env)" "length (curr_date st) = 10" and o: "open_works env"
    and cur: "slot_current st (lc_level a)" "slot_current st (lc_level b)"
    and fd: "log_fd st ! slot st (lc_level b) \<noteq> -1"
      "log_fd st ! slot st (lc_level b) \<noteq> log_fd st ! slot st (lc_level a)"
  shows "\<exists>st1 st2. LOG env a st = Some (Inr st1) \<and> LOG env b st1 = Some (Inr st2) \<and>
    log_lines st2 = log_lines st @
      [(log_path 1 (le_date env) (lc_level a), log_line env st a),
       (log_path 1 (curr_date st) (lc_level b), log_line env st b)]"
proof -
  let ?kb = "slot st (lc_level b)"
  have k: "?kb \<noteq> slot st (lc_level a)" using ab a b st(2) by (auto simp: slot_def)
  have open_b: "log_open st (log_fd st ! ?kb) = Some (log_path 1 (curr_date st) (lc_level b))"
    using cur(2) fd(1) st(2) by (simp add: slot_current_def)
  from LOG_current [OF st(1) a lev(1) d o cur(1)] obtain st1 where
    one: "LOG env a st = Some (Inr st1)"
      "log_lines st1 = log_lines st @ [(log_path 1 (le_date env) (lc_level a), log_line env st a)]"
    and st1: "log_settled st1" "log_thread st1 = log_thread st" "curr_date st1 = le_date env" "log_isolate st1 = 1"
      "output_level st1 \<le> lc_level b"
    and kept: "log_fd st1 ! ?kb = log_fd st ! ?kb"
      "log_open st1 (log_fd st ! ?kb) = Some (log_path 1 (curr_date st) (lc_level b))"
    using k fd(2) open_b st(2) lev(2) by auto
  have slot1: "slot st1 (lc_level b) = ?kb" using st(2) st1(4) by (simp add: slot_def)
  have "get_log_fd env (lc_level b) st1 = Inr (log_fd st ! ?kb, st1)"
    using get_log_fd_eq [OF st1(1) b(2,3) d(1)] st1(3) length_date [OF d(1)] o kept(1) fd(1)
    by (auto simp: slot1 open_works_def split: if_splits)
  have "log_line env st1 b = log_line env st b" "log_short env st1 b"
    using b(1) st1(2) by (simp_all add: log_line_def log_tags_def log_short_def)
  with LOG_line [OF st1(1) _ b(2,3) st1(5) \<open>get_log_fd env (lc_level b) st1 = _\<close> kept(2)] one show ?thesis by auto
qed

lemma other_level_keeps_old_day_witness:
  "\<exists>st1 st2. LOG demo_env (demo_call 1) demo_log = Some (Inr st1) \<and>
     LOG demo_env (demo_call 0) st1 = Some (Inr st2) \<and>
     map fst (log_lines st2) = [''./log/2024-01-02_INFO.log'', ''./log/2024-01-01_DBUG.log'']"
  using other_level_keeps_old_day [of demo_log demo_env "demo_call 1" "demo_call 0"] demo_open
  by (simp add: demo_log_simps) auto

text \<open>
  The first line of \<^verbatim>\<open>connect_with_client\<close>: the request as the client sent it goes through
  \<^verbatim>\<open>vsprintf\<close> into an array of 1024.
\<close>

definition request_log :: "int \<Rightarrow> int \<Rightarrow> string \<Rightarrow> log_call" where
  "request_log tid user_id data =
     \<lparr>lc_level = LOG_LEVEL_INFO, lc_place = ''thread.c:103:connect_with_client'',
      lc_format = ''thread %ld receive user %lu request : %s'',
      lc_expand = (\<lambda>f. sql_fmt f [Num tid, Num user_id, Str data])\<rparr>"

lemma sql_fmt_plain: "CHR ''%'' \<notin> set f \<Longrightarrow> sql_fmt (f @ g) args = f @ sql_fmt g args"
  by (induction f) auto

text \<open>C34: a long request overruns the stack: with the level at debug or info, logging a client's request of
  940 characters or more, which a message has room for, writes past the 1024 characters of
  \<^verbatim>\<open>print_log\<close>'s buffer, before the request is looked at.\<close>

theorem request_overflows_log:
  assumes "0 \<le> output_level st" and "output_level st \<le> 1" and "length (le_time env) = 19"
    and "CHR ''%'' \<notin> set (le_time env)" and "940 \<le> length data"
  shows "LOG_WITH_TIME env (request_log tid user_id data) st = Some (Inl OutOfBounds)"
proof -
  let ?c = "request_log tid user_id data" and ?g = "''thread %ld receive user %lu request : %s''"
  let ?pre = "''[INFO] [thread.c:103:connect_with_client] ['' @ le_time env @ ''] ''"
  let ?c' = "?c\<lparr>lc_format := ''['' @ le_time env @ ''] '' @ ?g\<rparr>"
  have set: "output_level st \<noteq> -1" using assms(1) by simp
  have len: "length (?pre @ ?g) < 512" using assms(3) by simp
  have fmt: "sql_fmt (?pre @ ?g) [Num tid, Num user_id, Str data] =
      ?pre @ sql_fmt ?g [Num tid, Num user_id, Str data]"
    using assms(4) by (intro sql_fmt_plain) simp
  have "1024 \<le> length (sql_fmt (?pre @ ?g) [Num tid, Num user_id, Str data])"
    unfolding fmt using assms(3,5) by simp
  then have "print_log env 1 (sql_fmt (?pre @ ?g) [Num tid, Num user_id, Str data]) st = Inl OutOfBounds"
    by (simp add: print_log_def strcpyR_def)
  moreover have "log_emit env ?c' st = print_log env 1 (sql_fmt (?pre @ ?g) [Num tid, Num user_id, Str data]) st"
    using len by (simp add: log_emit_def level_to_str_def strcpyR_def request_log_def log_levels)
  ultimately have "LOG env ?c' st = Some (Inl OutOfBounds)"
    using set assms(2) by (simp add: LOG_level request_log_def log_levels)
  then show ?thesis
    using set assms(2,3)
    by (simp add: LOG_WITH_TIME_def output_control_level strcpyR_def request_log_def log_levels)
qed

lemma request_overflows_log_witness:
  "LOG_WITH_TIME demo_env (request_log 7 1 (replicate 940 (CHR ''a''))) demo_log = Some (Inl OutOfBounds)"
  by (rule request_overflows_log) (simp_all add: demo_log_def demo_env_def)

end
