(* ===== verification/Messages.thy ===== *)
theory Messages
  imports ToolText TaskQueue
begin

text \<open>
  The messages the server sends: \<^verbatim>\<open>send_message\<close> of \<^verbatim>\<open>server/tool.c\<close> and the texts of its callers,
  as the UTF-8 bytes of the source. The token a message carries is made by \<^verbatim>\<open>generate_token\<close>, which
  the definitions take as the argument \<open>gen\<close>.
\<close>

definition utf8 :: "nat list \<Rightarrow> string" where
  "utf8 bs = map char_of bs"

datatype notice =
    ServerBusyRetry
  | InvalidPathRetry
  | SameNameHere
  | UploadDone
  | ServerError
  | NoSuchFile
  | SystemBusyRetry
  | EnterRightPath
  | DirNotEmpty
  | DeleteDone
  | NameInUse
  | CreateDone
  | BusyEnglish
  | IllegalEnglish
  | ChangeDone
  | ListingDone
  | QueryDone
  | RegisterError
  | AccountExists
  | RegisterDone
  | WrongPassword
  | Welcome
  | LoginAgain
  | InvalidCommand
  | ConnectionClosed

fun notice_text :: "notice \<Rightarrow> string" where
  "notice_text ServerBusyRetry = utf8
      [230, 156, 141, 229, 138, 161, 229, 153, 168, 231, 185, 129, 229, 191, 153,
       239, 188, 140, 232, 175, 183, 231, 168, 141, 229, 128, 153, 233, 135, 141,
       232, 175, 149]"
| "notice_text InvalidPathRetry = utf8
      [230, 151, 160, 230, 149, 136, 231, 154, 132, 232, 183, 175, 229, 190, 132,
       239, 188, 140, 232, 175, 183, 233, 135, 141, 232, 175, 149]"
| "notice_text SameNameHere = utf8
      [232, 175, 165, 231, 155, 174, 229, 189, 149, 228, 184, 139, 230, 156, 137,
       229, 144, 140, 229, 144, 141, 230, 150, 135, 228, 187, 182, 239, 188, 140,
       232, 175, 183, 230, 163, 128, 230, 159, 165]"
| "notice_text UploadDone = utf8
      [228, 184, 138, 228, 188, 160, 230, 136, 144, 229, 138, 159]"
| "notice_text ServerError = utf8
      [230, 156, 141, 229, 138, 161, 229, 153, 168, 233, 148, 153, 232, 175, 175]"
| "notice_text NoSuchFile = utf8
      [228, 184, 141, 229, 144, 136, 230, 179, 149, 231, 154, 132, 232, 183, 175,
       229, 190, 132, 230, 136, 150, 230, 150, 135, 228, 187, 182, 228, 184, 141,
       229, 173, 152, 229, 156, 168]"
| "notice_text SystemBusyRetry = utf8
      [231, 179, 187, 231, 187, 159, 231, 185, 129, 229, 191, 153, 239, 188, 140,
       232, 175, 183, 231, 168, 141, 229, 128, 153, 233, 135, 141, 232, 175, 149]"
| "notice_text EnterRightPath = utf8
      [232, 175, 183, 232, 190, 147, 229, 133, 165, 230, 173, 163, 231, 161, 174,
       232, 183, 175, 229, 190, 132]"
| "notice_text DirNotEmpty = utf8
      [230, 150, 135, 228, 187, 182, 229, 164, 185, 233, 157, 158, 231, 169, 186,
       239, 188, 140, 232, 175, 183, 230, 184, 133, 231, 169, 186, 229, 144, 142,
       233, 135, 141, 232, 175, 149]"
| "notice_text DeleteDone = utf8
      [229, 136, 160, 233, 153, 164, 230, 136, 144, 229, 138, 159]"
| "notice_text NameInUse = utf8
      [229, 189, 147, 229, 137, 141, 231, 155, 174, 229, 189, 149, 228, 184, 139,
       229, 183, 178, 230, 156, 137, 229, 144, 140, 229, 144, 141, 230, 150, 135,
       228, 187, 182]"
| "notice_text CreateDone = utf8
      [229, 136, 155, 229, 187, 186, 230, 136, 144, 229, 138, 159]"
| "notice_text BusyEnglish = ''server busy,please retry''"
| "notice_text IllegalEnglish = ''illegal path, please retry''"
| "notice_text ChangeDone = ''change success''"
| "notice_text ListingDone = utf8
      [230, 159, 165, 230, 137, 190, 229, 174, 140, 230, 136, 144]"
| "notice_text QueryDone = utf8
      [230, 159, 165, 232, 175, 162, 229, 174, 140, 230, 136, 144]"
| "notice_text RegisterError = utf8
      [230, 156, 141, 229, 138, 161, 229, 153, 168, 229, 135, 186, 233, 148, 153,
       239, 188, 140, 232, 175, 183, 231, 168, 141, 229, 128, 153, 233, 135, 141,
       232, 175, 149, 227, 128, 130]"
| "notice_text AccountExists = utf8
      [232, 180, 166, 230, 136, 183, 229, 183, 178, 229, 173, 152, 229, 156, 168,
       227, 128, 130]"
| "notice_text RegisterDone = utf8
      [230, 179, 168, 229, 134, 140, 230, 136, 144, 229, 138, 159, 239, 188, 129]"
| "notice_text WrongPassword = utf8
      [229, 184, 144, 229, 143, 183, 230, 136, 150, 229, 175, 134, 231, 160, 129,
       228, 184, 141, 230, 173, 163, 231, 161, 174, 239, 188, 140, 232, 175, 183,
       233, 135, 141, 232, 175, 149]"
| "notice_text Welcome = utf8
      [229, 175, 134, 231, 160, 129, 230, 173, 163, 231, 161, 174, 239, 188, 140,
       230, 172, 162, 232, 191, 142, 231, 153, 187, 229, 189, 149]"
| "notice_text LoginAgain = utf8
      [232, 175, 183, 233, 135, 141, 230, 150, 176, 231, 153, 187, 229, 189, 149]"
| "notice_text InvalidCommand = utf8
      [230, 151, 160, 230, 149, 136, 231, 154, 132, 229, 145, 189, 228, 187, 164]"
| "notice_text ConnectionClosed = utf8
      [232, 191, 158, 230, 142, 165, 229, 133, 179, 233, 151, 173]"

text \<open>
  \<^verbatim>\<open>send_message\<close>: the record is cleared first, so the command number is 0. \<^verbatim>\<open>strncpy\<close> of a text
  longer than the data field runs over it.
\<close>

definition send_message :: "(token_info \<Rightarrow> string option) \<Rightarrow> string \<Rightarrow> bool \<Rightarrow> token_info \<Rightarrow> trans_file res" where
  "send_message gen msg flag client_info =
     (if length msg \<le> 1024 then
        Inr \<lparr>tr_data = msg, tr_length = int (length msg), tr_command = 0, tr_flag = flag,
             tr_token = (if tk_user_id client_info \<noteq> 0
                         then case gen client_info of None \<Rightarrow> [] | Some jwt \<Rightarrow> jwt else [])\<rparr>
      else Inl OutOfBounds)"

text \<open>The message a notice makes.\<close>

definition notice_msg :: "(token_info \<Rightarrow> string option) \<Rightarrow> notice \<Rightarrow> bool \<Rightarrow> token_info \<Rightarrow> trans_file" where
  "notice_msg gen n flag tok =
     \<lparr>tr_data = notice_text n, tr_length = int (length (notice_text n)), tr_command = 0, tr_flag = flag,
      tr_token = (if tk_user_id tok \<noteq> 0 then case gen tok of None \<Rightarrow> [] | Some jwt \<Rightarrow> jwt else [])\<rparr>"

lemma length_notice: "length (notice_text n) \<le> 1024"
  by (cases n) (simp_all add: utf8_def)

lemma send_notice [simp]: "send_message gen (notice_text n) flag tok = Inr (notice_msg gen n flag tok)"
  by (simp add: send_message_def notice_msg_def length_notice)

end
