(* ===== verification/ClientText.thy ===== *)
theory ClientText
  imports Messages
begin

text \<open>
  The text functions of \<^verbatim>\<open>client/Tools.c\<close>. \<^verbatim>\<open>simplifyPath\<close>, \<^verbatim>\<open>reverseString\<close> and
  \<^verbatim>\<open>remove_space\<close> are the server's, character for character; the others are the client's own.
\<close>

subsection \<open>Copies of the server's functions\<close>

definition client_simplifyPath :: "string \<Rightarrow> string res" where
  "client_simplifyPath path = simplifyPath path"

definition client_reverseString :: "string \<Rightarrow> string" where
  "client_reverseString str = reverseString str"

definition client_remove_space :: "string \<Rightarrow> string res" where
  "client_remove_space argument = remove_space argument"

subsection \<open>\<^verbatim>\<open>trim\<close>\<close>

definition isspace :: "char \<Rightarrow> bool" where
  "isspace c \<longleftrightarrow> (let n = of_char c :: nat in n = 32 \<or> (9 \<le> n \<and> n \<le> 13))"

fun trim_front :: "string \<Rightarrow> string" where
  "trim_front [] = []"
| "trim_front (c # s) = (if isspace c then trim_front s else c # s)"

text \<open>\<open>e\<close> is the position \<open>end\<close> points to.\<close>

fun trim_end :: "string \<Rightarrow> nat \<Rightarrow> nat" where
  "trim_end s 0 = 0"
| "trim_end s (Suc e) = (if isspace (s ! Suc e) then trim_end s e else Suc e)"

definition trim :: "string \<Rightarrow> string" where
  "trim str =
     (let str = trim_front str
      in if str = [] then str else take (trim_end str (length str - 1) + 1) str)"

subsection \<open>\<^verbatim>\<open>get_file_name\<close>\<close>

text \<open>
  Unlike the server's, it puts a slash before the name, and asks \<^verbatim>\<open>calloc\<close> for one character less than
  \<^verbatim>\<open>strcpy\<close> writes: \<open>usable n\<close> is how much the allocator really grants for \<open>n\<close>.
\<close>

definition client_get_file_name :: "(nat \<Rightarrow> nat) \<Rightarrow> string \<Rightarrow> string res" where
  "client_get_file_name usable local_path =
     bindR (gfn_loop 1024 local_path 0 []) (\<lambda>temp.
     bindR (strcpyR 1024 (temp @ ''/'')) (\<lambda>temp.
     let i = length temp - 1
     in strcpyR (usable (i + 1)) (client_reverseString temp)))"

subsection \<open>\<^verbatim>\<open>getparameter\<close>\<close>

text \<open>\<^verbatim>\<open>strtok\<close> with one delimiter: the token and what is left for the next call.\<close>

definition strtok :: "string \<Rightarrow> char \<Rightarrow> (string \<times> string) option" where
  "strtok s d =
     (let s = dropWhile (\<lambda>c. c = d) s
      in if s = [] then None
         else Some (takeWhile (\<lambda>c. c \<noteq> d) s, drop 1 (dropWhile (\<lambda>c. c \<noteq> d) s)))"

definition missing_text :: string where
  "missing_text = utf8 [230, 178, 161, 230, 156, 137, 232, 166, 129, 230, 137, 190, 231, 154, 132, 229, 134,
     133, 229, 174, 185, 32, 10]"

text \<open>
  The result and the text in \<open>value\<close>, an array of \<open>cap\<close> cleared characters: a text that leaves no
  room for the terminator overruns it, at the latest when the callers print it. The configuration is
  None when the file cannot be opened.
\<close>

function gp_loop :: "string \<Rightarrow> nat \<Rightarrow> string \<Rightarrow> (int \<times> string) res" where
  "gp_loop key cap conf =
     (if conf = [] then bindR (strcpyR cap missing_text) (\<lambda>value. Inr (-1, value))
      else
        let (line, rest) = fgets_line 99 conf
        in case strtok line (CHR ''='') of
             None \<Rightarrow> Inl NullDeref
           | Some (line_key, line_rest) \<Rightarrow>
               if key = line_key then
                 (case strtok line_rest (CHR ''='') of
                    None \<Rightarrow> Inl NullDeref
                  | Some (line_value, _) \<Rightarrow> bindR (strcpyR cap line_value) (\<lambda>value. Inr (0, value)))
               else gp_loop key cap rest)"
  by pat_completeness auto
termination
proof (relation "measure (\<lambda>(_, _, conf). length conf)", goal_cases)
  case (2 key cap conf x line rest)
  then show ?case using fgets_line_progress [of conf 99] by (cases "fgets_line 99 conf") auto
qed simp

declare gp_loop.simps [simp del]

definition getparameter :: "string option \<Rightarrow> string \<Rightarrow> nat \<Rightarrow> (int \<times> string) res" where
  "getparameter conf key cap =
     (case conf of None \<Rightarrow> Inl NullDeref | Some s \<Rightarrow> gp_loop key cap s)"

subsection \<open>What they compute\<close>

lemma trim_front_dropWhile: "trim_front s = dropWhile isspace s"
  by (induction s) simp_all

lemma trim_end_spec:
  assumes "e < length s"
  shows "trim_end s e \<le> e \<and> (\<forall>j. trim_end s e < j \<and> j \<le> e \<longrightarrow> isspace (s ! j)) \<and>
    (trim_end s e = 0 \<or> \<not> isspace (s ! trim_end s e))"
  using assms by (induction e) (auto simp: le_Suc_eq)

text \<open>A text whose middle starts and ends with no space is stripped to it.\<close>

lemma trim_strip:
  assumes "\<forall>c\<in>set l. isspace c" and "\<forall>c\<in>set r. isspace c" and "m \<noteq> []"
    and "\<not> isspace (hd m)" and "\<not> isspace (last m)"
  shows "trim (l @ m @ r) = m"
proof -
  have front: "trim_front (l @ m @ r) = m @ r"
    using assms(1,3,4) by (cases m) (simp_all add: trim_front_dropWhile dropWhile_append2)
  let ?s = "m @ r" and ?e = "length (m @ r) - 1"
  let ?k = "trim_end ?s ?e"
  have e: "?e < length ?s" using assms(3) by simp
  note k = trim_end_spec [OF e]
  have last: "?s ! (length m - 1) = last m" using assms(3) by (simp add: nth_append last_conv_nth)
  have "\<not> ?k < length m - 1"
  proof
    assume "?k < length m - 1"
    then have "isspace (?s ! (length m - 1))" using k by simp
    then show False using last assms(5) by simp
  qed
  moreover have "\<not> length m - 1 < ?k"
  proof
    assume gt: "length m - 1 < ?k"
    then have "?s ! ?k = r ! (?k - length m)" "?k - length m < length r"
      using conjunct1 [OF k] assms(3) by (auto simp: nth_append)
    then have "isspace (?s ! ?k)" using assms(2) by simp
    then show False using gt k by simp
  qed
  ultimately have "?k = length m - 1" by simp
  then show ?thesis using assms(3) front by (simp add: trim_def)
qed

lemma client_file_name:
  assumes "length (base_name p) < 1023"
  shows "client_get_file_name usable p =
    (if length (base_name p) + 1 < usable (length (base_name p) + 1)
     then Inr (CHR ''/'' # base_name p) else Inl OutOfBounds)"
proof -
  let ?w = "takeWhile (\<lambda>c. c \<noteq> CHR ''/'') (rev p)"
  have base: "base_name p = rev ?w" by (simp add: base_name_def last_split_on)
  then have "gfn_loop 1024 p 0 [] = Inr ?w"
    using gfn_loop_eq [of 0 p "[]" 1024] assms by (simp add: Let_def)
  then show ?thesis
    using assms base
    by (simp add: client_get_file_name_def strcpyR_def client_reverseString_def reverseString_rev)
qed

lemma in_set_ne: "d \<notin> set w \<Longrightarrow> x \<in> set w \<Longrightarrow> x \<noteq> d"
  by auto

lemma strtok_token:
  "w \<noteq> [] \<Longrightarrow> d \<notin> set w \<Longrightarrow> strtok (w @ d # s) d = Some (w, s)"
  "w \<noteq> [] \<Longrightarrow> d \<notin> set w \<Longrightarrow> strtok w d = Some (w, [])"
proof -
  assume w: "w \<noteq> []" "d \<notin> set w"
  then have dw: "dropWhile (\<lambda>c. c = d) (w @ u) = w @ u" for u by (cases w) auto
  have tw: "takeWhile (\<lambda>c. c \<noteq> d) (w @ u) = w @ takeWhile (\<lambda>c. c \<noteq> d) u"
    "dropWhile (\<lambda>c. c \<noteq> d) (w @ u) = dropWhile (\<lambda>c. c \<noteq> d) u" for u
    using w(2) by (simp_all add: takeWhile_append2 dropWhile_append2 in_set_ne)
  show "strtok (w @ d # s) d = Some (w, s)" using w dw [of "d # s"] tw [of "d # s"] by (simp add: strtok_def)
  have nil: "dropWhile (\<lambda>c. c \<noteq> d) w = []" using w(2) unfolding dropWhile_eq_Nil_conv by auto
  have "length (dropWhile (\<lambda>c. c \<noteq> d) w) \<le> Suc 0" unfolding nil by simp
  then show "strtok w d = Some (w, [])" using w dw [of "[]"] tw(1) [of "[]"] by (simp add: strtok_def)
qed

end
