(* ===== verification/BfCodec.thy ===== *)
theory BfCodec
  imports Prelude BfTables "HOL-Library.Monad_Syntax"
begin

unbundle bit_operations_syntax

text \<open>
  The base-64 code of bcrypt salts and hashes: \<^verbatim>\<open>BF_safe_atoi64\<close>, \<^verbatim>\<open>BF_decode\<close>,
  \<^verbatim>\<open>BF_encode\<close> and \<^verbatim>\<open>BF_swap\<close> of \<^verbatim>\<open>bcrypt/crypt_blowfish.c\<close>. Words are kept in memory as four
  bytes; the code reads them as bytes.
\<close>

subsection \<open>The operations\<close>

text \<open>The macro makes its function return -1, None here, for a character outside the alphabet.\<close>

definition BF_safe_atoi64 :: "char \<Rightarrow> BF_word option" where
  "BF_safe_atoi64 src =
     (let tmp = of_char src - 0x20 :: BF_word
      in if 0x60 \<le> tmp then None
         else let tmp = ucast (BF_atoi64 ! unat tmp)
              in if 63 < tmp then None else Some tmp)"

text \<open>\<open>next_code\<close> is the macro applied to \<^verbatim>\<open>*sptr++\<close>; a text ends with a NUL, which is no code.\<close>

fun next_code :: "string \<Rightarrow> (BF_word \<times> string) option" where
  "next_code [] = None"
| "next_code (c # s) = map_option (\<lambda>w. (w, s)) (BF_safe_atoi64 c)"

text \<open>\<open>n\<close> is the number of bytes still to write, at least one.\<close>

function BF_decode :: "string \<Rightarrow> nat \<Rightarrow> byte list option" where
  "BF_decode sptr n = do {
     (c1, sptr) \<leftarrow> next_code sptr;
     (c2, sptr) \<leftarrow> next_code sptr;
     let d1 = ucast (push_bit 2 c1 OR drop_bit 4 (c2 AND 0x30));
     if n \<le> 1 then Some [d1]
     else do {
       (c3, sptr) \<leftarrow> next_code sptr;
       let d2 = ucast (push_bit 4 (c2 AND 0x0F) OR drop_bit 2 (c3 AND 0x3C));
       if n \<le> 2 then Some [d1, d2]
       else do {
         (c4, sptr) \<leftarrow> next_code sptr;
         let d3 = ucast (push_bit 6 (c3 AND 0x03) OR c4);
         if n \<le> 3 then Some [d1, d2, d3]
         else do {
           ds \<leftarrow> BF_decode sptr (n - 3);
           Some (d1 # d2 # d3 # ds)
         }
       }
     }
   }"
  by pat_completeness auto

termination
  by (relation "measure snd") auto

declare BF_decode.simps [simp del]

text \<open>The list holds the \<open>size\<close> bytes from \<^verbatim>\<open>src\<close> on; the loop is entered with one at least.\<close>

definition itoa :: "BF_word \<Rightarrow> char" where
  "itoa c = BF_itoa64 ! unat c"

fun BF_encode :: "byte list \<Rightarrow> string" where
  "BF_encode [] = []"
| "BF_encode [s1] =
     (let c1 = ucast s1
      in [itoa (drop_bit 2 c1), itoa (push_bit 4 (c1 AND 0x03))])"
| "BF_encode [s1, s2] =
     (let c1 = ucast s1; c2 = ucast s2
      in [itoa (drop_bit 2 c1), itoa (push_bit 4 (c1 AND 0x03) OR drop_bit 4 c2),
          itoa (push_bit 2 (c2 AND 0x0f))])"
| "BF_encode (s1 # s2 # s3 # src) =
     (let c1 = ucast s1; c2 = ucast s2; c3 = ucast s3
      in itoa (drop_bit 2 c1) # itoa (push_bit 4 (c1 AND 0x03) OR drop_bit 4 c2) #
         itoa (push_bit 2 (c2 AND 0x0f) OR drop_bit 6 c3) # itoa (c3 AND 0x3f) # BF_encode src)"

text \<open>The server runs on a little-endian machine: \<^verbatim>\<open>BF_swap\<close> reverses the bytes of each word.\<close>

definition swap_word :: "BF_word \<Rightarrow> BF_word" where
  "swap_word x =
     (let tmp = push_bit 16 x OR drop_bit 16 x
      in push_bit 8 (tmp AND 0x00FF00FF) OR (drop_bit 8 tmp AND 0x00FF00FF))"

definition BF_swap :: "BF_word list \<Rightarrow> BF_word list" where
  "BF_swap x = map swap_word x"

text \<open>Bytes and the words a little-endian machine reads from them.\<close>

fun words_of_bytes :: "byte list \<Rightarrow> BF_word list" where
  "words_of_bytes (b0 # b1 # b2 # b3 # bs) =
     (ucast b0 OR push_bit 8 (ucast b1) OR push_bit 16 (ucast b2) OR push_bit 24 (ucast b3)) #
     words_of_bytes bs"
| "words_of_bytes _ = []"

definition bytes_of_word :: "BF_word \<Rightarrow> byte list" where
  "bytes_of_word x = [ucast x, ucast (drop_bit 8 x), ucast (drop_bit 16 x), ucast (drop_bit 24 x)]"

definition bytes_of_words :: "BF_word list \<Rightarrow> byte list" where
  "bytes_of_words ws = concat (map bytes_of_word ws)"

subsection \<open>The alphabet\<close>

lemma atoi_itoa_table: "list_all (\<lambda>i. BF_safe_atoi64 (BF_itoa64 ! i) = Some (word_of_nat i)) [0..<64]"
  by code_simp

lemma atoi_itoa: "c < 64 \<Longrightarrow> BF_safe_atoi64 (itoa c) = Some c"
proof -
  assume "c < 64"
  then have "unat c < 64" by (simp add: word_less_nat_alt)
  then show ?thesis using atoi_itoa_table by (simp add: itoa_def list_all_iff)
qed

lemma next_code_itoa: "c < 64 \<Longrightarrow> next_code (itoa c # s) = Some (c, s)"
  by (simp add: atoi_itoa)

subsection \<open>The round trip\<close>

declare push_bit_and [simp del] drop_bit_and [simp del] push_bit_or [simp del] drop_bit_or [simp del]

text \<open>A word is below a power of two when its upper bits are clear.\<close>

lemma below_64: "(\<And>n. 6 \<le> n \<Longrightarrow> \<not> bit c n) \<Longrightarrow> c < 64" for c :: BF_word
proof -
  assume "\<And>n. 6 \<le> n \<Longrightarrow> \<not> bit c n"
  then have "take_bit 6 c = c" by (intro bit_word_eqI) (auto simp: bit_take_bit_iff not_less intro: leI)
  then show ?thesis using and_mask_less' [of 6 c] by (simp add: take_bit_eq_mask)
qed

lemma mask_folds:
  "(0x03 :: BF_word) = mask 2" "(0x0F :: BF_word) = mask 4" "(0x3f :: BF_word) = mask 6"
  "(0x30 :: BF_word) = push_bit 4 (mask 2)" "(0x3C :: BF_word) = push_bit 2 (mask 4)"
  "(0x00FF00FF :: BF_word) = mask 8 OR push_bit 16 (mask 8)"
  by (simp_all add: mask_eq_exp_minus_1 push_bit_eq_mult)

lemma bit_byte: "bit (b :: byte) n \<Longrightarrow> n < 8" and bit_word: "bit (w :: BF_word) n \<Longrightarrow> n < 32"
  by (drule bit_imp_le_length, simp)+

lemma suc_suc_minus: "2 \<le> n \<Longrightarrow> Suc (Suc (n - 2)) = n" "\<not> n < 2 \<Longrightarrow> Suc (Suc (n - 2)) = n"
  by simp_all

lemma sextets:
  "drop_bit 2 (ucast s1) < (64 :: BF_word)"
  "push_bit 4 (ucast s1 AND 0x03) < (64 :: BF_word)"
  "push_bit 4 (ucast s1 AND 0x03) OR drop_bit 4 (ucast s2) < (64 :: BF_word)"
  "push_bit 2 (ucast s2 AND 0x0f) < (64 :: BF_word)"
  "push_bit 2 (ucast s2 AND 0x0f) OR drop_bit 6 (ucast s3) < (64 :: BF_word)"
  "ucast s3 AND 0x3f < (64 :: BF_word)" for s1 s2 s3 :: byte
  unfolding mask_folds by (rule below_64; auto simp: bit_simps dest: bit_byte)+

lemma bytes_back:
  fixes s1 s2 s3 :: byte
  shows "ucast (push_bit 2 (drop_bit 2 (ucast s1)) OR
      drop_bit 4 (push_bit 4 (ucast s1 AND 0x03) AND 0x30) :: BF_word) = s1"
    and "ucast (push_bit 2 (drop_bit 2 (ucast s1)) OR
      drop_bit 4 ((push_bit 4 (ucast s1 AND 0x03) OR drop_bit 4 (ucast s2)) AND 0x30) :: BF_word) = s1"
    and "ucast (push_bit 4 ((push_bit 4 (ucast s1 AND 0x03) OR drop_bit 4 (ucast s2)) AND 0x0F) OR
      drop_bit 2 (push_bit 2 (ucast s2 AND 0x0f) AND 0x3C) :: BF_word) = s2"
    and "ucast (push_bit 4 ((push_bit 4 (ucast s1 AND 0x03) OR drop_bit 4 (ucast s2)) AND 0x0F) OR
      drop_bit 2 ((push_bit 2 (ucast s2 AND 0x0f) OR drop_bit 6 (ucast s3)) AND 0x3C) :: BF_word) = s2"
    and "ucast (push_bit 6 ((push_bit 2 (ucast s2 AND 0x0f) OR drop_bit 6 (ucast s3)) AND 0x03) OR
      (ucast s3 AND 0x3f) :: BF_word) = s3"
  unfolding mask_folds by (rule bit_word_eqI; auto simp: bit_simps suc_suc_minus dest: bit_byte)+

lemma decode_encode:
  "bs \<noteq> [] \<Longrightarrow> BF_decode (BF_encode bs @ rest) (length bs) = Some bs"
proof (induction bs rule: BF_encode.induct)
  case (4 s1 s2 s3 src)
  then show ?case
    by (cases "src = []") (subst BF_decode.simps; simp add: Let_def atoi_itoa sextets bytes_back)+
qed (subst BF_decode.simps; simp add: Let_def atoi_itoa sextets bytes_back)+

lemma length_encode: "length (BF_encode bs) = (4 * length bs + 2) div 3"
  by (induction bs rule: BF_encode.induct) (auto simp: Let_def)

lemma itoa_alphabet: "c < 64 \<Longrightarrow> itoa c \<in> set BF_itoa64"
  by (simp add: itoa_def word_less_nat_alt)

lemma encode_alphabet: "set (BF_encode bs) \<subseteq> set BF_itoa64"
  by (induction bs rule: BF_encode.induct) (simp_all add: Let_def itoa_alphabet sextets)

subsection \<open>Words and bytes\<close>

lemma bytes_of_words_of_bytes:
  "length bs mod 4 = 0 \<Longrightarrow> bytes_of_words (words_of_bytes bs) = bs"
proof (induction bs rule: words_of_bytes.induct)
  case (1 b0 b1 b2 b3 bs)
  have "bytes_of_word (ucast b0 OR push_bit 8 (ucast b1) OR push_bit 16 (ucast b2) OR push_bit 24 (ucast b3))
    = [b0, b1, b2, b3]"
    unfolding bytes_of_word_def
    by (simp, intro conjI; rule bit_word_eqI; auto simp: bit_simps dest: bit_byte)
  with 1 show ?case by (simp add: bytes_of_words_def)
qed (auto simp: bytes_of_words_def)

lemma words_of_bytes_of_words: "words_of_bytes (bytes_of_words ws) = ws"
proof (induction ws)
  case (Cons w ws)
  have "ucast (ucast w :: byte) OR push_bit 8 (ucast (ucast (drop_bit 8 w) :: byte)) OR
      push_bit 16 (ucast (ucast (drop_bit 16 w) :: byte)) OR push_bit 24 (ucast (ucast (drop_bit 24 w) :: byte)) = w"
    (is "?l = w")
  proof (rule bit_word_eqI)
    fix n :: nat
    show "bit ?l n = bit w n"
      by (cases "24 \<le> n"; cases "16 \<le> n") (auto simp: bit_simps not_less le_diff_conv2 dest: bit_word)
  qed
  with Cons show ?case by (simp add: bytes_of_words_def bytes_of_word_def)
qed (simp add: bytes_of_words_def)

lemma swap_word_bytes: "bytes_of_word (swap_word x) = rev (bytes_of_word x)"
  unfolding bytes_of_word_def swap_word_def Let_def mask_folds
  by (simp, intro conjI; rule bit_word_eqI; auto simp: bit_simps dest: bit_word)

lemma swap_word_involution: "swap_word (swap_word x) = x"
proof -
  have "bytes_of_words [swap_word (swap_word x)] = bytes_of_words [x]"
    by (simp add: bytes_of_words_def swap_word_bytes)
  then show ?thesis by (metis words_of_bytes_of_words list.inject)
qed

text \<open>The 16 bytes of a salt are read back from its 22 characters: the first of the two uses of the code.\<close>

interpretation salt_text: codec BF_encode
  "\<lambda>s. case BF_decode s 16 of None \<Rightarrow> Inl () | Some bs \<Rightarrow> Inr bs" "\<lambda>bs. length bs = 16"
proof unfold_locales
  fix bs :: "byte list"
  assume "length bs = 16"
  moreover from this have "bs \<noteq> []" by auto
  ultimately show "(case BF_decode (BF_encode bs) 16 of None \<Rightarrow> Inl () | Some bs \<Rightarrow> Inr bs) = Inr bs"
    using decode_encode [of bs "[]"] by simp
qed

lemma salts_faithful: "length bs = 16 \<Longrightarrow> length bs' = 16 \<Longrightarrow> BF_encode bs = BF_encode bs' \<longleftrightarrow> bs = bs'"
  by (rule salt_text.enc_inj)

subsection \<open>Properties\<close>

text \<open>C22: the base-64 code of salts and hashes loses nothing: for every non-empty byte string \<^verbatim>\<open>BF_decode\<close> gives back
  what \<^verbatim>\<open>BF_encode\<close> was given, whatever follows the codes in the text; the codes are of the alphabet
  and one is written for every six bits begun.\<close>

theorem encode_decode:
  assumes "bs \<noteq> []"
  shows "BF_decode (BF_encode bs @ rest) (length bs) = Some bs \<and> set (BF_encode bs) \<subseteq> set BF_itoa64 \<and>
    length (BF_encode bs) = (4 * length bs + 2) div 3"
  using decode_encode [OF assms] encode_alphabet length_encode by simp

lemma encode_decode_witness:
  "BF_decode (BF_encode [0xff, 0, 0x61, 0x80] @ ''tail'') 4 = Some [0xff, 0, 0x61, 0x80]"
proof -
  let ?bs = "[0xff, 0, 0x61, 0x80] :: byte list"
  have "?bs \<noteq> []" "length ?bs = 4" by simp_all
  then show ?thesis using encode_decode [of ?bs "''tail''"] by metis
qed

end
