(* ===== verification/BfCipher.thy ===== *)
theory BfCipher
  imports BfTables
begin

unbundle bit_operations_syntax

text \<open>
  The Blowfish cipher of \<^verbatim>\<open>bcrypt/crypt_blowfish.c\<close>: the macros \<^verbatim>\<open>BF_ROUND\<close> (as \<^verbatim>\<open>BF_SCALE\<close>
  selects it on the server's platform), \<^verbatim>\<open>BF_ENCRYPT\<close> and \<^verbatim>\<open>BF_body\<close>, and the key schedule
  \<^verbatim>\<open>BF_set_key\<close>. The cipher is compared with the textbook Feistel network and shown to be
  invertible; the schedule with the cyclic big-endian reading of the key.
\<close>

subsection \<open>The cipher\<close>

text \<open>\<^verbatim>\<open>BF_ctx\<close>: the S-boxes as one block of memory, \<^verbatim>\<open>S[i][j]\<close> at \<open>256 * i + j\<close>.\<close>

record BF_ctx =
  bf_S :: "BF_word list"
  bf_P :: "BF_word list"

text \<open>The macros change \<open>R\<close> and the pair of halves; the definitions return the new values.\<close>

definition BF_ROUND :: "BF_ctx \<Rightarrow> BF_word \<Rightarrow> BF_word \<Rightarrow> nat \<Rightarrow> BF_word" where
  "BF_ROUND ctx L R N =
     (let tmp1 = L AND 0xFF;
          tmp2 = drop_bit 8 L;
          tmp2 = tmp2 AND 0xFF;
          tmp3 = drop_bit 16 L;
          tmp3 = tmp3 AND 0xFF;
          tmp4 = drop_bit 24 L;
          tmp1 = bf_S ctx ! (256 * 3 + unat tmp1);
          tmp2 = bf_S ctx ! (256 * 2 + unat tmp2);
          tmp3 = bf_S ctx ! (256 * 1 + unat tmp3);
          tmp3 = tmp3 + bf_S ctx ! unat tmp4;
          tmp3 = tmp3 XOR tmp2;
          R = R XOR bf_P ctx ! (N + 1);
          tmp3 = tmp3 + tmp1
      in R XOR tmp3)"

definition BF_ENCRYPT :: "BF_ctx \<Rightarrow> BF_word \<times> BF_word \<Rightarrow> BF_word \<times> BF_word" where
  "BF_ENCRYPT ctx = (\<lambda>(L, R).
     let L = L XOR bf_P ctx ! 0;
         R = BF_ROUND ctx L R 0;
         L = BF_ROUND ctx R L 1;
         R = BF_ROUND ctx L R 2;
         L = BF_ROUND ctx R L 3;
         R = BF_ROUND ctx L R 4;
         L = BF_ROUND ctx R L 5;
         R = BF_ROUND ctx L R 6;
         L = BF_ROUND ctx R L 7;
         R = BF_ROUND ctx L R 8;
         L = BF_ROUND ctx R L 9;
         R = BF_ROUND ctx L R 10;
         L = BF_ROUND ctx R L 11;
         R = BF_ROUND ctx L R 12;
         L = BF_ROUND ctx R L 13;
         R = BF_ROUND ctx L R 14;
         L = BF_ROUND ctx R L 15;
         tmp4 = R;
         R = L;
         L = tmp4 XOR bf_P ctx ! 17
     in (L, R))"

text \<open>
  \<^verbatim>\<open>BF_body\<close>: the running block goes through the round keys and then through the S-boxes, two
  words at a time, each encrypted under the tables written so far. \<open>ptr\<close> counts words from the
  table's start.
\<close>

function body_P :: "nat \<Rightarrow> BF_word \<times> BF_word \<Rightarrow> BF_ctx \<Rightarrow> (BF_word \<times> BF_word) \<times> BF_ctx" where
  "body_P ptr LR ctx =
     (let ptr = ptr + 2;
          (L, R) = BF_ENCRYPT ctx LR;
          ctx = ctx\<lparr>bf_P := (bf_P ctx)[ptr - 2 := L, ptr - 1 := R]\<rparr>
      in if ptr < 18 then body_P ptr (L, R) ctx else ((L, R), ctx))"
  by pat_completeness auto

termination
  by (relation "measure (\<lambda>(ptr, _). 18 - ptr)") auto

function body_S :: "nat \<Rightarrow> BF_word \<times> BF_word \<Rightarrow> BF_ctx \<Rightarrow> (BF_word \<times> BF_word) \<times> BF_ctx" where
  "body_S ptr LR ctx =
     (let ptr = ptr + 2;
          (L, R) = BF_ENCRYPT ctx LR;
          ctx = ctx\<lparr>bf_S := (bf_S ctx)[ptr - 2 := L, ptr - 1 := R]\<rparr>
      in if ptr < 1023 then body_S ptr (L, R) ctx else ((L, R), ctx))"
  by pat_completeness auto

termination
  by (relation "measure (\<lambda>(ptr, _). 1023 - ptr)") auto

declare body_P.simps [simp del] body_S.simps [simp del]

definition BF_body :: "BF_ctx \<Rightarrow> BF_ctx" where
  "BF_body ctx = (let (LR, ctx) = body_P 0 (0, 0) ctx in snd (body_S 0 LR ctx))"

subsection \<open>The key schedule\<close>

text \<open>\<open>ptr\<close> is the position in the key; the key ends with a NUL, at which the pointer goes back.\<close>

definition key_char :: "string \<Rightarrow> nat \<Rightarrow> char" where
  "key_char key ptr = (if ptr < length key then key ! ptr else NUL)"

definition sk_char :: "string \<Rightarrow> nat \<Rightarrow> nat \<times> BF_word \<times> BF_word \<times> BF_word \<Rightarrow>
    nat \<times> BF_word \<times> BF_word \<times> BF_word" where
  "sk_char key j = (\<lambda>(ptr, tmp0, tmp1, sign).
     let c = of_char (key_char key ptr) :: byte;
         tmp0 = push_bit 8 tmp0 OR ucast c;
         tmp1 = push_bit 8 tmp1 OR scast c;
         sign = (if j \<noteq> 0 then sign OR (tmp1 AND 0x80) else sign);
         ptr = (if c = 0 then 0 else ptr + 1)
     in (ptr, tmp0, tmp1, sign))"

definition sk_word :: "string \<Rightarrow> nat \<Rightarrow> nat \<Rightarrow> nat \<times> BF_word \<times> BF_word \<times> BF_word list \<times> BF_word list \<Rightarrow>
    nat \<times> BF_word \<times> BF_word \<times> BF_word list \<times> BF_word list" where
  "sk_word key bug i = (\<lambda>(ptr, sign, diff, expanded, initial).
     let (ptr, tmp0, tmp1, sign) = fold (sk_char key) [0..<4] (ptr, 0, 0, sign);
         diff = diff OR (tmp0 XOR tmp1);
         tmp = (if bug = 0 then tmp0 else tmp1)
     in (ptr, sign, diff, expanded @ [tmp], initial @ [BF_init_P ! i XOR tmp]))"

definition BF_set_key :: "string \<Rightarrow> byte \<Rightarrow> BF_word list \<times> BF_word list" where
  "BF_set_key key flags =
     (let bug = unat (flags AND 1);
          safety = push_bit 15 (ucast flags AND 2) :: BF_word;
          (ptr, sign, diff, expanded, initial) = fold (sk_word key bug) [0..<18] (0, 0, 0, [], []);
          diff = diff OR drop_bit 16 diff;
          diff = diff AND 0xffff;
          diff = diff + 0xffff;
          sign = push_bit 9 sign;
          sign = sign AND (NOT diff AND safety)
      in (expanded, initial[0 := initial ! 0 XOR sign]))"

subsection \<open>The textbook network\<close>

text \<open>
  Blowfish as its designer states it: sixteen rounds, each with one round key, a swap after each,
  the last swap undone, and two keys for the output. \<open>keys\<close> are all eighteen in order.
\<close>

definition bf_F :: "BF_word list \<Rightarrow> BF_word \<Rightarrow> BF_word" where
  "bf_F S x =
     ((S ! unat (drop_bit 24 x) + S ! (256 + unat (drop_bit 16 x AND 0xFF)))
       XOR S ! (512 + unat (drop_bit 8 x AND 0xFF))) + S ! (768 + unat (x AND 0xFF))"

fun feistel :: "(BF_word \<Rightarrow> BF_word) \<Rightarrow> BF_word list \<Rightarrow> BF_word \<times> BF_word \<Rightarrow> BF_word \<times> BF_word" where
  "feistel F [] LR = LR"
| "feistel F (k # ks) (L, R) = feistel F ks (R XOR F (L XOR k), L XOR k)"

definition blowfish :: "BF_word list \<Rightarrow> BF_word list \<Rightarrow> BF_word \<times> BF_word \<Rightarrow> BF_word \<times> BF_word" where
  "blowfish S keys LR =
     (let (L, R) = feistel (bf_F S) (take 16 keys) LR
      in (R XOR keys ! 17, L XOR keys ! 16))"

subsection \<open>The cipher is the textbook network\<close>

text \<open>The macro sequence as a loop over the round numbers.\<close>

definition bf_rounds :: "BF_ctx \<Rightarrow> nat \<Rightarrow> BF_word \<times> BF_word \<Rightarrow> BF_word \<times> BF_word" where
  "bf_rounds ctx n = fold (\<lambda>N (A, B). (BF_ROUND ctx A B N, A)) [0..<n]"

lemma BF_ENCRYPT_rounds:
  "BF_ENCRYPT ctx (L, R) = (let (A, B) = bf_rounds ctx 16 (L XOR bf_P ctx ! 0, R) in (B XOR bf_P ctx ! 17, A))"
proof -
  have "[0..<16] = [0, 1, 2, 3, 4, 5, 6, 7, 8, 9, 10, 11, 12, 13, 14, 15 :: nat]" by (simp add: upt_rec)
  then show ?thesis
    by (simp only: BF_ENCRYPT_def bf_rounds_def fold_simps prod.case Let_def)
qed

lemma BF_ROUND_F: "BF_ROUND ctx L R N = (R XOR bf_P ctx ! (N + 1)) XOR bf_F (bf_S ctx) L"
  by (simp add: BF_ROUND_def bf_F_def Let_def add.commute xor.commute)

lemma feistel_append:
  "feistel F (ks @ [k]) LR = (let (L, R) = feistel F ks LR in (R XOR F (L XOR k), L XOR k))"
  by (induction F ks LR rule: feistel.induct) auto

lemma rounds_feistel:
  "feistel (bf_F (bf_S ctx)) (map ((!) (bf_P ctx)) [0..<Suc n]) (L, R) =
   (let (A, B) = bf_rounds ctx n (L XOR bf_P ctx ! 0, R) in (B XOR bf_F (bf_S ctx) A, A))"
proof (induction n)
  case 0
  then show ?case by (simp add: bf_rounds_def)
next
  case (Suc n)
  obtain A B where ab: "bf_rounds ctx n (L XOR bf_P ctx ! 0, R) = (A, B)" by fastforce
  have "map ((!) (bf_P ctx)) [0..<Suc (Suc n)] = map ((!) (bf_P ctx)) [0..<Suc n] @ [bf_P ctx ! Suc n]" by simp
  then have "feistel (bf_F (bf_S ctx)) (map ((!) (bf_P ctx)) [0..<Suc (Suc n)]) (L, R) =
    (let A' = (B XOR bf_F (bf_S ctx) A) XOR bf_P ctx ! Suc n in (A XOR bf_F (bf_S ctx) A', A'))"
    using Suc ab by (simp only: feistel_append) (simp add: Let_def)
  moreover have "bf_rounds ctx (Suc n) (L XOR bf_P ctx ! 0, R) = (BF_ROUND ctx A B n, A)"
    using ab by (simp add: bf_rounds_def)
  ultimately show ?case by (simp add: BF_ROUND_F Let_def xor.assoc xor.commute xor.left_commute)
qed

lemma BF_ENCRYPT_blowfish:
  assumes "length (bf_P ctx) = 18"
  shows "BF_ENCRYPT ctx LR = blowfish (bf_S ctx) (bf_P ctx) LR"
proof -
  obtain L R where LR: "LR = (L, R)" by fastforce
  obtain A B where ab: "bf_rounds ctx 15 (L XOR bf_P ctx ! 0, R) = (A, B)" by fastforce
  have "[0..<16] = [0..<15] @ [15::nat]" by (simp add: upt_rec)
  then have "bf_rounds ctx 16 (L XOR bf_P ctx ! 0, R) = (BF_ROUND ctx A B 15, A)"
    using ab by (simp add: bf_rounds_def)
  moreover have "take 16 (bf_P ctx) = map ((!) (bf_P ctx)) [0..<Suc 15]"
    using assms by (intro nth_equalityI) (simp_all del: upt_Suc)
  ultimately show ?thesis
    using rounds_feistel [of ctx 15 L R] ab
    by (simp add: LR BF_ENCRYPT_rounds blowfish_def BF_ROUND_F xor.assoc xor.commute xor.left_commute del: upt_Suc)
qed

subsection \<open>The cipher is invertible\<close>

lemma feistel_back:
  "feistel F ks (L0, R0) = (L, R) \<Longrightarrow>
   feistel F (rev (drop 2 (ks @ [a, b]))) (R XOR b, L XOR a) =
     (R0 XOR (ks @ [a, b]) ! 1, L0 XOR (ks @ [a, b]) ! 0)"
proof (induction ks arbitrary: L R a b rule: rev_induct)
  case (snoc k ks)
  obtain L1 R1 where st: "feistel F ks (L0, R0) = (L1, R1)" by fastforce
  with snoc.prems have LR: "L = R1 XOR F (L1 XOR k)" "R = L1 XOR k" by (auto simp: feistel_append)
  have "drop 2 ((ks @ [k]) @ [a, b]) = drop 2 (ks @ [k, a]) @ [b]"
    by (cases ks; cases "tl ks") simp_all
  then have "feistel F (rev (drop 2 ((ks @ [k]) @ [a, b]))) (R XOR b, L XOR a) =
    feistel F (rev (drop 2 (ks @ [k, a]))) ((L XOR a) XOR F R, R)" by (simp add: xor.assoc)
  also have "(L XOR a) XOR F R = R1 XOR a" using LR by (simp add: xor.assoc xor.commute xor.left_commute)
  also have "feistel F (rev (drop 2 (ks @ [k, a]))) (R1 XOR a, R) =
    (R0 XOR (ks @ [k, a]) ! 1, L0 XOR (ks @ [k, a]) ! 0)" using snoc.IH [OF st, of k a] LR by simp
  also have "\<dots> = (R0 XOR ((ks @ [k]) @ [a, b]) ! 1, L0 XOR ((ks @ [k]) @ [a, b]) ! 0)"
    by (cases ks; cases "tl ks") (simp_all add: nth_append)
  finally show ?case .
qed simp

lemma blowfish_inverse:
  assumes "length keys = 18"
  shows "blowfish S (rev keys) (blowfish S keys LR) = LR"
proof -
  obtain L0 R0 where LR: "LR = (L0, R0)" by fastforce
  define ks where "ks = take 16 keys"
  have keys: "keys = ks @ [keys ! 16, keys ! 17]"
  proof -
    have "drop 16 keys = [keys ! 16, keys ! 17]"
      using assms by (intro nth_equalityI) (auto simp: less_Suc_eq numeral_2_eq_2)
    then show ?thesis by (metis ks_def append_take_drop_id)
  qed
  obtain L R where f: "feistel (bf_F S) ks (L0, R0) = (L, R)" by fastforce
  have "take 16 (rev keys) = rev (drop 2 keys)" using assms by (simp add: take_rev)
  moreover have "rev keys ! 17 = keys ! 0" "rev keys ! 16 = keys ! 1" using assms by (simp_all add: rev_nth)
  moreover have "feistel (bf_F S) (rev (drop 2 keys)) (R XOR keys ! 17, L XOR keys ! 16) =
      (R0 XOR keys ! 1, L0 XOR keys ! 0)"
    using feistel_back [OF f, of "keys ! 16" "keys ! 17"] keys by simp
  ultimately show ?thesis using f by (simp add: LR blowfish_def ks_def xor.assoc)
qed

subsection \<open>The key schedule\<close>

text \<open>The key as the schedule reads it: with its NUL, over and over, four bytes to a word.\<close>

definition key_byte :: "string \<Rightarrow> nat \<Rightarrow> byte" where
  "key_byte key m = of_char ((key @ [NUL]) ! (m mod Suc (length key)))"

definition key_word :: "string \<Rightarrow> nat \<Rightarrow> BF_word" where
  "key_word key i =
     push_bit 24 (ucast (key_byte key (4 * i))) OR push_bit 16 (ucast (key_byte key (4 * i + 1))) OR
     push_bit 8 (ucast (key_byte key (4 * i + 2))) OR ucast (key_byte key (4 * i + 3))"

definition ascii :: "string \<Rightarrow> bool" where
  "ascii key \<longleftrightarrow> (\<forall>c\<in>set key. \<not> bit (of_char c :: byte) 7)"

lemma key_char_mod: "of_char (key_char key (m mod Suc (length key))) = key_byte key m"
proof -
  have "m mod Suc (length key) < Suc (length key)" by simp
  then show ?thesis by (auto simp: key_char_def key_byte_def nth_append simp del: mod_less_divisor)
qed

lemma of_char_0: "(of_char c :: byte) = 0 \<longleftrightarrow> c = NUL"
proof -
  have "(of_char c :: nat) mod 256 < 256" by (rule mod_less_divisor) simp
  then have "unat (word_of_nat (of_char c) :: byte) = of_char c" by (simp add: unat_of_nat)
  then have "unat (of_char c :: byte) = of_char c" by (simp only: of_nat_of_char)
  moreover have "(of_char c :: byte) = 0 \<longleftrightarrow> unat (of_char c :: byte) = 0" by (simp add: unsigned_eq_0_iff)
  moreover have "(of_char c :: nat) = 0 \<longleftrightarrow> of_char c = (of_char NUL :: nat)" by simp
  ultimately show ?thesis by (simp only: of_char_eq_iff)
qed

lemma key_byte_0:
  assumes "cstr_ok key"
  shows "key_byte key m = 0 \<longleftrightarrow> m mod Suc (length key) = length key"
proof -
  have "m mod Suc (length key) < Suc (length key)" by simp
  with assms show ?thesis
    by (auto simp: key_byte_def of_char_0 nth_append cstr_ok_def simp del: mod_less_divisor)
      (metis less_antisym nth_mem)
qed

lemma key_next:
  assumes "cstr_ok key"
  shows "(if key_byte key m = 0 then 0 else m mod Suc (length key) + 1) = Suc m mod Suc (length key)"
  by (simp add: key_byte_0 [OF assms] mod_Suc)

lemma key_byte_ascii:
  assumes "ascii key"
  shows "\<not> bit (key_byte key m) 7"
proof -
  have "m mod Suc (length key) < Suc (length key)" by simp
  with assms show ?thesis
    by (auto simp: key_byte_def nth_append ascii_def less_Suc_eq simp del: mod_less_divisor)
qed

text \<open>The inner loop; for an ASCII key both readings agree and no sign extension is seen.\<close>

lemma scast_ascii:
  fixes b :: byte
  assumes "\<not> bit b 7"
  shows "(scast b :: BF_word) = ucast b"
proof (rule bit_word_eqI)
  fix n :: nat
  assume "n < LENGTH(32)"
  moreover have "bit b n \<Longrightarrow> n < 7" using assms bit_imp_le_length [of b n] by (cases "n = 7") auto
  ultimately show "bit (scast b :: BF_word) n = bit (ucast b :: BF_word) n"
    using assms by (auto simp: bit_simps min_def)
qed

lemma single_bits:
  "bit (0x80 :: int) n \<longleftrightarrow> n = 7" "bit (0x10000 :: int) n \<longleftrightarrow> n = 16" "bit (2 :: int) n \<longleftrightarrow> n = 1"
proof -
  have "bit ((2 :: int) ^ k) n \<longleftrightarrow> n = k" for k
    by (auto simp only: bit_exp_iff possible_bit_def) auto
  from this [of 7] this [of 16] this [of 1]
  show "bit (0x80 :: int) n \<longleftrightarrow> n = 7" "bit (0x10000 :: int) n \<longleftrightarrow> n = 16" "bit (2 :: int) n \<longleftrightarrow> n = 1"
    by simp_all
qed

lemma no_sign:
  fixes b :: byte
  assumes "\<not> bit b 7"
  shows "(push_bit 8 t OR ucast b) AND 0x80 = (0 :: BF_word)"
proof -
  show ?thesis using assms by (intro bit_word_eqI) (auto simp: bit_and_iff bit_or_iff bit_push_bit_iff bit_ucast_iff single_bits)
qed

lemma sk_chars:
  assumes key: "cstr_ok key"
  shows "\<exists>t1 sg. fold (sk_char key) [0..<n] (m mod Suc (length key), 0, 0, sign) =
      ((m + n) mod Suc (length key), fold (\<lambda>j t. push_bit 8 t OR ucast (key_byte key (m + j))) [0..<n] 0, t1, sg) \<and>
    (ascii key \<longrightarrow> t1 = fold (\<lambda>j t. push_bit 8 t OR ucast (key_byte key (m + j))) [0..<n] 0 \<and> sg = sign)"
proof (induction n)
  case (Suc n)
  let ?t = "fold (\<lambda>j t. push_bit 8 t OR ucast (key_byte key (m + j))) [0..<n] (0 :: BF_word)"
  let ?b = "key_byte key (m + n)"
  from Suc obtain t1 sg where st: "fold (sk_char key) [0..<n] (m mod Suc (length key), 0, 0, sign) =
      ((m + n) mod Suc (length key), ?t, t1, sg)" and a: "ascii key \<Longrightarrow> t1 = ?t \<and> sg = sign" by auto
  have "sk_char key n ((m + n) mod Suc (length key), ?t, t1, sg) =
    (Suc (m + n) mod Suc (length key), push_bit 8 ?t OR ucast ?b, push_bit 8 t1 OR scast ?b,
     if n \<noteq> 0 then sg OR ((push_bit 8 t1 OR scast ?b) AND 0x80) else sg)"
    unfolding sk_char_def prod.case Let_def key_char_mod key_next [OF key] ..
  then show ?case
    using st a key_byte_ascii [of key "m + n"] by (auto simp: scast_ascii no_sign)
qed simp

lemma sk_word_step:
  assumes key: "cstr_ok key"
  shows "\<exists>t1 sg d. sk_word key bug i ((4 * i) mod Suc (length key), sign, diff, ex, ini) =
      ((4 * Suc i) mod Suc (length key), sg, d, ex @ [if bug = 0 then key_word key i else t1],
       ini @ [BF_init_P ! i XOR (if bug = 0 then key_word key i else t1)]) \<and>
    (ascii key \<longrightarrow> t1 = key_word key i \<and> sg = sign \<and> d = diff)"
proof -
  let ?t = "\<lambda>n. fold (\<lambda>j t. push_bit 8 t OR ucast (key_byte key (4 * i + j))) [0..<n] (0 :: BF_word)"
  have "[0..<4] = [0, 1, 2, 3 :: nat]" by (simp add: upt_rec)
  then have kw: "?t 4 = key_word key i" by (simp add: key_word_def or.assoc push_bit_or)
  from sk_chars [OF key, of 4 "4 * i" sign] obtain t1 sg where
    "fold (sk_char key) [0..<4] ((4 * i) mod Suc (length key), 0, 0, sign) =
      ((4 * Suc i) mod Suc (length key), key_word key i, t1, sg)"
    and "ascii key \<longrightarrow> t1 = key_word key i \<and> sg = sign" unfolding kw by (auto simp: add.commute)
  then show ?thesis by (auto simp: sk_word_def Let_def)
qed

lemma sk_words:
  assumes key: "cstr_ok key"
  shows "\<exists>ws sg d. fold (sk_word key bug) [0..<n] (0, 0, 0, [], []) =
      ((4 * n) mod Suc (length key), sg, d, map ws [0..<n], map (\<lambda>i. BF_init_P ! i XOR ws i) [0..<n]) \<and>
    (bug = 0 \<or> ascii key \<longrightarrow> ws = key_word key) \<and> (ascii key \<longrightarrow> sg = 0 \<and> d = 0)"
proof (induction n)
  case 0
  show ?case by (intro exI [of _ "key_word key"] exI [of _ 0]) simp
next
  case (Suc n)
  then obtain ws sg d where st: "fold (sk_word key bug) [0..<n] (0, 0, 0, [], []) =
      ((4 * n) mod Suc (length key), sg, d, map ws [0..<n], map (\<lambda>i. BF_init_P ! i XOR ws i) [0..<n])"
    and b: "bug = 0 \<or> ascii key \<Longrightarrow> ws = key_word key" and a: "ascii key \<Longrightarrow> sg = 0 \<and> d = 0" by blast
  from sk_word_step [OF key, of bug n sg d "map ws [0..<n]" "map (\<lambda>i. BF_init_P ! i XOR ws i) [0..<n]"]
  obtain t1 sg' d' where step: "sk_word key bug n ((4 * n) mod Suc (length key), sg, d, map ws [0..<n],
        map (\<lambda>i. BF_init_P ! i XOR ws i) [0..<n]) =
      ((4 * Suc n) mod Suc (length key), sg', d', map ws [0..<n] @ [if bug = 0 then key_word key n else t1],
       map (\<lambda>i. BF_init_P ! i XOR ws i) [0..<n] @ [BF_init_P ! n XOR (if bug = 0 then key_word key n else t1)])"
    and a': "ascii key \<Longrightarrow> t1 = key_word key n \<and> sg' = sg \<and> d' = d" by blast
  let ?ws = "ws(n := if bug = 0 then key_word key n else t1)"
  have "map ?ws [0..<n] = map ws [0..<n]"
    "map (\<lambda>i. BF_init_P ! i XOR ?ws i) [0..<n] = map (\<lambda>i. BF_init_P ! i XOR ws i) [0..<n]" by auto
  with st step a a' b show ?case
    by (intro exI [of _ ?ws] exI [of _ sg'] exI [of _ d']) auto
qed

lemma set_key_reference:
  assumes key: "cstr_ok key" and "flags AND 1 = 0 \<or> ascii key"
  shows "\<exists>s \<in> {0, 0x10000}. BF_set_key key flags =
      (map (key_word key) [0..<18],
       (map (\<lambda>i. BF_init_P ! i XOR key_word key i) [0..<18]) [0 := BF_init_P ! 0 XOR key_word key 0 XOR s]) \<and>
    (flags AND 2 = 0 \<or> ascii key \<longrightarrow> s = 0)"
proof -
  let ?bug = "unat (flags AND 1)"
  from sk_words [OF key, of ?bug 18] obtain ws sg d where
    st: "fold (sk_word key ?bug) [0..<18] (0, 0, 0, [], []) =
      ((4 * 18) mod Suc (length key), sg, d, map ws [0..<18], map (\<lambda>i. BF_init_P ! i XOR ws i) [0..<18])"
    and "?bug = 0 \<or> ascii key \<Longrightarrow> ws = key_word key" and a: "ascii key \<Longrightarrow> sg = 0 \<and> d = 0" by blast
  with assms(2) have ws: "ws = key_word key" by auto
  define safety :: BF_word where "safety = push_bit 15 (ucast flags AND 2)"
  have s2: "safety = (if bit flags 1 then 0x10000 else 0)"
    unfolding safety_def
    by (rule bit_word_eqI)
      (auto simp: bit_and_iff bit_push_bit_iff bit_ucast_iff single_bits simp del: push_bit_and)
  have f2: "flags AND 2 = 0 \<longleftrightarrow> \<not> bit flags 1"
    using bit_iff_and_push_bit_not_eq_0 [of flags 1] by simp
  define s where "s = push_bit 9 sg AND (NOT (((d OR drop_bit 16 d) AND 0xffff) + 0xffff) AND safety)"
  have "z AND 0x10000 = (if bit z 16 then 0x10000 else 0)" for z :: BF_word
    by (rule bit_word_eqI) (auto simp: bit_and_iff single_bits)
  then have "s \<in> {0, 0x10000}"
    unfolding s_def s2 and.assoc [symmetric] by (simp split: if_split)
  moreover have "flags AND 2 = 0 \<or> ascii key \<longrightarrow> s = 0" using a s2 f2 by (auto simp: s_def)
  moreover have "BF_set_key key flags = (map (key_word key) [0..<18],
      (map (\<lambda>i. BF_init_P ! i XOR key_word key i) [0..<18]) [0 := BF_init_P ! 0 XOR key_word key 0 XOR s])"
    using st ws by (simp add: BF_set_key_def Let_def s_def safety_def xor.assoc)
  ultimately show ?thesis by blast
qed

text \<open>Only the first 72 bytes of a longer key are read.\<close>

lemma sk_char_cong:
  assumes "key_char key ptr = key_char key' ptr" and "key_char key ptr \<noteq> NUL"
  shows "sk_char key j (ptr, t0, t1, s) = sk_char key' j (ptr, t0, t1, s) \<and>
    fst (sk_char key j (ptr, t0, t1, s)) = Suc ptr"
  using assms by (simp add: sk_char_def Let_def of_char_0)

lemma sk_chars_prefix:
  assumes "\<forall>j<k. key_char key (m + j) = key_char key' (m + j) \<and> key_char key (m + j) \<noteq> NUL"
  shows "fold (sk_char key) [0..<k] (m, st) = fold (sk_char key') [0..<k] (m, st) \<and>
    fst (fold (sk_char key) [0..<k] (m, st)) = m + k"
  using assms
proof (induction k)
  case (Suc k)
  then have IH: "fold (sk_char key) [0..<k] (m, st) = fold (sk_char key') [0..<k] (m, st)"
    "fst (fold (sk_char key) [0..<k] (m, st)) = m + k" using less_SucI by blast+
  then obtain t0 t1 s where "fold (sk_char key') [0..<k] (m, st) = (m + k, t0, t1, s)"
    by (metis prod_cases4 fst_conv)
  moreover have "key_char key (m + k) = key_char key' (m + k)" "key_char key (m + k) \<noteq> NUL"
    using Suc.prems by auto
  ultimately show ?case using IH sk_char_cong [of key "m + k" key' k t0 t1 s] by auto
qed simp

lemma sk_words_prefix:
  assumes "take 72 key = take 72 key'" and "72 \<le> length key" and "72 \<le> length key'"
    and "cstr_ok key" and "n \<le> 18"
  shows "fold (sk_word key bug) [0..<n] (0, 0, 0, [], []) = fold (sk_word key' bug) [0..<n] (0, 0, 0, [], [])"
  using assms(5)
proof (induction n)
  case (Suc n)
  have same: "key_char key m = key_char key' m \<and> key_char key m \<noteq> NUL" if "m < 72" for m
  proof -
    have "key ! m = key' ! m" using that nth_take [of m 72 key] nth_take [of m 72 key'] assms(1) by simp
    moreover have "key ! m \<in> set key" using that assms(2) by simp
    ultimately show ?thesis using that assms(2-4) by (auto simp: key_char_def cstr_ok_def)
  qed
  obtain ws sg d where st: "fold (sk_word key bug) [0..<n] (0, 0, 0, [], []) =
      ((4 * n) mod Suc (length key), sg, d, map ws [0..<n], map (\<lambda>i. BF_init_P ! i XOR ws i) [0..<n])"
    using sk_words [OF assms(4)] by blast
  have "4 * n + 3 < 72" using Suc.prems by simp
  then have "(4 * n) mod Suc (length key) = 4 * n" using assms(2) by (intro mod_less) simp
  moreover have "fold (sk_char key) [0..<4] (4 * n, 0, 0, sg) = fold (sk_char key') [0..<4] (4 * n, 0, 0, sg)"
  proof -
    have "\<forall>j<4. key_char key (4 * n + j) = key_char key' (4 * n + j) \<and> key_char key (4 * n + j) \<noteq> NUL"
    proof (intro allI impI)
      fix j :: nat
      assume "j < 4"
      then have "4 * n + j < 72" using \<open>4 * n + 3 < 72\<close> by simp
      then show "key_char key (4 * n + j) = key_char key' (4 * n + j) \<and> key_char key (4 * n + j) \<noteq> NUL"
        by (rule same)
    qed
    from sk_chars_prefix [OF this] show ?thesis by simp
  qed
  ultimately have "sk_word key bug n (fold (sk_word key bug) [0..<n] (0, 0, 0, [], [])) =
    sk_word key' bug n (fold (sk_word key bug) [0..<n] (0, 0, 0, [], []))"
    unfolding st by (simp add: sk_word_def)
  with Suc show ?case by simp
qed simp

lemma set_key_prefix:
  assumes "take 72 key = take 72 key'" and "72 \<le> length key" and "72 \<le> length key'" and "cstr_ok key"
  shows "BF_set_key key flags = BF_set_key key' flags"
  unfolding BF_set_key_def Let_def using sk_words_prefix [OF assms, of 18 "unat (flags AND 1)"] by simp

subsection \<open>Properties\<close>

text \<open>C23: the unrolled macro \<^verbatim>\<open>BF_ENCRYPT\<close> computes textbook Blowfish under the tables of its context, for all
  tables and blocks, and so is invertible: Blowfish with the round keys in reverse order gives the
  block back.\<close>

theorem encrypt_is_blowfish:
  assumes "length (bf_P ctx) = 18"
  shows "BF_ENCRYPT ctx LR = blowfish (bf_S ctx) (bf_P ctx) LR \<and>
    blowfish (bf_S ctx) (rev (bf_P ctx)) (BF_ENCRYPT ctx LR) = LR"
  using BF_ENCRYPT_blowfish [OF assms] blowfish_inverse [OF assms] by simp

lemma encrypt_is_blowfish_witness:
  "blowfish BF_init_S (rev BF_init_P) (BF_ENCRYPT \<lparr>bf_S = BF_init_S, bf_P = BF_init_P\<rparr> (1, 2)) = (1, 2)"
proof -
  have "length (bf_P \<lparr>bf_S = BF_init_S, bf_P = BF_init_P\<rparr>) = 18" by simp
  from encrypt_is_blowfish [OF this, of "(1, 2)"] show ?thesis unfolding BF_ctx.simps by (rule conjunct2)
qed

text \<open>C24: the key schedule: unless the sign-extension bug is asked for, \<^verbatim>\<open>BF_set_key\<close> expands the key to the
  big-endian words of the key with its NUL read over and over, and xors them into the initial round
  keys, changing at most bit 16 of the first one, and that only for subtype a; for an ASCII key every
  subtype gives this schedule.\<close>

theorem set_key_schedule:
  assumes "cstr_ok key" and "flags AND 1 = 0 \<or> ascii key"
  shows "\<exists>s \<in> {0, 0x10000}. BF_set_key key flags =
      (map (key_word key) [0..<18],
       (map (\<lambda>i. BF_init_P ! i XOR key_word key i) [0..<18]) [0 := BF_init_P ! 0 XOR key_word key 0 XOR s]) \<and>
    (flags AND 2 = 0 \<or> ascii key \<longrightarrow> s = 0)"
  by (rule set_key_reference [OF assms])

lemma set_key_schedule_witness:
  "BF_set_key ''pw'' 1 = BF_set_key ''pw'' 2 \<and> fst (BF_set_key ''pw'' 1) ! 1 = key_word ''pw'' 1"
proof -
  have "cstr_ok ''pw''" "ascii ''pw''" by (simp_all add: cstr_ok_def ascii_def bit_simps)
  then show ?thesis using set_key_schedule [of "''pw''" 1] set_key_schedule [of "''pw''" 2] by auto
qed

text \<open>Of a password only the first 72 bytes count: keys that agree on them have the same schedule, whatever
  follows, so that they have the same hash.\<close>

theorem set_key_truncates:
  assumes "take 72 key = take 72 key'" and "72 \<le> length key" and "72 \<le> length key'" and "cstr_ok key"
  shows "BF_set_key key flags = BF_set_key key' flags"
  by (rule set_key_prefix [OF assms])

lemma set_key_truncates_witness:
  "BF_set_key (replicate 72 (CHR ''x'') @ ''one'') 4 = BF_set_key (replicate 72 (CHR ''x'') @ ''two'') 4"
  by (rule set_key_truncates) (simp_all add: cstr_ok_def)

end
