(* ===== verification/BfCrypt.thy ===== *)
theory BfCrypt
  imports BfCodec BfCipher "HOL-Library.Char_ord"
begin

unbundle bit_operations_syntax

text \<open>
  The password hash of \<^verbatim>\<open>bcrypt/crypt_blowfish.c\<close>: \<^verbatim>\<open>BF_crypt\<close>, \<^verbatim>\<open>_crypt_output_magic\<close>,
  \<^verbatim>\<open>_crypt_blowfish_rn\<close> with its self-test and \<^verbatim>\<open>_crypt_gensalt_blowfish_rn\<close>. A function that
  returns a null pointer and sets \<^verbatim>\<open>errno\<close> is a left value.
\<close>

datatype errno = EINVAL | ERANGE

subsection \<open>\<^verbatim>\<open>BF_crypt\<close>\<close>

text \<open>The first pass through the tables mixes in the salt, two words of it per block.\<close>

function salt_P :: "BF_word list \<Rightarrow> nat \<Rightarrow> BF_word \<times> BF_word \<Rightarrow> BF_ctx \<Rightarrow> (BF_word \<times> BF_word) \<times> BF_ctx" where
  "salt_P salt i LR ctx =
     (if i < 18 then
        let (L, R) = LR;
            L = L XOR salt ! (i AND 2);
            R = R XOR salt ! ((i AND 2) + 1);
            (L, R) = BF_ENCRYPT ctx (L, R)
        in salt_P salt (i + 2) (L, R) (ctx\<lparr>bf_P := (bf_P ctx)[i := L, i + 1 := R]\<rparr>)
      else (LR, ctx))"
  by pat_completeness auto

termination
  by (relation "measure (\<lambda>(_, i, _). 18 - i)") auto

function salt_S :: "BF_word list \<Rightarrow> nat \<Rightarrow> BF_word \<times> BF_word \<Rightarrow> BF_ctx \<Rightarrow> (BF_word \<times> BF_word) \<times> BF_ctx" where
  "salt_S salt ptr LR ctx =
     (let ptr = ptr + 4;
          (L, R) = LR;
          (L, R) = BF_ENCRYPT ctx (L XOR salt ! (18 AND 3), R XOR salt ! (19 AND 3));
          ctx = ctx\<lparr>bf_S := (bf_S ctx)[ptr - 4 := L, ptr - 3 := R]\<rparr>;
          (L, R) = BF_ENCRYPT ctx (L XOR salt ! (20 AND 3), R XOR salt ! (21 AND 3));
          ctx = ctx\<lparr>bf_S := (bf_S ctx)[ptr - 2 := L, ptr - 1 := R]\<rparr>
      in if ptr < 1023 then salt_S salt ptr (L, R) ctx else ((L, R), ctx))"
  by pat_completeness auto

termination
  by (relation "measure (\<lambda>(_, ptr, _). 1023 - ptr)") auto

declare salt_P.simps [simp del] salt_S.simps [simp del]

text \<open>One turn of the costly loop: the key into the round keys, a pass, the salt, a pass.\<close>

definition xor_P :: "BF_word list \<Rightarrow> BF_ctx \<Rightarrow> BF_ctx" where
  "xor_P ws ctx = ctx\<lparr>bf_P := map2 (\<lambda>p w. p XOR w) (bf_P ctx) ws\<rparr>"

definition bf_turn :: "BF_word list \<Rightarrow> BF_word list \<Rightarrow> BF_ctx \<Rightarrow> BF_ctx" where
  "bf_turn expanded salt ctx =
     (let ctx = xor_P expanded ctx;
          ctx = BF_body ctx;
          ctx = xor_P (map (\<lambda>i. salt ! (i mod 4)) [0..<18]) ctx
      in BF_body ctx)"

definition bf_output :: "BF_ctx \<Rightarrow> BF_word list" where
  "bf_output ctx = concat (map (\<lambda>i.
     let (L, R) = (BF_ENCRYPT ctx ^^ 64) (BF_magic_w ! i, BF_magic_w ! (i + 1)) in [L, R]) [0, 2, 4])"

text \<open>\<open>at\<close> reads a C string, with the NUL at its end.\<close>

definition at :: "string \<Rightarrow> nat \<Rightarrow> char" where
  "at s i = (if i < length s then s ! i else NUL)"

definition subtype_flags :: "char \<Rightarrow> byte" where
  "subtype_flags c = flags_by_subtype ! (of_char c - of_char (CHR ''a''))"

definition setting_ok :: "string \<Rightarrow> bool" where
  "setting_ok setting \<longleftrightarrow>
     \<not> (at setting 0 \<noteq> CHR ''$'' \<or>
        at setting 1 \<noteq> CHR ''2'' \<or>
        at setting 2 < CHR ''a'' \<or> CHR ''z'' < at setting 2 \<or>
        subtype_flags (at setting 2) = 0 \<or>
        at setting 3 \<noteq> CHR ''$'' \<or>
        at setting 4 < CHR ''0'' \<or> CHR ''3'' < at setting 4 \<or>
        at setting 5 < CHR ''0'' \<or> CHR ''9'' < at setting 5 \<or>
        (at setting 4 = CHR ''3'' \<and> CHR ''1'' < at setting 5) \<or>
        at setting 6 \<noteq> CHR ''$'')"

definition digit :: "char \<Rightarrow> nat" where
  "digit c = of_char c - of_char (CHR ''0'')"

definition setting_count :: "string \<Rightarrow> BF_word" where
  "setting_count setting = push_bit (digit (at setting 4) * 10 + digit (at setting 5)) 1"

text \<open>The hash proper: 24 bytes from the key, the salt's 16 bytes, the subtype and the count.\<close>

definition bf_hash :: "string \<Rightarrow> byte list \<Rightarrow> byte \<Rightarrow> nat \<Rightarrow> byte list" where
  "bf_hash key salt_bytes flags cost =
     (let salt = BF_swap (words_of_bytes salt_bytes);
          (expanded, initial) = BF_set_key key flags;
          ctx = \<lparr>bf_S = BF_init_S, bf_P = initial\<rparr>;
          (LR, ctx) = salt_P salt 0 (0, 0) ctx;
          (LR, ctx) = salt_S salt 0 LR ctx;
          ctx = (bf_turn expanded salt ^^ cost) ctx
      in bytes_of_words (BF_swap (bf_output ctx)))"

definition BF_crypt :: "string \<Rightarrow> string \<Rightarrow> int \<Rightarrow> BF_word \<Rightarrow> errno + string" where
  "BF_crypt key setting n min_count =
     (if n < 7 + 22 + 31 + 1 then Inl ERANGE
      else if \<not> setting_ok setting then Inl EINVAL
      else
        let count = setting_count setting
        in if count < min_count then Inl EINVAL
           else case BF_decode (drop 7 setting) 16 of
             None \<Rightarrow> Inl EINVAL
           | Some salt \<Rightarrow>
               let hash = bf_hash key salt (subtype_flags (at setting 2)) (unat count);
                   last = BF_atoi64 ! unat (of_char (at setting 28) - 0x20 :: BF_word) AND 0x30
               in Inr (take 28 setting @ [BF_itoa64 ! unat last] @ BF_encode (take 23 hash)))"

subsection \<open>The safe wrapper\<close>

text \<open>The invalid text that no hash equals: it differs from the setting in any case.\<close>

definition crypt_output_magic :: "string \<Rightarrow> string \<Rightarrow> int \<Rightarrow> int \<times> string" where
  "crypt_output_magic setting output n =
     (if n < 3 then (-1, output)
      else (0, if at setting 0 = CHR ''*'' \<and> at setting 1 = CHR ''0'' then ''*1'' else ''*0''))"

text \<open>
  The self-test. \<open>BF_crypt\<close> writes 61 cells of the 63 of the test buffer and leaves the two guard
  cells, so comparing its text with the expected one is the code's comparison.
\<close>

definition test_key :: string where
  "test_key = ''8b '' @ [CHR 0xd0, CHR 0xc1, CHR 0xd2, CHR 0xcf, CHR 0xcc, CHR 0xd8]"

definition test_setting :: string where
  "test_setting = ''$2a$00$abcdefghijklmnopqrstuu''"

definition test_hashes :: "string list" where
  "test_hashes = [''i1D709vfamulimlGcq0qq3UvuUasvEa'', ''VUrPmXD6q/nVSSp7pNDhCR9071IfIRe'']"

definition set_key_test :: bool where
  "set_key_test =
     (let k = [CHR 0xff, CHR 0xa3] @ ''34'' @ [CHR 0xff, CHR 0xff, CHR 0xff, CHR 0xa3] @ ''345'';
          (ae, ai) = BF_set_key k 2;
          (ye, yi) = BF_set_key k 4;
          ai = ai[0 := ai ! 0 XOR 0x10000]
      in ai ! 0 = 0xdb9c59bc \<and> ye ! 17 = 0x33343500 \<and> ae = ye \<and> ai = yi)"

definition crypt_self_test :: "char \<Rightarrow> nat \<Rightarrow> bool" where
  "crypt_self_test subtype hash_no =
     (let buf_s = test_setting[2 := subtype]
      in BF_crypt test_key buf_s 61 1 = Inr (take 29 buf_s @ test_hashes ! hash_no) \<and> set_key_test)"

text \<open>The pointer returned, None for null with \<^verbatim>\<open>errno\<close>, and the buffer's text.\<close>

definition crypt_blowfish_rn :: "string \<Rightarrow> string \<Rightarrow> string \<Rightarrow> int \<Rightarrow> (errno + string) \<times> string" where
  "crypt_blowfish_rn key setting output n =
     (let output = snd (crypt_output_magic setting output n);
          retval = BF_crypt key setting n 16;
          output = (case retval of Inl e \<Rightarrow> output | Inr h \<Rightarrow> h);
          ok = (case retval of
              Inl e \<Rightarrow> crypt_self_test (CHR ''a'') 0
            | Inr h \<Rightarrow> crypt_self_test (at setting 2) (unat (subtype_flags (at setting 2) AND 1)))
      in if ok then (retval, output)
         else (Inl EINVAL, snd (crypt_output_magic setting output n)))"

text \<open>\<open>input\<close> is the random text, of which 16 bytes are used.\<close>

definition crypt_gensalt_blowfish_rn :: "string \<Rightarrow> nat \<Rightarrow> string \<Rightarrow> int \<Rightarrow> int \<Rightarrow> errno + string" where
  "crypt_gensalt_blowfish_rn pfx cnt input n output_size =
     (if n < 16 \<or> output_size < 7 + 22 + 1 \<or> (cnt \<noteq> 0 \<and> (cnt < 4 \<or> 31 < cnt)) \<or>
         at pfx 0 \<noteq> CHR ''$'' \<or> at pfx 1 \<noteq> CHR ''2'' \<or>
         (at pfx 2 \<noteq> CHR ''a'' \<and> at pfx 2 \<noteq> CHR ''b'' \<and> at pfx 2 \<noteq> CHR ''y'')
      then Inl (if output_size < 7 + 22 + 1 then ERANGE else EINVAL)
      else
        let cnt = (if cnt = 0 then 5 else cnt)
        in Inr (''$2'' @ [at pfx 2, CHR ''$'', char_of (48 + cnt div 10), char_of (48 + cnt mod 10), CHR ''$''] @
                BF_encode (map of_char (take 16 input))))"

subsection \<open>What \<^verbatim>\<open>BF_decode\<close> reads\<close>

text \<open>For 16 bytes 22 codes are read, and of the last one only the upper two of its six bits.\<close>

lemma next_code_Some: "next_code s = Some (c, r) \<longleftrightarrow> (\<exists>x. s = x # r \<and> BF_safe_atoi64 x = Some c)"
  by (cases s) auto

lemma decode_one:
  "BF_decode s 1 = Some ds \<longleftrightarrow> (\<exists>x1 x2 r c1 c2. s = x1 # x2 # r \<and> BF_safe_atoi64 x1 = Some c1 \<and>
     BF_safe_atoi64 x2 = Some c2 \<and> ds = [ucast (push_bit 2 c1 OR drop_bit 4 (c2 AND 0x30))])"
  by (subst BF_decode.simps)
    (auto simp: Let_def bind_eq_Some_conv next_code_Some simp del: drop_bit_and)

lemma decode_group:
  assumes "3 < n"
  shows "BF_decode s n = Some ds \<longleftrightarrow> (\<exists>x1 x2 x3 x4 r c1 c2 c3 c4 ds'. s = x1 # x2 # x3 # x4 # r \<and>
     BF_safe_atoi64 x1 = Some c1 \<and> BF_safe_atoi64 x2 = Some c2 \<and> BF_safe_atoi64 x3 = Some c3 \<and>
     BF_safe_atoi64 x4 = Some c4 \<and> BF_decode r (n - 3) = Some ds' \<and>
     ds = ucast (push_bit 2 c1 OR drop_bit 4 (c2 AND 0x30)) #
       ucast (push_bit 4 (c2 AND 0x0F) OR drop_bit 2 (c3 AND 0x3C)) # ucast (push_bit 6 (c3 AND 0x03) OR c4) # ds')"
  using assms
  by (subst BF_decode.simps)
    (simp add: Let_def bind_eq_Some_conv next_code_Some split_paired_Ex del: drop_bit_and push_bit_and; blast)

lemma decode_last:
  assumes "BF_decode s (3 * m + 1) = Some ds"
  shows "\<exists>v. 4 * m + 2 \<le> length s \<and> BF_safe_atoi64 (s ! (4 * m + 1)) = Some v \<and>
    (\<forall>y u q. BF_safe_atoi64 y = Some u \<longrightarrow> u AND 0x30 = v AND 0x30 \<longrightarrow>
       BF_decode (take (4 * m + 1) s @ y # q) (3 * m + 1) = Some ds)"
  using assms
proof (induction m arbitrary: s ds)
  case 0
  then have "BF_decode s 1 = Some ds" by simp
  then obtain x1 x2 r c1 c2 where s: "s = x1 # x2 # r" "BF_safe_atoi64 x1 = Some c1"
    "BF_safe_atoi64 x2 = Some c2" "ds = [ucast (push_bit 2 c1 OR drop_bit 4 (c2 AND 0x30))]"
    unfolding decode_one by blast
  have "BF_decode (x1 # y # q) 1 = Some ds" if "BF_safe_atoi64 y = Some u" "u AND 0x30 = c2 AND 0x30" for y u q
    unfolding decode_one using s(2,4) that by metis
  with s show ?case by simp
next
  case (Suc m)
  have n: "3 < 3 * Suc m + 1" "3 * Suc m + 1 - 3 = 3 * m + 1" by simp_all
  from Suc.prems obtain x1 x2 x3 x4 r c1 c2 c3 c4 ds' where s: "s = x1 # x2 # x3 # x4 # r"
    and c: "BF_safe_atoi64 x1 = Some c1" "BF_safe_atoi64 x2 = Some c2" "BF_safe_atoi64 x3 = Some c3"
      "BF_safe_atoi64 x4 = Some c4" and rec: "BF_decode r (3 * m + 1) = Some ds'"
    and ds: "ds = ucast (push_bit 2 c1 OR drop_bit 4 (c2 AND 0x30)) #
      ucast (push_bit 4 (c2 AND 0x0F) OR drop_bit 2 (c3 AND 0x3C)) # ucast (push_bit 6 (c3 AND 0x03) OR c4) # ds'"
    unfolding decode_group [OF n(1)] n(2) by blast
  from Suc.IH [OF rec] obtain v where v: "4 * m + 2 \<le> length r" "BF_safe_atoi64 (r ! (4 * m + 1)) = Some v"
    and again: "\<And>y u q. BF_safe_atoi64 y = Some u \<Longrightarrow> u AND 0x30 = v AND 0x30 \<Longrightarrow>
      BF_decode (take (4 * m + 1) r @ y # q) (3 * m + 1) = Some ds'" by blast
  have k: "4 * Suc m + 1 = Suc (Suc (Suc (Suc (4 * m + 1))))" by simp
  have "BF_decode (take (4 * Suc m + 1) s @ y # q) (3 * Suc m + 1) = Some ds"
    if "BF_safe_atoi64 y = Some u" "u AND 0x30 = v AND 0x30" for y u q
    unfolding decode_group [OF n(1)] n(2) k s using c ds again [OF that] by auto
  with v show ?case unfolding k by (intro exI [of _ v]) (simp add: s)
qed

subsection \<open>Hashing again with the hash as setting\<close>

lemma safe_atoi64_Some: "BF_safe_atoi64 x = Some v \<Longrightarrow> v = ucast (BF_atoi64 ! unat (of_char x - 0x20 :: BF_word))"
  by (auto simp: BF_safe_atoi64_def Let_def split: if_splits)

lemma upper_bits: "v AND 0x30 < 64" for v :: BF_word
  unfolding mask_folds by (rule below_64) (auto simp: bit_simps)

lemma last_char:
  assumes "BF_safe_atoi64 x = Some v"
  shows "BF_itoa64 ! unat (BF_atoi64 ! unat (of_char x - 0x20 :: BF_word) AND 0x30) = itoa (v AND 0x30)"
proof -
  let ?b = "BF_atoi64 ! unat (of_char x - 0x20 :: BF_word)"
  have "v AND 0x30 = ucast (?b AND 0x30)"
    unfolding safe_atoi64_Some [OF assms] by (rule bit_word_eqI) (auto simp: bit_simps dest: bit_byte)
  moreover have "unat (ucast (?b AND 0x30) :: BF_word) = unat (?b AND 0x30)"
    using unsigned_less [of "?b AND 0x30", where ?'a = nat]
    by (simp add: unsigned_ucast_eq take_bit_nat_eq_self)
  ultimately show ?thesis by (simp add: itoa_def)
qed

lemma at_append: "i < length s \<Longrightarrow> at (s @ t) i = at s i"
  by (simp add: at_def nth_append)

lemma at_take: "i < n \<Longrightarrow> n \<le> length s \<Longrightarrow> at (take n s) i = at s i"
  by (simp add: at_def)

lemma BF_crypt_decodes:
  assumes "BF_crypt key s n m = Inr h"
  obtains salt v where "BF_decode (drop 7 s) 16 = Some salt" and "29 \<le> length s"
    and "BF_safe_atoi64 (at s 28) = Some v" and "setting_ok s" and "m \<le> setting_count s" and "61 \<le> n"
    and "h = take 28 s @ itoa (v AND 0x30) #
      BF_encode (take 23 (bf_hash key salt (subtype_flags (at s 2)) (unat (setting_count s))))"
    and "\<And>y u q. BF_safe_atoi64 y = Some u \<Longrightarrow> u AND 0x30 = v AND 0x30 \<Longrightarrow>
      BF_decode (take 21 (drop 7 s) @ y # q) 16 = Some salt"
proof -
  from assms obtain salt where salt: "BF_decode (drop 7 s) 16 = Some salt"
    by (auto simp: BF_crypt_def Let_def split: if_splits option.splits)
  then have "BF_decode (drop 7 s) (3 * 5 + 1) = Some salt" by simp
  from decode_last [OF this] obtain v where v: "22 \<le> length s - 7" "BF_safe_atoi64 (drop 7 s ! 21) = Some v"
    and again: "\<And>y u q. BF_safe_atoi64 y = Some u \<Longrightarrow> u AND 0x30 = v AND 0x30 \<Longrightarrow>
      BF_decode (take 21 (drop 7 s) @ y # q) 16 = Some salt" by auto
  have "28 < length s" using v(1) by linarith
  then have "BF_safe_atoi64 (at s 28) = Some v" using v by (simp add: at_def)
  from that [OF salt _ this _ _ _ _ again] v(1) assms salt last_char [OF this] show thesis
    by (auto simp: BF_crypt_def Let_def split: if_splits)
qed

lemma BF_crypt_again:
  assumes "BF_crypt key s n m = Inr h"
  shows "BF_crypt key h n m = Inr h"
  using assms
proof (rule BF_crypt_decodes)
  fix salt v
  let ?e = "BF_encode (take 23 (bf_hash key salt (subtype_flags (at s 2)) (unat (setting_count s))))"
  assume len: "29 \<le> length s" and v: "BF_safe_atoi64 (at s 28) = Some v" and ok: "setting_ok s"
    and min: "m \<le> setting_count s" "61 \<le> n" and h: "h = take 28 s @ itoa (v AND 0x30) # ?e"
    and again: "\<And>y u q. BF_safe_atoi64 y = Some u \<Longrightarrow> u AND 0x30 = v AND 0x30 \<Longrightarrow>
      BF_decode (take 21 (drop 7 s) @ y # q) 16 = Some salt"
  have w: "BF_safe_atoi64 (itoa (v AND 0x30)) = Some (v AND 0x30)" by (rule atoi_itoa [OF upper_bits])
  have same: "at h i = at s i" if "i < 28" for i
    using that len unfolding h by (simp add: at_append at_take)
  have h28: "at h 28 = itoa (v AND 0x30)" using len by (simp add: h at_def nth_append)
  have "drop 7 h = take 21 (drop 7 s) @ itoa (v AND 0x30) # ?e"
    using len by (simp add: h drop_take)
  then have "BF_decode (drop 7 h) 16 = Some salt" using again [OF w, of ?e] by (simp add: and.assoc)
  moreover have "setting_ok h" "setting_count h = setting_count s" "subtype_flags (at h 2) = subtype_flags (at s 2)"
    using ok by (simp_all add: setting_ok_def setting_count_def same)
  moreover have "take 28 h = take 28 s" using len by (simp add: h)
  ultimately show ?thesis
    using min last_char [OF w] by (simp add: BF_crypt_def Let_def h28 not_less) (simp add: h and.assoc)
qed

lemma length_swap [simp]: "length (BF_swap ws) = length ws"
  by (simp add: BF_swap_def)

lemma length_bytes_of_words [simp]: "length (bytes_of_words ws) = 4 * length ws"
  by (induction ws) (simp_all add: bytes_of_words_def bytes_of_word_def)

lemma length_bf_output [simp]: "length (bf_output ctx) = 6"
  by (simp add: bf_output_def split: prod.split)

lemma length_bf_hash [simp]: "length (bf_hash key salt flags cost) = 24"
  by (simp add: bf_hash_def Let_def split: prod.split)

lemma BF_crypt_length:
  assumes "BF_crypt key s n m = Inr h"
  shows "length h = 60"
  using assms by (rule BF_crypt_decodes) (simp add: length_encode)

subsection \<open>The wrapper\<close>

lemma magic_differs:
  "3 \<le> n \<Longrightarrow> snd (crypt_output_magic setting out n) \<noteq> setting"
  by (auto simp: crypt_output_magic_def at_def)

text \<open>What the wrapper hands out is the hash, unless the self-test fails.\<close>

lemma crypt_rn_hash:
  assumes "BF_crypt key s n 16 = Inr h"
  shows "crypt_blowfish_rn key s out n =
    (if crypt_self_test (at s 2) (unat (subtype_flags (at s 2) AND 1)) then (Inr h, h)
     else (Inl EINVAL, snd (crypt_output_magic s out n)))"
proof -
  have "61 \<le> n" using assms by (rule BF_crypt_decodes)
  with assms show ?thesis by (auto simp: crypt_blowfish_rn_def Let_def crypt_output_magic_def)
qed

lemma crypt_rn_refused:
  assumes "BF_crypt key s n 16 = Inl e"
  shows "snd (crypt_blowfish_rn key s out n) = snd (crypt_output_magic s out n) \<and>
    (\<exists>e'. fst (crypt_blowfish_rn key s out n) = Inl e')"
  using assms by (auto simp: crypt_blowfish_rn_def Let_def crypt_output_magic_def)

subsection \<open>Salts\<close>

lemma digit_char: "d < 10 \<Longrightarrow> digit (char_of (48 + d)) = d \<and>
    CHR ''0'' \<le> (char_of (48 + d) :: char) \<and> (char_of (48 + d) :: char) \<le> CHR ''9''" for d :: nat
  by (simp add: digit_def less_eq_char_def)

lemma gensalt_accepted:
  assumes "crypt_gensalt_blowfish_rn pfx cnt input (int (length input)) out_size = Inr s"
  shows "setting_ok s" and "BF_decode (drop 7 s) 16 = Some (map of_char (take 16 input))"
    and "setting_count s = push_bit (if cnt = 0 then 5 else cnt) 1" and "length s = 29" and "at s 2 = at pfx 2"
    and "16 \<le> setting_count s"
proof -
  define c where "c = (if cnt = 0 then 5 else cnt)"
  from assms have g: "16 \<le> length input" "4 \<le> c" "c \<le> 31" "at pfx 2 \<in> {CHR ''a'', CHR ''b'', CHR ''y''}"
    and s: "s = ''$2'' @ [at pfx 2, CHR ''$'', char_of (48 + c div 10), char_of (48 + c mod 10), CHR ''$''] @
      BF_encode (map of_char (take 16 input))"
    by (auto simp: crypt_gensalt_blowfish_rn_def c_def Let_def split: if_splits)
  have len: "length (take 16 input) = 16" using g(1) by simp
  then have "map of_char (take 16 input) \<noteq> ([] :: byte list)" by auto
  from decode_encode [OF this, of "[]"] len
  show "BF_decode (drop 7 s) 16 = Some (map of_char (take 16 input))" by (simp add: s)
  show "length s = 29" using len by (simp add: s length_encode)
  show "at s 2 = at pfx 2" by (simp add: s at_def)
  have d: "c div 10 < 4" "c mod 10 < 10" "c div 10 = 3 \<Longrightarrow> c mod 10 \<le> 1" using g(3) by presburger+
  have at: "at s 0 = CHR ''$''" "at s 1 = CHR ''2''" "at s 3 = CHR ''$''" "at s 4 = char_of (48 + c div 10)"
    "at s 5 = char_of (48 + c mod 10)" "at s 6 = CHR ''$''" by (simp_all add: s at_def)
  have fl: "subtype_flags (at pfx 2) \<noteq> 0" "CHR ''a'' \<le> at pfx 2" "at pfx 2 \<le> CHR ''z''"
    using g(4) by (auto simp: subtype_flags_def flags_by_subtype_def less_eq_char_def)
  have "CHR ''0'' \<le> at s 4" "at s 4 \<le> CHR ''3''" "CHR ''0'' \<le> at s 5" "at s 5 \<le> CHR ''9''"
    using d(1,2) by (simp_all add: at less_eq_char_def)
  moreover have "at s 4 = CHR ''3'' \<Longrightarrow> at s 5 \<le> CHR ''1''"
    using d by (simp add: at less_eq_char_def char_of_eq_iff take_bit_eq_mod)
  ultimately show "setting_ok s"
    using fl at \<open>at s 2 = at pfx 2\<close> unfolding setting_ok_def not_less [symmetric] by auto
  have "digit (at s 4) * 10 + digit (at s 5) = c"
    using d(1,2) digit_char [of "c div 10"] digit_char [of "c mod 10"] by (simp add: at)
  then show cnt: "setting_count s = push_bit (if cnt = 0 then 5 else cnt) 1"
    by (simp add: setting_count_def c_def)
  have "list_all (\<lambda>c. (16 :: BF_word) \<le> push_bit c 1) [4..<32]" by code_simp
  moreover have "c \<in> set [4..<32]" using g(2,3) unfolding set_upt by simp
  ultimately have "(16 :: BF_word) \<le> push_bit c 1" unfolding list_all_iff by blast
  then show "16 \<le> setting_count s" by (simp add: cnt flip: c_def)
qed

end
