(* ===== verification/CryptWrap.thy ===== *)
theory CryptWrap
  imports BfCrypt
begin

unbundle bit_operations_syntax

text \<open>
  The interface to the password hash: the salt generators of \<^verbatim>\<open>bcrypt/crypt_gensalt.c\<close>, the
  functions of \<^verbatim>\<open>bcrypt/wrapper.c\<close> (its branch for programs outside the C library), and
  \<^verbatim>\<open>encrypt_password\<close>, \<^verbatim>\<open>match_password\<close> and \<^verbatim>\<open>generate_random_string\<close> of \<^verbatim>\<open>server/hash.c\<close>.
\<close>

subsection \<open>Salts for the other hashes\<close>

definition crypt_itoa64 :: string where
  "crypt_itoa64 = ''./0123456789ABCDEFGHIJKLMNOPQRSTUVWXYZabcdefghijklmnopqrstuvwxyz''"

definition itoa64 :: "nat \<Rightarrow> char" where
  "itoa64 v = crypt_itoa64 ! (v AND 0x3f)"

text \<open>\<open>input_word\<close> is the value of three bytes, the first one lowest.\<close>

definition input_word :: "string \<Rightarrow> nat \<Rightarrow> nat" where
  "input_word input i =
     of_char (at input i) OR push_bit 8 (of_char (at input (i + 1))) OR push_bit 16 (of_char (at input (i + 2)))"

definition four_codes :: "nat \<Rightarrow> string" where
  "four_codes v = [itoa64 v, itoa64 (drop_bit 6 v), itoa64 (drop_bit 12 v), itoa64 (drop_bit 18 v)]"

type_synonym gensalt = "string \<Rightarrow> nat \<Rightarrow> string \<Rightarrow> int \<Rightarrow> int \<Rightarrow> errno + string"

definition crypt_gensalt_traditional_rn :: gensalt where
  "crypt_gensalt_traditional_rn pfx cnt input n output_size =
     (if n < 2 \<or> output_size < 2 + 1 \<or> (cnt \<noteq> 0 \<and> cnt \<noteq> 25)
      then Inl (if output_size < 2 + 1 then ERANGE else EINVAL)
      else Inr [itoa64 (of_char (at input 0)), itoa64 (of_char (at input 1))])"

definition crypt_gensalt_extended_rn :: gensalt where
  "crypt_gensalt_extended_rn pfx cnt input n output_size =
     (if n < 3 \<or> output_size < 1 + 4 + 4 + 1 \<or> (cnt \<noteq> 0 \<and> (0xffffff < cnt \<or> cnt AND 1 = 0))
      then Inl (if output_size < 1 + 4 + 4 + 1 then ERANGE else EINVAL)
      else
        let cnt = (if cnt = 0 then 725 else cnt)
        in Inr (CHR ''_'' # four_codes cnt @ four_codes (input_word input 0)))"

definition crypt_gensalt_md5_rn :: gensalt where
  "crypt_gensalt_md5_rn pfx cnt input n output_size =
     (if n < 3 \<or> output_size < 3 + 4 + 1 \<or> (cnt \<noteq> 0 \<and> cnt \<noteq> 1000)
      then Inl (if output_size < 3 + 4 + 1 then ERANGE else EINVAL)
      else
        Inr (''$1$'' @ four_codes (input_word input 0) @
             (if 6 \<le> n \<and> 3 + 4 + 4 + 1 \<le> output_size then four_codes (input_word input 3) else [])))"

subsection \<open>The wrapper\<close>

text \<open>\<open>input\<close> may be a null pointer.\<close>

definition crypt_gensalt_rn :: "string \<Rightarrow> nat \<Rightarrow> string option \<Rightarrow> int \<Rightarrow> int \<Rightarrow> errno + string" where
  "crypt_gensalt_rn pfx cnt input n output_size =
     (case input of
        None \<Rightarrow> Inl EINVAL
      | Some input \<Rightarrow>
          if take 4 pfx = ''$2a$'' \<or> take 4 pfx = ''$2b$'' \<or> take 4 pfx = ''$2y$''
          then crypt_gensalt_blowfish_rn pfx cnt input n output_size
          else if take 3 pfx = ''$1$'' then crypt_gensalt_md5_rn pfx cnt input n output_size
          else if at pfx 0 = CHR ''_'' then crypt_gensalt_extended_rn pfx cnt input n output_size
          else if at pfx 0 = NUL \<or>
            (at pfx 0 \<noteq> NUL \<and> at pfx 1 \<noteq> NUL \<and> at pfx 0 \<in> set crypt_itoa64 \<and> at pfx 1 \<in> set crypt_itoa64)
          then crypt_gensalt_traditional_rn pfx cnt input n output_size
          else Inl EINVAL)"

text \<open>\<^verbatim>\<open>crypt_gensalt_ra\<close> copies the result to the heap; \<open>dup\<close> says whether \<^verbatim>\<open>strdup\<close> succeeds.\<close>

definition crypt_gensalt_ra :: "bool \<Rightarrow> string \<Rightarrow> nat \<Rightarrow> string option \<Rightarrow> int \<Rightarrow> string option" where
  "crypt_gensalt_ra dup pfx cnt input n =
     (case crypt_gensalt_rn pfx cnt input n (7 + 22 + 1) of
        Inl e \<Rightarrow> None
      | Inr retval \<Rightarrow> if dup then Some retval else None)"

definition crypt_gensalt :: "string \<Rightarrow> nat \<Rightarrow> string option \<Rightarrow> int \<Rightarrow> errno + string" where
  "crypt_gensalt pfx cnt input n = crypt_gensalt_rn pfx cnt input n (7 + 22 + 1)"

text \<open>\<open>grown\<close> says whether \<^verbatim>\<open>realloc\<close> succeeds; a buffer is given by its text, None is null.\<close>

definition crypt_data_alloc :: "bool \<Rightarrow> string option \<Rightarrow> int \<Rightarrow> int \<Rightarrow> int \<times> string option \<times> int" where
  "crypt_data_alloc grown data n need =
     (if data \<noteq> None \<and> need \<le> n then (0, data, n)
      else if \<not> grown then (-1, data, n)
      else (0, Some (case data of None \<Rightarrow> [] | Some d \<Rightarrow> d), need))"

definition crypt_retval_magic :: "errno + string \<Rightarrow> string \<Rightarrow> string \<Rightarrow> int \<Rightarrow> string option \<times> string" where
  "crypt_retval_magic retval setting output n =
     (case retval of
        Inr h \<Rightarrow> (Some h, output)
      | Inl e \<Rightarrow>
          let (ret, output) = crypt_output_magic setting output n
          in if ret \<noteq> 0 then (None, output) else (Some output, output))"

definition crypt_rn :: "string \<Rightarrow> string \<Rightarrow> string \<Rightarrow> int \<Rightarrow> (errno + string) \<times> string" where
  "crypt_rn key setting data n = crypt_blowfish_rn key setting data n"

definition crypt_ra :: "bool \<Rightarrow> string \<Rightarrow> string \<Rightarrow> string option \<Rightarrow> int \<Rightarrow>
    string option \<times> string option \<times> int" where
  "crypt_ra grown key setting data n =
     (case crypt_data_alloc grown data n (7 + 22 + 31 + 1) of
        (ret, data, n) \<Rightarrow>
          if ret \<noteq> 0 then (None, data, n)
          else
            let (retval, output) = crypt_blowfish_rn key setting (the data) n
            in (case retval of Inl e \<Rightarrow> None | Inr h \<Rightarrow> Some h, Some output, n))"

definition crypt_r :: "string \<Rightarrow> string \<Rightarrow> string \<Rightarrow> string option \<times> string" where
  "crypt_r key setting data =
     (let (retval, data) = crypt_rn key setting data (7 + 22 + 31 + 1)
      in crypt_retval_magic retval setting data (7 + 22 + 31 + 1))"

definition crypt :: "string \<Rightarrow> string \<Rightarrow> string \<Rightarrow> string option \<times> string" where
  "crypt key setting output =
     (let (retval, output) = crypt_rn key setting output (7 + 22 + 31 + 1)
      in crypt_retval_magic retval setting output (7 + 22 + 31 + 1))"

subsection \<open>Passwords\<close>

text \<open>\<open>rnd\<close> is the sequence \<^verbatim>\<open>rand\<close> delivers.\<close>

definition charset :: string where
  "charset = ''abcdefghijklmnopqrstuvwxyzABCDEFGHIJKLMNOPQRSTUVWXYZ0123456789_><?@#$^&*()''"

definition generate_random_string :: "(nat \<Rightarrow> nat) \<Rightarrow> int \<Rightarrow> string \<Rightarrow> string" where
  "generate_random_string rnd n output =
     (if n \<le> 0 then output else map (\<lambda>i. charset ! (rnd i mod length charset)) [0..<nat n])"

text \<open>
  \<^verbatim>\<open>struct crypt_data\<close> starts with the 61 cells of \<open>output\<close>, where \<^verbatim>\<open>crypt_r\<close> writes. A refused
  salt leaves the setting empty.
\<close>

definition encrypt_password :: "(nat \<Rightarrow> nat) \<Rightarrow> string \<Rightarrow> string res" where
  "encrypt_password rnd password =
     (let rand_str = generate_random_string rnd 24 [];
          setting = (case crypt_gensalt_rn ''$2b$'' 11 (Some rand_str) (int (length rand_str)) (7 + 22 + 31 + 1) of
             Inl e \<Rightarrow> [] | Inr s \<Rightarrow> s)
      in case fst (crypt_r password setting []) of None \<Rightarrow> Inl NullDeref | Some hash \<Rightarrow> Inr hash)"

definition match_password :: "string \<Rightarrow> string \<Rightarrow> bool" where
  "match_password password encrypted \<longleftrightarrow> snd (crypt_r password encrypted []) = encrypted"

subsection \<open>The interface functions\<close>

lemma crypt_r_hash:
  assumes "BF_crypt key s 61 16 = Inr h"
  shows "crypt_r key s data =
    (if crypt_self_test (at s 2) (unat (subtype_flags (at s 2) AND 1)) then (Some h, h)
     else (Some (snd (crypt_output_magic s [] 61)), snd (crypt_output_magic s [] 61)))"
  using crypt_rn_hash [OF assms, of data]
  by (simp add: crypt_r_def crypt_rn_def crypt_retval_magic_def crypt_output_magic_def)

lemma crypt_r_refused:
  assumes "BF_crypt key s 61 16 = Inl e"
  shows "crypt_r key s data = (Some (snd (crypt_output_magic s [] 61)), snd (crypt_output_magic s [] 61))"
  using crypt_rn_refused [OF assms, of data]
  by (cases "crypt_blowfish_rn key s data 61")
    (auto simp: crypt_r_def crypt_rn_def crypt_retval_magic_def crypt_output_magic_def)

lemma match_password_iff:
  "match_password pw h \<longleftrightarrow> BF_crypt pw h 61 16 = Inr h \<and>
     crypt_self_test (at h 2) (unat (subtype_flags (at h 2) AND 1))"
proof (cases "BF_crypt pw h 61 16")
  case (Inl e)
  then show ?thesis using magic_differs [of 61 h "[]"] by (simp add: match_password_def crypt_r_refused)
next
  case (Inr h')
  then show ?thesis
    using magic_differs [of 61 h "[]"] by (auto simp: match_password_def crypt_r_hash)
qed

lemma charset_index: "charset ! (i mod length charset) \<in> set charset"
  by (rule nth_mem) (simp add: charset_def)

lemma random_string:
  "0 \<le> n \<Longrightarrow> length (generate_random_string rnd n []) = nat n \<and> set (generate_random_string rnd n []) \<subseteq> set charset"
  by (auto simp: generate_random_string_def charset_index)

lemma bcrypt_salt:
  obtains s where "crypt_gensalt_rn ''$2b$'' 11 (Some (generate_random_string rnd 24 [])) 24 61 = Inr s"
    and "setting_ok s" and "\<exists>salt. BF_decode (drop 7 s) 16 = Some salt" and "16 \<le> setting_count s"
    and "at s 2 = CHR ''b''"
proof -
  let ?r = "generate_random_string rnd 24 []"
  have len: "length ?r = 24" using random_string [of 24 rnd] by simp
  then obtain s where s: "crypt_gensalt_blowfish_rn ''$2b$'' 11 ?r (int (length ?r)) 61 = Inr s"
    by (simp add: crypt_gensalt_blowfish_rn_def at_def)
  from gensalt_accepted [OF s] that [of s] s len show thesis
    by (simp add: crypt_gensalt_rn_def at_def)
qed

lemma encrypt_password_spec:
  "\<exists>h. encrypt_password rnd pw = Inr h \<and> (match_password pw h \<longleftrightarrow> crypt_self_test (CHR ''b'') 0) \<and>
     (\<forall>pw'. match_password pw' h \<longleftrightarrow> crypt_self_test (CHR ''b'') 0 \<and> BF_crypt pw' h 61 16 = Inr h)"
proof -
  obtain s salt where s: "crypt_gensalt_rn ''$2b$'' 11 (Some (generate_random_string rnd 24 [])) 24 61 = Inr s"
    and ok: "setting_ok s" "BF_decode (drop 7 s) 16 = Some salt" "16 \<le> setting_count s" "at s 2 = CHR ''b''"
    using bcrypt_salt [of rnd] by metis
  from ok(3) have "\<not> setting_count s < 16" by (simp add: not_less)
  with ok obtain h where h: "BF_crypt pw s 61 16 = Inr h" by (auto simp: BF_crypt_def Let_def)
  have fl: "unat (subtype_flags (CHR ''b'') AND 1) = 0"
    by (simp add: subtype_flags_def flags_by_subtype_def)
  have len: "length (generate_random_string rnd 24 []) = 24" using random_string [of 24 rnd] by simp
  have enc: "encrypt_password rnd pw =
    Inr (if crypt_self_test (CHR ''b'') 0 then h else snd (crypt_output_magic s [] 61))"
    using s len by (simp add: encrypt_password_def crypt_r_hash [OF h] ok(4) fl)
  show ?thesis
  proof (cases "crypt_self_test (CHR ''b'') 0")
    case True
    moreover have "at h 2 = CHR ''b''"
      by (rule BF_crypt_decodes [OF h]) (use ok(4) in \<open>simp add: at_append at_take\<close>)
    ultimately show ?thesis using enc BF_crypt_again [OF h] fl by (simp add: match_password_iff)
  next
    case False
    have "\<not> setting_ok (snd (crypt_output_magic s [] 61))"
      by (simp add: crypt_output_magic_def setting_ok_def at_def)
    then have "\<not> match_password pw' (snd (crypt_output_magic s [] 61))" for pw'
      by (simp add: match_password_iff BF_crypt_def)
    with enc False show ?thesis by simp
  qed
qed

subsection \<open>Properties\<close>

text \<open>C14: a stored password matches: whatever the password and the random salt, \<^verbatim>\<open>encrypt_password\<close> returns a
  text that \<^verbatim>\<open>match_password\<close> accepts for that password, unless the run-time self-test of the hash
  fails, and then it accepts none; any other password is accepted only if hashing it with the
  stored text as setting gives that very text.\<close>

theorem encrypt_then_match:
  "\<exists>h. encrypt_password rnd pw = Inr h \<and> (match_password pw h \<longleftrightarrow> crypt_self_test (CHR ''b'') 0) \<and>
     (\<forall>pw'. match_password pw' h \<longleftrightarrow> crypt_self_test (CHR ''b'') 0 \<and> BF_crypt pw' h 61 16 = Inr h)"
  by (rule encrypt_password_spec)

end
