(* ===== verification/Tokens.thy ===== *)
theory Tokens
  imports ToolText SqlText CryptWrap
begin

text \<open>
  Digests and tokens of \<^verbatim>\<open>server/hash.c\<close>: \<^verbatim>\<open>string_to_hex\<close>, \<^verbatim>\<open>generate_digest\<close>,
  \<^verbatim>\<open>match_digest\<close>, \<^verbatim>\<open>get_token_key\<close>, \<^verbatim>\<open>generate_token\<close>, \<^verbatim>\<open>verify_token\<close> and
  \<^verbatim>\<open>decode_result_to_str\<close>. SHA-256 and the JWT library are arguments of the definitions.
\<close>

subsection \<open>Digests\<close>

text \<open>\<^verbatim>\<open>%02X\<close> of a byte.\<close>

definition hex_digit :: "nat \<Rightarrow> char" where
  "hex_digit d = ''0123456789ABCDEF'' ! d"

definition hex_byte :: "byte \<Rightarrow> string" where
  "hex_byte b = [hex_digit (unat b div 16), hex_digit (unat b mod 16)]"

fun string_to_hex :: "byte list \<Rightarrow> string" where
  "string_to_hex [] = []"
| "string_to_hex (b # bs) = hex_byte b @ string_to_hex bs"

text \<open>\<open>sha\<close> is the digest of a text; the file is read in blocks, which \<^verbatim>\<open>SHA256_Update\<close> appends.\<close>

definition generate_digest :: "(string \<Rightarrow> byte list) \<Rightarrow> string list \<Rightarrow> string" where
  "generate_digest sha blocks = string_to_hex (sha (concat blocks))"

definition match_digest :: "(string \<Rightarrow> byte list) \<Rightarrow> string list \<Rightarrow> string \<Rightarrow> bool" where
  "match_digest sha blocks digest \<longleftrightarrow> digest = generate_digest sha blocks"

subsection \<open>The token key\<close>

definition DEFAULT_KEY :: string where
  "DEFAULT_KEY = ''123456''"

text \<open>\<open>token_key\<close> is the global; the result is the key handed out and the global afterwards.\<close>

definition get_token_key :: "string option \<Rightarrow> (nat \<Rightarrow> nat) \<Rightarrow> string \<Rightarrow> (string \<times> string) res" where
  "get_token_key conf rnd token_key =
     (if strncmp_eq token_key DEFAULT_KEY (length token_key)
      then
        bindR (read_config conf ''token_key'') (\<lambda>config_key.
        let config_key = (case config_key of
            None \<Rightarrow> generate_random_string rnd 20 []
          | Some k \<Rightarrow> k)
        in bindR (strcpyR 128 config_key) (\<lambda>token_key. Inr (token_key, token_key)))
      else Inr (token_key, token_key))"

subsection \<open>Tokens\<close>

text \<open>The parameters of an encoding that the code sets, apart from algorithm and key.\<close>

record jwt_params =
  jp_iss :: string
  jp_sub :: string
  jp_iat :: int
  jp_exp :: int
  jp_claim :: "string \<times> string"

datatype jwt_validation =
    L8W8JWT_VALID
  | L8W8JWT_ISS_FAILURE
  | L8W8JWT_SUB_FAILURE
  | L8W8JWT_AUD_FAILURE
  | L8W8JWT_JTI_FAILURE
  | L8W8JWT_EXP_FAILURE
  | L8W8JWT_NBF_FAILURE
  | L8W8JWT_IAT_FAILURE
  | L8W8JWT_SIGNATURE_VERIFICATION_FAILURE
  | L8W8JWT_TYP_FAILURE
  | L8W8JWT_OTHER

fun decode_result_to_str :: "jwt_validation \<Rightarrow> string" where
  "decode_result_to_str L8W8JWT_VALID = ''L8W8JWT_VALID''"
| "decode_result_to_str L8W8JWT_ISS_FAILURE = ''The issuer claim is invalid.''"
| "decode_result_to_str L8W8JWT_SUB_FAILURE = ''The subject claim is invalid.''"
| "decode_result_to_str L8W8JWT_AUD_FAILURE = ''The audience claim is invalid.''"
| "decode_result_to_str L8W8JWT_JTI_FAILURE = ''The JWT ID claim is invalid.''"
| "decode_result_to_str L8W8JWT_EXP_FAILURE = ''The token is expired.''"
| "decode_result_to_str L8W8JWT_NBF_FAILURE = ''The token is not yet valid.''"
| "decode_result_to_str L8W8JWT_IAT_FAILURE =
     ''The token was not issued yet, are you from the future?''"
| "decode_result_to_str L8W8JWT_SIGNATURE_VERIFICATION_FAILURE =
     ''The token was potentially tampered with: its signature couldn't be verified.''"
| "decode_result_to_str L8W8JWT_TYP_FAILURE = ''The token type claim is invalid.''"
| "decode_result_to_str L8W8JWT_OTHER = ''UNKNOWN''"

text \<open>
  \<^verbatim>\<open>%ld\<close> of an \<^verbatim>\<open>unsigned long\<close> prints it as signed; \<^verbatim>\<open>atol\<close> stops at the first character
  that is no digit and saturates.
\<close>

definition c_long :: "int \<Rightarrow> int" where
  "c_long x = signed_take_bit 63 x"

definition atol :: "string \<Rightarrow> int" where
  "atol s =
     (if s \<noteq> [] \<and> hd s = CHR ''-'' then max (- (2 ^ 63)) (- int (digits_val (tl s)))
      else min (2 ^ 63 - 1) (int (digits_val s)))"

type_synonym jwt_encode = "string \<Rightarrow> jwt_params \<Rightarrow> string option"
type_synonym jwt_decode = "string \<Rightarrow> string \<Rightarrow> int \<Rightarrow> (jwt_validation \<times> (string \<times> string) list) option"

text \<open>
  \<open>enc\<close> gives the token's text, None when the library fails; the length it reports is the text's.
  The text goes into the 1024 cells of a message's token field.
\<close>

definition generate_token :: "jwt_encode \<Rightarrow> int \<Rightarrow> string option \<Rightarrow> (nat \<Rightarrow> nat) \<Rightarrow> string \<Rightarrow> token_info \<Rightarrow>
    (string option \<times> string) res" where
  "generate_token enc now conf rnd token_key info =
     bindR (get_token_key conf rnd token_key) (\<lambda>(KEY, token_key).
     let user_id = num_str (c_long (tk_user_id info));
         params = \<lparr>jp_iss = ''NetDisk'', jp_sub = user_id, jp_iat = now, jp_exp = now + 600,
           jp_claim = (''workpath'', tk_workpath info)\<rparr>
     in case enc KEY params of
          None \<Rightarrow> Inr (None, token_key)
        | Some temp_jwt \<Rightarrow>
            if 1024 < length temp_jwt then Inr (None, token_key)
            else bindR (strcpyR 1024 temp_jwt) (\<lambda>JWT. Inr (Some JWT, token_key)))"

text \<open>Decoding reports failure as None. The result of \<^verbatim>\<open>verify_token\<close> is None for -1.\<close>

fun read_claims :: "(string \<times> string) list \<Rightarrow> token_info \<Rightarrow> token_info res" where
  "read_claims [] info = Inr info"
| "read_claims ((key, v) # claims) info =
     (if key = ''workpath''
      then bindR (strcpyR 1024 v) (\<lambda>wp. read_claims claims (info\<lparr>tk_workpath := wp\<rparr>))
      else if key = ''sub''
      then read_claims claims (info\<lparr>tk_user_id := c_ulong (atol v)\<rparr>)
      else read_claims claims info)"

definition verify_token :: "jwt_decode \<Rightarrow> int \<Rightarrow> string option \<Rightarrow> (nat \<Rightarrow> nat) \<Rightarrow> string \<Rightarrow> string \<Rightarrow> token_info \<Rightarrow>
    (jwt_validation option \<times> token_info \<times> string) res" where
  "verify_token dec now conf rnd token_key JWT info =
     bindR (get_token_key conf rnd token_key) (\<lambda>(KEY, token_key).
     case dec KEY JWT now of
       None \<Rightarrow> Inr (None, info, token_key)
     | Some (validation_result, claims) \<Rightarrow>
         if validation_result \<noteq> L8W8JWT_VALID then Inr (Some validation_result, info, token_key)
         else bindR (read_claims claims info) (\<lambda>info. Inr (Some validation_result, info, token_key)))"

subsection \<open>What the server relies on\<close>

text \<open>
  The library's contract: while a token is in force, decoding it with the key it was made with
  succeeds as valid and yields claims with distinct names, the subject and the additional claim
  among them.
\<close>

definition jwt_library :: "jwt_encode \<Rightarrow> jwt_decode \<Rightarrow> bool" where
  "jwt_library enc dec \<longleftrightarrow>
     (\<forall>key p jwt t. enc key p = Some jwt \<longrightarrow> jp_iat p \<le> t \<longrightarrow> t \<le> jp_exp p \<longrightarrow>
        fst (jp_claim p) \<noteq> ''sub'' \<longrightarrow>
        (\<exists>claims. dec key jwt t = Some (L8W8JWT_VALID, claims) \<and> distinct (map fst claims) \<and>
           (''sub'', jp_sub p) \<in> set claims \<and> jp_claim p \<in> set claims))"

subsection \<open>Numbers and digests\<close>

lemma atol_num_str:
  assumes "- (2 ^ 63) \<le> x" and "x < 2 ^ 63"
  shows "atol (num_str x) = x"
proof (cases "x < 0")
  case True
  then show ?thesis using assms digits_val_nat_str [of "[]" "nat (- x)"] by (simp add: atol_def num_str_def)
next
  case False
  have "hd (nat_str n) \<noteq> CHR ''-''" for n
    using nat_str_digits [OF hd_in_set [OF nat_str_ne], of n] by (auto simp: is_digit_def)
  then show ?thesis
    using False assms digits_val_nat_str [of "[]" "nat x"] by (simp add: atol_def num_str_def)
qed

lemma user_id_back:
  assumes "0 \<le> x" and "x < 2 ^ 64"
  shows "c_ulong (atol (num_str (c_long x))) = x"
proof -
  have "- (2 ^ 63) \<le> c_long x" "c_long x < 2 ^ 63"
    using signed_take_bit_int_greater_eq_minus_exp [of 63 x] signed_take_bit_int_less_exp [of 63 x]
    by (simp_all add: c_long_def)
  then have "atol (num_str (c_long x)) = c_long x" by (rule atol_num_str)
  moreover have "take_bit 64 (signed_take_bit 63 x) = take_bit 64 x"
    by (simp add: take_bit_signed_take_bit)
  ultimately show ?thesis using assms by (simp add: c_long_def c_ulong_def take_bit_int_eq_self)
qed

lemma hex_table: "list_all (\<lambda>n. list_all (\<lambda>m. hex_digit n = hex_digit m \<longrightarrow> n = m) [0..<16]) [0..<16]"
  by code_simp

lemma hex_byte_inj: "hex_byte a = hex_byte b \<Longrightarrow> a = b"
proof -
  assume h: "hex_byte a = hex_byte b"
  have lt: "unat c < 256" for c :: byte using unsigned_less [of c, where ?'a = nat] by simp
  have inj: "hex_digit n = hex_digit m \<Longrightarrow> n < 16 \<Longrightarrow> m < 16 \<Longrightarrow> n = m" for n m
    using hex_table by (auto simp: list_all_iff)
  have "unat a div 16 < 16" "unat b div 16 < 16" using lt [of a] lt [of b] by (simp_all add: less_mult_imp_div_less)
  with h have "unat a div 16 = unat b div 16" "unat a mod 16 = unat b mod 16"
    by (auto simp: hex_byte_def intro!: inj)
  then have "unat a = unat b" by (metis div_mult_mod_eq)
  then show ?thesis by (rule unsigned_word_eqI)
qed

lemma length_hex [simp]: "length (string_to_hex bs) = 2 * length bs"
  by (induction bs) (simp_all add: hex_byte_def)

lemma string_to_hex_inj: "string_to_hex as = string_to_hex bs \<Longrightarrow> as = bs"
proof (induction as arbitrary: bs)
  case Nil
  then show ?case by (cases bs) (simp_all add: hex_byte_def)
next
  case (Cons a as)
  then obtain b bs' where bs: "bs = b # bs'" by (cases bs) (auto simp: hex_byte_def)
  with Cons.prems have "hex_byte a = hex_byte b" "string_to_hex as = string_to_hex bs'"
    by (simp_all add: hex_byte_def)
  with Cons.IH bs show ?case by (auto dest: hex_byte_inj)
qed

subsection \<open>Tokens\<close>

lemma read_claims_map:
  assumes "distinct (map fst claims)" and "\<forall>(k, v)\<in>set claims. k = ''workpath'' \<longrightarrow> length v < 1024"
  shows "read_claims claims info =
    Inr \<lparr>tk_user_id = (case map_of claims ''sub'' of None \<Rightarrow> tk_user_id info | Some v \<Rightarrow> c_ulong (atol v)),
         tk_workpath = (case map_of claims ''workpath'' of None \<Rightarrow> tk_workpath info | Some v \<Rightarrow> v)\<rparr>"
  using assms
proof (induction claims arbitrary: info)
  case Nil
  then show ?case by (cases info) simp
next
  case (Cons c claims)
  obtain key v where c: "c = (key, v)" by fastforce
  with Cons.prems have fresh: "map_of claims key = None" by (auto simp: map_of_eq_None_iff)
  from Cons c have "read_claims claims i =
      Inr \<lparr>tk_user_id = (case map_of claims ''sub'' of None \<Rightarrow> tk_user_id i | Some v \<Rightarrow> c_ulong (atol v)),
           tk_workpath = (case map_of claims ''workpath'' of None \<Rightarrow> tk_workpath i | Some v \<Rightarrow> v)\<rparr>" for i
    by auto
  moreover have "length v < 1024" if "key = ''workpath''" using Cons.prems(2) c that by auto
  ultimately show ?case
    using c fresh by (cases "key = ''workpath''"; cases "key = ''sub''") (auto simp: strcpyR_def split: option.split)
qed

text \<open>A key that was handed out is handed out again, as long as the configuration stays.\<close>

lemma token_key_stable:
  assumes "get_token_key conf rnd token_key = Inr (key, token_key')"
  shows "key = token_key'" and "get_token_key conf rnd' token_key' = Inr (token_key', token_key')"
proof -
  show "key = token_key'"
    using assms by (auto simp: get_token_key_def Let_def bindR_eq_Inr strcpyR_def split: if_splits)
  show "get_token_key conf rnd' token_key' = Inr (token_key', token_key')"
  proof (cases "strncmp_eq token_key' DEFAULT_KEY (length token_key')")
    case False
    then show ?thesis by (simp add: get_token_key_def)
  next
    case True
    then have "length token_key' \<le> 6" by (auto simp: strncmp_eq_def DEFAULT_KEY_def dest: arg_cong [of _ _ length])
    moreover have "length (generate_random_string rnd 20 []) = 20" using random_string [of 20 rnd] by simp
    ultimately obtain k where "read_config conf ''token_key'' = Inr (Some k)" and "k = token_key'" "length k < 128"
      using assms True
      by (auto simp: get_token_key_def Let_def bindR_eq_Inr strcpyR_def split: if_splits option.splits)
    with True show ?thesis by (simp add: get_token_key_def strcpyR_def)
  qed
qed

lemma jwt_key_ne: "''workpath'' \<noteq> ''sub''"
  by simp

lemma verify_generated:
  assumes lib: "jwt_library enc dec"
    and gen: "generate_token enc now conf rnd token_key info = Inr (Some jwt, token_key')"
    and time: "now \<le> t" "t \<le> now + 600"
    and info: "0 \<le> tk_user_id info" "tk_user_id info < 2 ^ 64" "length (tk_workpath info) < 1024"
  shows "verify_token dec t conf rnd' token_key' jwt old = Inr (Some L8W8JWT_VALID, info, token_key')"
proof -
  let ?p = "\<lparr>jp_iss = ''NetDisk'', jp_sub = num_str (c_long (tk_user_id info)), jp_iat = now, jp_exp = now + 600,
    jp_claim = (''workpath'', tk_workpath info)\<rparr>"
  from gen obtain k where k: "get_token_key conf rnd token_key = Inr (k, token_key')" "enc k ?p = Some jwt"
    by (auto simp: generate_token_def Let_def bindR_eq_Inr strcpyR_def split: option.splits if_splits)
  from token_key_stable(1) [OF k(1)] k have key: "get_token_key conf rnd token_key = Inr (token_key', token_key')"
    and enc: "enc token_key' ?p = Some jwt" by simp_all
  from lib enc time obtain claims where dec: "dec token_key' jwt t = Some (L8W8JWT_VALID, claims)"
    and d: "distinct (map fst claims)" "(''sub'', jp_sub ?p) \<in> set claims" "(''workpath'', tk_workpath info) \<in> set claims"
    unfolding jwt_library_def by (metis jwt_params.select_convs fst_conv jwt_key_ne)
  then have m: "map_of claims ''sub'' = Some (jp_sub ?p)" "map_of claims ''workpath'' = Some (tk_workpath info)"
    by (simp_all add: map_of_eq_Some_iff)
  have "length v < 1024" if "(''workpath'', v) \<in> set claims" for v
    using map_of_is_SomeI [OF d(1) that] m(2) info(3) by simp
  then have "\<forall>(k, v)\<in>set claims. k = ''workpath'' \<longrightarrow> length v < 1024" by auto
  from read_claims_map [OF d(1) this, of old] have "read_claims claims old = Inr info"
    by (simp add: m user_id_back [OF info(1,2)])
  then show ?thesis
    using dec token_key_stable(2) [OF key] by (simp add: verify_token_def)
qed

subsection \<open>A concrete library\<close>

text \<open>Texts with their length in front stand for the encoding; it keeps the two claims the server reads.\<close>

definition put :: "string \<Rightarrow> string" where
  "put s = replicate (length s) (CHR ''s'') @ CHR ''.'' # s"

definition unput :: "string \<Rightarrow> string \<times> string" where
  "unput t =
     (let n = length (takeWhile (\<lambda>c. c = CHR ''s'') t); r = drop (n + 1) t in (take n r, drop n r))"

definition demo_encode :: jwt_encode where
  "demo_encode key p = Some (put (jp_sub p) @ put (fst (jp_claim p)) @ snd (jp_claim p))"

definition demo_decode :: jwt_decode where
  "demo_decode key jwt t =
     (let (sub, r) = unput jwt; (k, v) = unput r in Some (L8W8JWT_VALID, [(''sub'', sub), (k, v)]))"

lemma unput_put [simp]: "unput (put s @ r) = (s, r)"
proof -
  have "takeWhile (\<lambda>c. c = CHR ''s'') (replicate n (CHR ''s'') @ CHR ''.'' # u) = replicate n (CHR ''s'')" for n u
    by (induction n) simp_all
  then show ?thesis by (simp add: unput_def put_def)
qed

lemma demo_library: "jwt_library demo_encode demo_decode"
  by (auto simp: jwt_library_def demo_encode_def demo_decode_def)

subsection \<open>Properties\<close>

text \<open>C25: a token is its bearer's: while a token the server has issued is in force, \<^verbatim>\<open>verify_token\<close> accepts it and
  restores exactly the user identifier and the work path it was made for, whatever the caller's
  record held before, and whichever random numbers come; the key is the one that was used, also
  when it had to be read or made up for the first token.\<close>

theorem token_roundtrip:
  assumes "jwt_library enc dec"
    and "generate_token enc now conf rnd token_key info = Inr (Some jwt, token_key')"
    and "now \<le> t" and "t \<le> now + 600"
    and "0 \<le> tk_user_id info" and "tk_user_id info < 2 ^ 64" and "length (tk_workpath info) < 1024"
  shows "verify_token dec t conf rnd' token_key' jwt old = Inr (Some L8W8JWT_VALID, info, token_key')"
  by (rule verify_generated [OF assms])

lemma token_roundtrip_witness:
  "\<exists>jwt. generate_token demo_encode 100 (Some []) (\<lambda>i. i) ''k'' \<lparr>tk_user_id = 7, tk_workpath = ''/ann''\<rparr> =
      Inr (Some jwt, ''k'') \<and>
    verify_token demo_decode 400 (Some []) (\<lambda>i. 0) ''k'' jwt \<lparr>tk_user_id = 1, tk_workpath = ''/x''\<rparr> =
      Inr (Some L8W8JWT_VALID, \<lparr>tk_user_id = 7, tk_workpath = ''/ann''\<rparr>, ''k'')"
proof -
  let ?info = "\<lparr>tk_user_id = 7, tk_workpath = ''/ann''\<rparr>"
  let ?jwt = "put (num_str 7) @ put ''workpath'' @ ''/ann''"
  have "get_token_key (Some []) (\<lambda>i. i) ''k'' = Inr (''k'', ''k'')"
    by (simp add: get_token_key_def strncmp_eq_def DEFAULT_KEY_def)
  moreover have "length ?jwt < 1024"
    using length_num_str [of 7 1] by (simp add: put_def)
  moreover have "c_long 7 = 7" by (simp add: c_long_def)
  ultimately have gen: "generate_token demo_encode 100 (Some []) (\<lambda>i. i) ''k'' ?info = Inr (Some ?jwt, ''k'')"
    by (simp add: generate_token_def demo_encode_def strcpyR_def)
  with token_roundtrip [OF demo_library gen, of 400 "\<lambda>i. 0" "\<lparr>tk_user_id = 1, tk_workpath = ''/x''\<rparr>"]
  show ?thesis by simp
qed

text \<open>Digests are faithful: two byte strings have the same hexadecimal text only if they are equal, the text
  has two digits per byte, and \<^verbatim>\<open>match_digest\<close> accepts a file for a stored digest exactly when the
  hashes of the contents agree, however the reads split the files.\<close>

theorem digest_text_exact:
  "(string_to_hex xs = string_to_hex ys \<longleftrightarrow> xs = ys) \<and> length (string_to_hex xs) = 2 * length xs \<and>
   (match_digest sha blocks (generate_digest sha blocks') \<longleftrightarrow> sha (concat blocks) = sha (concat blocks'))"
  by (auto simp: match_digest_def generate_digest_def dest: string_to_hex_inj)

end
