(* ===== verification/Entities.thy ===== *)
theory Entities
  imports SqlText
begin

text \<open>
  The records of \<^verbatim>\<open>server/entity.h\<close> and the functions of \<^verbatim>\<open>server/convert_entity.c\<close> that fill
  them from a row of a result set. A row is the list of its columns, each a text or SQL NULL;
  \<^verbatim>\<open>get_result_set\<close> of \<^verbatim>\<open>server/database.c\<close> converts a stored result row by row.
\<close>

type_synonym row = "string option list"

record user_t =
  u_id :: int
  u_name :: string
  u_password :: string
  u_delete_time :: int

record file_t =
  f_id :: int
  f_type :: int
  f_real_path :: string
  f_hash_value :: string
  f_complete :: bool
  f_quote :: int
  f_delete_time :: int

record user_file_t =
  uf_id :: int
  uf_name :: string
  uf_user_id :: int
  uf_file_id :: int
  uf_parent_id :: int
  uf_delete_time :: int

text \<open>Reading a column: outside the row, or the text of a NULL column.\<close>

definition column :: "row \<Rightarrow> nat \<Rightarrow> string option res" where
  "column r i = (if i < length r then Inr (r ! i) else Inl OutOfBounds)"

definition column_text :: "row \<Rightarrow> nat \<Rightarrow> string res" where
  "column_text r i =
     bindR (column r i) (\<lambda>c. case c of None \<Rightarrow> Inl NullDeref | Some s \<Rightarrow> Inr s)"

definition convert_to_user :: "row \<Rightarrow> user_t res" where
  "convert_to_user row_curr =
     bindR (column_text row_curr 0) (\<lambda>c0.
     bindR (column_text row_curr 1) (\<lambda>c1.
     bindR (strcpyR 30 c1) (\<lambda>name.
     bindR (column_text row_curr 2) (\<lambda>c2.
     bindR (strcpyR 70 c2) (\<lambda>password.
     bindR (column row_curr 3) (\<lambda>c3.
     Inr \<lparr>u_id = strtoul c0, u_name = name, u_password = password,
          u_delete_time = (case c3 of None \<Rightarrow> 0 | Some s \<Rightarrow> strtoul s)\<rparr>))))))"

definition convert_to_file :: "row \<Rightarrow> file_t res" where
  "convert_to_file row_curr =
     bindR (column_text row_curr 0) (\<lambda>c0.
     bindR (column_text row_curr 1) (\<lambda>c1.
     bindR (column row_curr 2) (\<lambda>c2.
     bindR (case c2 of None \<Rightarrow> Inr [] | Some s \<Rightarrow> strcpyR 1024 s) (\<lambda>real_path.
     bindR (column row_curr 3) (\<lambda>c3.
     bindR (case c3 of None \<Rightarrow> Inr [] | Some s \<Rightarrow> strcpyR 255 s) (\<lambda>hash_value.
     bindR (column_text row_curr 4) (\<lambda>c4.
     bindR (column_text row_curr 5) (\<lambda>c5.
     bindR (column row_curr 6) (\<lambda>c6.
     Inr \<lparr>f_id = strtoul c0, f_type = (if ''dir'' \<noteq> c1 then 1 else 0),
          f_real_path = real_path, f_hash_value = hash_value, f_complete = (atoi c4 \<noteq> 0),
          f_quote = atoi c5,
          f_delete_time = (case c6 of None \<Rightarrow> 0 | Some s \<Rightarrow> strtoul s)\<rparr>)))))))))"

definition convert_to_userfile :: "row \<Rightarrow> user_file_t res" where
  "convert_to_userfile row_curr =
     bindR (column_text row_curr 0) (\<lambda>c0.
     bindR (column_text row_curr 1) (\<lambda>c1.
     bindR (strcpyR 128 c1) (\<lambda>name.
     bindR (column_text row_curr 2) (\<lambda>c2.
     bindR (column_text row_curr 3) (\<lambda>c3.
     bindR (column row_curr 4) (\<lambda>c4.
     bindR (column row_curr 5) (\<lambda>c5.
     Inr \<lparr>uf_id = strtoul c0, uf_name = name, uf_user_id = strtoul c2, uf_file_id = strtoul c3,
          uf_parent_id = (case c4 of None \<Rightarrow> 0 | Some s \<Rightarrow> strtoul s),
          uf_delete_time = (case c5 of None \<Rightarrow> 0 | Some s \<Rightarrow> strtoul s)\<rparr>)))))))"

text \<open>
  \<^verbatim>\<open>get_result_set\<close>: a stored result of \<^verbatim>\<open>None\<close> is the null pointer \<^verbatim>\<open>mysql_store_result\<close> returns when
  the statement failed, which \<^verbatim>\<open>mysql_num_rows\<close> dereferences.
\<close>

fun convert_rows :: "(row \<Rightarrow> 'a res) \<Rightarrow> row list \<Rightarrow> 'a list res" where
  "convert_rows convert [] = Inr []"
| "convert_rows convert (r # rs) =
     bindR (convert r) (\<lambda>x. bindR (convert_rows convert rs) (\<lambda>xs. Inr (x # xs)))"

definition get_result_set :: "row list option \<Rightarrow> (row \<Rightarrow> 'a res) \<Rightarrow> 'a list res" where
  "get_result_set stored convert =
     (case stored of None \<Rightarrow> Inl NullDeref | Some rows \<Rightarrow> convert_rows convert rows)"

subsection \<open>Rows as the server stores them\<close>

text \<open>
  The rows the three tables hold for records the server has written, and the records that fit
  their buffers. A NULL time or parent reads back as 0, a NULL path or digest as the empty text.
\<close>

definition null_or :: "('a \<Rightarrow> string) \<Rightarrow> bool \<Rightarrow> 'a \<Rightarrow> string option" where
  "null_or f b x = (if b then None else Some (f x))"

definition row_of_user :: "user_t \<Rightarrow> row" where
  "row_of_user u =
     [Some (num_str (u_id u)), Some (u_name u), Some (u_password u),
      null_or num_str (u_delete_time u = 0) (u_delete_time u)]"

definition row_of_file :: "file_t \<Rightarrow> row" where
  "row_of_file f =
     [Some (num_str (f_id f)), Some (if f_type f = 0 then ''dir'' else ''file''),
      null_or id (f_real_path f = []) (f_real_path f),
      null_or id (f_hash_value f = []) (f_hash_value f),
      Some (num_str (if f_complete f then 1 else 0)), Some (num_str (f_quote f)),
      null_or num_str (f_delete_time f = 0) (f_delete_time f)]"

definition row_of_userfile :: "user_file_t \<Rightarrow> row" where
  "row_of_userfile uf =
     [Some (num_str (uf_id uf)), Some (uf_name uf), Some (num_str (uf_user_id uf)),
      Some (num_str (uf_file_id uf)),
      null_or num_str (uf_parent_id uf = 0) (uf_parent_id uf),
      null_or num_str (uf_delete_time uf = 0) (uf_delete_time uf)]"

definition ulong :: "int \<Rightarrow> bool" where
  "ulong n \<longleftrightarrow> 0 \<le> n \<and> n < 2 ^ 64"

definition user_ok :: "user_t \<Rightarrow> bool" where
  "user_ok u \<longleftrightarrow> ulong (u_id u) \<and> length (u_name u) < 30 \<and> length (u_password u) < 70 \<and>
     ulong (u_delete_time u)"

definition file_ok :: "file_t \<Rightarrow> bool" where
  "file_ok f \<longleftrightarrow> ulong (f_id f) \<and> f_type f \<in> {0, 1} \<and> length (f_real_path f) < 1024 \<and>
     length (f_hash_value f) < 255 \<and> 0 \<le> f_quote f \<and> f_quote f < 2 ^ 31 \<and> ulong (f_delete_time f)"

definition userfile_ok :: "user_file_t \<Rightarrow> bool" where
  "userfile_ok uf \<longleftrightarrow> ulong (uf_id uf) \<and> length (uf_name uf) < 128 \<and> ulong (uf_user_id uf) \<and>
     ulong (uf_file_id uf) \<and> ulong (uf_parent_id uf) \<and> ulong (uf_delete_time uf)"

lemma strtoul_ulong: "ulong n \<Longrightarrow> strtoul (num_str n) = n"
  by (simp add: ulong_def strtoul_num_str)

lemmas convert_simps = column_def column_text_def null_or_def strcpyR_def strtoul_ulong atoi_num_str

lemma convert_user_row: "user_ok u \<Longrightarrow> convert_to_user (row_of_user u) = Inr u"
  by (cases u) (simp add: user_ok_def convert_to_user_def row_of_user_def convert_simps)

lemma convert_file_row: "file_ok f \<Longrightarrow> convert_to_file (row_of_file f) = Inr f"
  by (cases f) (auto simp: file_ok_def convert_to_file_def row_of_file_def convert_simps)

lemma convert_userfile_row: "userfile_ok uf \<Longrightarrow> convert_to_userfile (row_of_userfile uf) = Inr uf"
  by (cases uf) (simp add: userfile_ok_def convert_to_userfile_def row_of_userfile_def convert_simps)

interpretation user_rows: codec row_of_user convert_to_user user_ok
  by unfold_locales (rule convert_user_row)

interpretation file_rows: codec row_of_file convert_to_file file_ok
  by unfold_locales (rule convert_file_row)

interpretation entry_rows: codec row_of_userfile convert_to_userfile userfile_ok
  by unfold_locales (rule convert_userfile_row)

text \<open>Tables that differ are stored differently.\<close>

lemma rows_faithful:
  "list_all user_ok us \<Longrightarrow> list_all user_ok us' \<Longrightarrow> map row_of_user us = map row_of_user us' \<longleftrightarrow> us = us'"
  "list_all file_ok fs \<Longrightarrow> list_all file_ok fs' \<Longrightarrow> map row_of_file fs = map row_of_file fs' \<longleftrightarrow> fs = fs'"
  "list_all userfile_ok es \<Longrightarrow> list_all userfile_ok es' \<Longrightarrow>
   map row_of_userfile es = map row_of_userfile es' \<longleftrightarrow> es = es'"
  by (rule user_rows.enc_map_inj file_rows.enc_map_inj entry_rows.enc_map_inj; assumption)+

lemma convert_rows_map:
  "(\<And>x. x \<in> set xs \<Longrightarrow> conv (f x) = Inr x) \<Longrightarrow> convert_rows conv (map f xs) = Inr xs"
  by (induction xs) simp_all

lemma get_users: "\<forall>u\<in>set us. user_ok u \<Longrightarrow> get_result_set (Some (map row_of_user us)) convert_to_user = Inr us"
  by (simp add: get_result_set_def convert_rows_map user_rows.dec_enc)

lemma get_files: "\<forall>f\<in>set fs. file_ok f \<Longrightarrow> get_result_set (Some (map row_of_file fs)) convert_to_file = Inr fs"
  by (simp add: get_result_set_def convert_rows_map file_rows.dec_enc)

lemma get_userfiles:
  "\<forall>uf\<in>set ufs. userfile_ok uf \<Longrightarrow>
   get_result_set (Some (map row_of_userfile ufs)) convert_to_userfile = Inr ufs"
  by (simp add: get_result_set_def convert_rows_map entry_rows.dec_enc)

subsection \<open>Properties\<close>

text \<open>Entity round trip: whatever user, file and directory-entry records fit their fixed buffers, the
  rows that store them convert back to exactly these records, in order, NULL columns included.\<close>

theorem result_set_roundtrip:
  assumes "list_all user_ok us" and "list_all file_ok fs" and "list_all userfile_ok ufs"
  shows "get_result_set (Some (map row_of_user us)) convert_to_user = Inr us \<and>
    get_result_set (Some (map row_of_file fs)) convert_to_file = Inr fs \<and>
    get_result_set (Some (map row_of_userfile ufs)) convert_to_userfile = Inr ufs"
  using assms by (simp add: get_users get_files get_userfiles list_all_iff)

lemma result_set_roundtrip_witness:
  "get_result_set (Some (map row_of_userfile
      [\<lparr>uf_id = 3, uf_name = ''a'', uf_user_id = 1, uf_file_id = 9, uf_parent_id = 0, uf_delete_time = 0\<rparr>]))
     convert_to_userfile =
   Inr [\<lparr>uf_id = 3, uf_name = ''a'', uf_user_id = 1, uf_file_id = 9, uf_parent_id = 0, uf_delete_time = 0\<rparr>]"
  using result_set_roundtrip [of "[]" "[]"
      "[\<lparr>uf_id = 3, uf_name = ''a'', uf_user_id = 1, uf_file_id = 9, uf_parent_id = 0, uf_delete_time = 0\<rparr>]"]
  by (simp add: userfile_ok_def ulong_def)

text \<open>A name longer than its buffer does not survive the conversion: \<^verbatim>\<open>strcpy\<close> writes past
  \<^verbatim>\<open>user_t.name\<close> (30 characters) and past \<^verbatim>\<open>user_file_t.name\<close> (128 characters).\<close>

theorem convert_overflow:
  "(30 \<le> length n \<longrightarrow> convert_to_user (Some i # Some n # r) = Inl OutOfBounds) \<and>
   (128 \<le> length n \<longrightarrow> convert_to_userfile (Some i # Some n # r) = Inl OutOfBounds)"
  by (simp add: convert_to_user_def convert_to_userfile_def convert_simps)

lemma convert_overflow_witness:
  "convert_to_user [Some ''1'', Some (replicate 30 CHR ''n''), Some ''p'', None] = Inl OutOfBounds"
  using convert_overflow [of "replicate 30 CHR ''n''"] by simp

end
