(* ===== verification/SqlServer.thy ===== *)
theory SqlServer
  imports Entities "HOL-Library.Multiset"
begin

text \<open>
  The statements \<^verbatim>\<open>server/deal_sql.c\<close> sends and the database server that answers them. The
  server itself (MySQL) is not part of the program: it is the parameter \<open>'d mysql\<close> of every
  definition that talks to it, and what the program relies on is the predicate \<open>sql_server\<close>:
  the statements of the program, with texts that need no escaping and fit \<^verbatim>\<open>query\<close>'s buffer, act
  on three tables as SQL says. Rows a \<^verbatim>\<open>select\<close> without \<^verbatim>\<open>order by\<close> returns come in any order, and text
  is compared by the server's collation and \<^verbatim>\<open>like\<close>, which are parameters too.
\<close>

subsection \<open>The client library\<close>

record 'd mysql =
  my_query :: "int \<Rightarrow> string \<Rightarrow> 'd \<Rightarrow> bool \<times> 'd"
  my_store :: "int \<Rightarrow> 'd \<Rightarrow> row list option"
  my_insert_id :: "int \<Rightarrow> 'd \<Rightarrow> int"
  my_autocommit :: "int \<Rightarrow> bool \<Rightarrow> 'd \<Rightarrow> 'd"
  my_commit :: "int \<Rightarrow> 'd \<Rightarrow> 'd"

text \<open>\<^verbatim>\<open>query\<close>: format into the buffer and send; -1 when the server refuses.\<close>

definition query :: "'d mysql \<Rightarrow> int \<Rightarrow> string \<times> sql_arg list \<Rightarrow> 'd \<Rightarrow> int \<times> 'd" where
  "query M conn st d =
     (let (failed, d) = my_query M conn (stmt_buffer (fst st) (snd st)) d
      in (if failed then -1 else 0, d))"

subsection \<open>The statements\<close>

text \<open>
  One constructor per statement of \<^verbatim>\<open>deal_sql.c\<close>, with its format string and arguments.
\<close>

datatype stmt =
    UserNamed string
  | InsUser string string
  | InsRoot
  | InsUserRoot string int int
  | FilesOfUser int
  | ListDir int
  | ListDirFiles int
  | EntryNamed int string
  | InsDir
  | InsEntry string int int int
  | FileById int
  | FileByHash string
  | InsFile string
  | InsLink string int int int
  | FileNamed int int string
  | MarkComplete string
  | EntryLike int int string
  | FileOfId int
  | DelEntry int int
  | ChildrenOf int

fun stmt_format :: "stmt \<Rightarrow> string \<times> sql_arg list" where
  "stmt_format (UserNamed n) = (''select * from user where name = '%s' '', [Str n])"
| "stmt_format (InsUser n p) = (''insert into user (name,password) values ('%s', '%s') '', [Str n, Str p])"
| "stmt_format InsRoot = (''insert into file (type,complete,quote) values ('dir','1',1) '', [])"
| "stmt_format (InsUserRoot n uid fid) =
     (''insert into user_file (name,user_id,file_id) values ('%s',%lu,%lu) '', [Str n, Num uid, Num fid])"
| "stmt_format (FilesOfUser uid) =
     (''select * from user_file where user_id = %ld order by file_id '', [Num uid])"
| "stmt_format (ListDir d) =
     (''select * from user_file where file_id in (select id from file where complete = '1') and parent_id = %ld order by file_id'',
      [Num d])"
| "stmt_format (ListDirFiles d) =
     (''select * from file where id in (select file_id from user_file where parent_id = %ld) and complete = '1' order by id'',
      [Num d])"
| "stmt_format (EntryNamed d n) =
     (''select * from user_file where parent_id = %lu and name = '%s' '', [Num d, Str n])"
| "stmt_format InsDir = (''insert into file(type,complete,quote) values ('dir','1',1) '', [])"
| "stmt_format (InsEntry n uid fid pid) =
     (''insert into user_file(name,user_id,file_id,parent_id) values ('%s',%lu,%lu,%lu) '',
      [Str n, Num uid, Num fid, Num pid])"
| "stmt_format (FileById i) = (''select * from file where id = %ld'', [Num i])"
| "stmt_format (FileByHash h) = (''select * from file where hash = '%s'' @ [quote_char], [Str h])"
| "stmt_format (InsFile h) =
     (''insert into file(type,real_path,hash,complete,quote) values ('file','%s','%s','0',1) '', [Str h, Str h])"
| "stmt_format (InsLink n uid fid pid) =
     (''insert into user_file (name,user_id,file_id,parent_id) values ('%s',%lu,%lu,%lu)'',
      [Str n, Num uid, Num fid, Num pid])"
| "stmt_format (FileNamed uid d n) =
     (''select * from file where id in (select file_id from user_file where user_id = %lu and parent_id = %lu and name = '%s' ) and type = 'file'' @ [quote_char],
      [Num uid, Num d, Str n])"
| "stmt_format (MarkComplete h) = (''update file set complete = '1' where hash = '%s' '', [Str h])"
| "stmt_format (EntryLike uid d n) =
     (''select * from user_file where file_id in (select file_id from user_file where user_id = %lu and parent_id = %lu ) and name like '%s' '',
      [Num uid, Num d, Str n])"
| "stmt_format (FileOfId i) = (''select * from file where id = %lu '', [Num i])"
| "stmt_format (DelEntry fid uid) =
     (''delete from user_file where file_id = %lu and user_id = %lu '', [Num fid, Num uid])"
| "stmt_format (ChildrenOf d) = (''select * from user_file where parent_id = %lu '', [Num d])"

definition stmt_text :: "stmt \<Rightarrow> string" where
  "stmt_text st = sql_fmt (fst (stmt_format st)) (snd (stmt_format st))"

text \<open>Arguments that need no escaping, in a statement the buffer holds.\<close>

definition plain :: "string \<Rightarrow> bool" where
  "plain s \<longleftrightarrow> quote_char \<notin> set s \<and> CHR 0x5C \<notin> set s \<and> cstr_ok s"

definition arg_ok :: "sql_arg \<Rightarrow> bool" where
  "arg_ok a = (case a of Str s \<Rightarrow> plain s | Num n \<Rightarrow> ulong n)"

definition stmt_ok :: "stmt \<Rightarrow> bool" where
  "stmt_ok st \<longleftrightarrow> list_all arg_ok (snd (stmt_format st)) \<and> length (stmt_text st) < STMT_CAP"

lemma stmt_buffer_text: "stmt_ok st \<Longrightarrow> stmt_buffer (fst (stmt_format st)) (snd (stmt_format st)) = stmt_text st"
  by (simp add: stmt_ok_def stmt_buffer_def stmt_text_def STMT_CAP_def)

lemma stmt_fits: "list_all arg_ok (snd (stmt_format st)) \<Longrightarrow> fmt_fits (fst (stmt_format st)) (snd (stmt_format st))"
  by (cases st) (simp_all add: arg_ok_def plain_def quote_char_def ulong_def is_digit_def)

subsection \<open>The three tables\<close>

record tables =
  t_users :: "user_t list"
  t_files :: "file_t list"
  t_entries :: "user_file_t list"
  t_next_user :: int
  t_next_file :: int
  t_next_entry :: int

text \<open>
  A parent of 0 stands for NULL, which equals nothing; so does an empty digest. \<open>eq\<close> is the
  collation's equality and \<open>like\<close> its pattern match.
\<close>

definition at_parent :: "int \<Rightarrow> user_file_t \<Rightarrow> bool" where
  "at_parent d e \<longleftrightarrow> uf_parent_id e = d \<and> d \<noteq> 0"

definition has_hash :: "(string \<Rightarrow> string \<Rightarrow> bool) \<Rightarrow> string \<Rightarrow> file_t \<Rightarrow> bool" where
  "has_hash eq h f \<longleftrightarrow> f_hash_value f \<noteq> [] \<and> eq (f_hash_value f) h"

definition complete_ids :: "tables \<Rightarrow> int set" where
  "complete_ids t = f_id ` {f \<in> set (t_files t). f_complete f}"

definition ids_under :: "int \<Rightarrow> tables \<Rightarrow> int set" where
  "ids_under d t = uf_file_id ` {e \<in> set (t_entries t). at_parent d e}"

definition any_order :: "('a \<Rightarrow> row) \<Rightarrow> 'a list \<Rightarrow> row list \<Rightarrow> bool" where
  "any_order f xs rows \<longleftrightarrow> (\<exists>ys. mset ys = mset xs \<and> rows = map f ys)"

definition order_by :: "('a \<Rightarrow> int) \<Rightarrow> ('a \<Rightarrow> row) \<Rightarrow> 'a list \<Rightarrow> row list \<Rightarrow> bool" where
  "order_by key f xs rows \<longleftrightarrow> (\<exists>ys. mset ys = mset xs \<and> sorted (map key ys) \<and> rows = map f ys)"

fun answers :: "(string \<Rightarrow> string \<Rightarrow> bool) \<Rightarrow> (string \<Rightarrow> string \<Rightarrow> bool) \<Rightarrow> stmt \<Rightarrow> tables \<Rightarrow>
    row list \<Rightarrow> bool" where
  "answers eq like (UserNamed n) t rows =
     any_order row_of_user (filter (\<lambda>u. eq (u_name u) n) (t_users t)) rows"
| "answers eq like (FilesOfUser uid) t rows =
     order_by uf_file_id row_of_userfile (filter (\<lambda>e. uf_user_id e = uid) (t_entries t)) rows"
| "answers eq like (ListDir d) t rows =
     order_by uf_file_id row_of_userfile
       (filter (\<lambda>e. uf_file_id e \<in> complete_ids t \<and> at_parent d e) (t_entries t)) rows"
| "answers eq like (ListDirFiles d) t rows =
     order_by f_id row_of_file
       (filter (\<lambda>f. f_id f \<in> ids_under d t \<and> f_complete f) (t_files t)) rows"
| "answers eq like (EntryNamed d n) t rows =
     any_order row_of_userfile (filter (\<lambda>e. at_parent d e \<and> eq (uf_name e) n) (t_entries t)) rows"
| "answers eq like (FileById i) t rows =
     any_order row_of_file (filter (\<lambda>f. f_id f = i) (t_files t)) rows"
| "answers eq like (FileOfId i) t rows =
     any_order row_of_file (filter (\<lambda>f. f_id f = i) (t_files t)) rows"
| "answers eq like (FileByHash h) t rows =
     any_order row_of_file (filter (has_hash eq h) (t_files t)) rows"
| "answers eq like (FileNamed uid d n) t rows =
     any_order row_of_file
       (filter (\<lambda>f. (\<exists>e\<in>set (t_entries t). uf_file_id e = f_id f \<and> uf_user_id e = uid \<and> at_parent d e \<and>
          eq (uf_name e) n) \<and> f_type f \<noteq> 0) (t_files t)) rows"
| "answers eq like (EntryLike uid d n) t rows =
     any_order row_of_userfile
       (filter (\<lambda>e. (\<exists>e'\<in>set (t_entries t). uf_file_id e' = uf_file_id e \<and> uf_user_id e' = uid \<and>
          at_parent d e') \<and> like n (uf_name e)) (t_entries t)) rows"
| "answers eq like (ChildrenOf d) t rows =
     any_order row_of_userfile (filter (at_parent d) (t_entries t)) rows"
| "answers eq like _ t rows = (rows = [])"

definition new_file :: "int \<Rightarrow> int \<Rightarrow> string \<Rightarrow> bool \<Rightarrow> file_t" where
  "new_file i ty h c =
     \<lparr>f_id = i, f_type = ty, f_real_path = h, f_hash_value = h, f_complete = c, f_quote = 1,
      f_delete_time = 0\<rparr>"

definition new_entry :: "int \<Rightarrow> string \<Rightarrow> int \<Rightarrow> int \<Rightarrow> int \<Rightarrow> user_file_t" where
  "new_entry i n uid fid pid =
     \<lparr>uf_id = i, uf_name = n, uf_user_id = uid, uf_file_id = fid, uf_parent_id = pid,
      uf_delete_time = 0\<rparr>"

definition add_file :: "int \<Rightarrow> string \<Rightarrow> bool \<Rightarrow> tables \<Rightarrow> tables \<times> int" where
  "add_file ty h c t =
     (t\<lparr>t_files := t_files t @ [new_file (t_next_file t) ty h c], t_next_file := t_next_file t + 1\<rparr>,
      t_next_file t)"

definition add_entry :: "string \<Rightarrow> int \<Rightarrow> int \<Rightarrow> int \<Rightarrow> tables \<Rightarrow> tables \<times> int" where
  "add_entry n uid fid pid t =
     (t\<lparr>t_entries := t_entries t @ [new_entry (t_next_entry t) n uid fid pid],
        t_next_entry := t_next_entry t + 1\<rparr>, t_next_entry t)"

text \<open>What a statement does to the tables, and the automatic number of the row it inserts.\<close>

fun effect :: "(string \<Rightarrow> string \<Rightarrow> bool) \<Rightarrow> stmt \<Rightarrow> tables \<Rightarrow> tables \<times> int" where
  "effect eq (InsUser n p) t =
     (t\<lparr>t_users := t_users t @ [\<lparr>u_id = t_next_user t, u_name = n, u_password = p, u_delete_time = 0\<rparr>],
        t_next_user := t_next_user t + 1\<rparr>, t_next_user t)"
| "effect eq InsRoot t = add_file 0 [] True t"
| "effect eq InsDir t = add_file 0 [] True t"
| "effect eq (InsFile h) t = add_file 1 h False t"
| "effect eq (InsUserRoot n uid fid) t = add_entry n uid fid 0 t"
| "effect eq (InsEntry n uid fid pid) t = add_entry n uid fid pid t"
| "effect eq (InsLink n uid fid pid) t = add_entry n uid fid pid t"
| "effect eq (MarkComplete h) t =
     (t\<lparr>t_files := map (\<lambda>f. if has_hash eq h f then f\<lparr>f_complete := True\<rparr> else f) (t_files t)\<rparr>, 0)"
| "effect eq (DelEntry fid uid) t =
     (t\<lparr>t_entries := filter (\<lambda>e. \<not> (uf_file_id e = fid \<and> uf_user_id e = uid)) (t_entries t)\<rparr>, 0)"
| "effect eq _ t = (t, 0)"

text \<open>
  The inserts the model speaks of: texts within the columns' width, a digest that is not empty,
  and room in the number ranges.
\<close>

fun insert_ok :: "stmt \<Rightarrow> tables \<Rightarrow> bool" where
  "insert_ok (InsUser n p) t \<longleftrightarrow> length n < 30 \<and> length p < 70 \<and> t_next_user t < 2 ^ 31"
| "insert_ok InsRoot t \<longleftrightarrow> t_next_file t < 2 ^ 31"
| "insert_ok InsDir t \<longleftrightarrow> t_next_file t < 2 ^ 31"
| "insert_ok (InsFile h) t \<longleftrightarrow> h \<noteq> [] \<and> length h < 255 \<and> t_next_file t < 2 ^ 31"
| "insert_ok (InsUserRoot n uid fid) t \<longleftrightarrow> length n < 128 \<and> t_next_entry t < 2 ^ 31"
| "insert_ok (InsEntry n uid fid pid) t \<longleftrightarrow> length n < 128 \<and> t_next_entry t < 2 ^ 31"
| "insert_ok (InsLink n uid fid pid) t \<longleftrightarrow> length n < 128 \<and> t_next_entry t < 2 ^ 31"
| "insert_ok (FileByHash h) t \<longleftrightarrow> h \<noteq> []"
| "insert_ok (MarkComplete h) t \<longleftrightarrow> h \<noteq> []"
| "insert_ok _ t \<longleftrightarrow> True"

subsection \<open>What the program relies on\<close>

text \<open>
  The observable state of the server: the tables as the connection at work sees them, the
  connections in manual-commit mode, per connection the pending result and the last automatic
  number, and the states of the tables that have become durable, the last one first: what is left
  when the server stops. A statement that changes the tables becomes durable at once when its
  connection commits automatically, with the commit otherwise. Statements and commits are specified
  for a connection all of whose companions commit automatically, switching the mode for a moment at
  which nothing is uncommitted.
\<close>

record sql_state =
  ss_tables :: tables
  ss_manual :: "int \<Rightarrow> bool"
  ss_rows :: "int \<Rightarrow> row list"
  ss_last :: "int \<Rightarrow> int"
  ss_log :: "tables list"

text \<open>The log after the tables \<open>t\<close> have become durable.\<close>

definition log_durable :: "tables \<Rightarrow> tables list \<Rightarrow> tables list" where
  "log_durable t log = (if log \<noteq> [] \<and> hd log = t then log else t # log)"

definition settled_log :: "sql_state \<Rightarrow> bool" where
  "settled_log s \<longleftrightarrow> ss_log s \<noteq> [] \<and> hd (ss_log s) = ss_tables s"

definition sql_server :: "(string \<Rightarrow> string \<Rightarrow> bool) \<Rightarrow> (string \<Rightarrow> string \<Rightarrow> bool) \<Rightarrow> 'd mysql \<Rightarrow>
    ('d \<Rightarrow> sql_state) \<Rightarrow> bool" where
  "sql_server eq like M st \<longleftrightarrow>
     (\<forall>s. eq s s) \<and> (\<forall>s. like s s) \<and>
     (\<forall>c d q. stmt_ok q \<longrightarrow> insert_ok q (ss_tables (st d)) \<longrightarrow> (\<forall>c'. c' \<noteq> c \<longrightarrow> \<not> ss_manual (st d) c') \<longrightarrow>
        (\<exists>rows. answers eq like q (ss_tables (st d)) rows \<and>
          \<not> fst (my_query M c (stmt_text q) d) \<and>
          st (snd (my_query M c (stmt_text q) d)) =
            (st d)\<lparr>ss_tables := fst (effect eq q (ss_tables (st d))),
                  ss_rows := (ss_rows (st d))(c := rows),
                  ss_last := (ss_last (st d))(c := snd (effect eq q (ss_tables (st d)))),
                  ss_log := (if ss_manual (st d) c \<or> fst (effect eq q (ss_tables (st d))) = ss_tables (st d)
                    then ss_log (st d) else fst (effect eq q (ss_tables (st d))) # ss_log (st d))\<rparr>)) \<and>
     (\<forall>c d. my_store M c d = Some (ss_rows (st d) c)) \<and>
     (\<forall>c d. my_insert_id M c d = ss_last (st d) c) \<and>
     (\<forall>c b d. settled_log (st d) \<longrightarrow>
        st (my_autocommit M c b d) = (st d)\<lparr>ss_manual := (ss_manual (st d))(c := \<not> b)\<rparr>) \<and>
     (\<forall>c d. (\<forall>c'. c' \<noteq> c \<longrightarrow> \<not> ss_manual (st d) c') \<longrightarrow>
        st (my_commit M c d) = (st d)\<lparr>ss_log := log_durable (ss_tables (st d)) (ss_log (st d))\<rparr>)"

text \<open>Tables whose rows fit the program's buffers and whose automatic numbers are fresh.\<close>

definition tables_ok :: "tables \<Rightarrow> bool" where
  "tables_ok t \<longleftrightarrow>
     list_all user_ok (t_users t) \<and> list_all file_ok (t_files t) \<and> list_all userfile_ok (t_entries t) \<and>
     1 \<le> t_next_user t \<and> t_next_user t \<le> 2 ^ 31 \<and> 1 \<le> t_next_file t \<and> t_next_file t \<le> 2 ^ 31 \<and>
     1 \<le> t_next_entry t \<and> t_next_entry t \<le> 2 ^ 31 \<and>
     list_all (\<lambda>u. 0 < u_id u \<and> u_id u < t_next_user t) (t_users t) \<and>
     list_all (\<lambda>f. 0 < f_id f \<and> f_id f < t_next_file t) (t_files t) \<and>
     list_all (\<lambda>e. 0 < uf_file_id e \<and> uf_file_id e < t_next_file t) (t_entries t)"

end
