(* ===== verification/DealSql.thy ===== *)
theory DealSql
  imports SqlServer DbPool ToolText
begin

text \<open>
  The operations of \<^verbatim>\<open>server/deal_sql.c\<close>: accounts, directories and files in the three tables.
  Each takes a connection from the pool, sends statements and gives the connection back. The
  state is the pool and the database; the database is reached through the parameter \<open>M\<close> only.
\<close>

record 'd world =
  w_pool :: db_pool
  w_db :: 'd

subsection \<open>Calls on a connection\<close>

definition connect :: "'d world \<Rightarrow> (int option \<times> 'd world) res" where
  "connect w = bindR (get_connection (w_pool w)) (\<lambda>(c, p). Inr (c, w\<lparr>w_pool := p\<rparr>))"

definition release :: "int \<Rightarrow> 'd world \<Rightarrow> 'd world" where
  "release c w = w\<lparr>w_pool := release_connection c (w_pool w)\<rparr>"

text \<open>No caller looks at the result of \<^verbatim>\<open>query\<close>.\<close>

definition send_stmt :: "'d mysql \<Rightarrow> int \<Rightarrow> stmt \<Rightarrow> 'd world \<Rightarrow> 'd world" where
  "send_stmt M c st w = w\<lparr>w_db := snd (query M c (stmt_format st) (w_db w))\<rparr>"

definition fetch :: "'d mysql \<Rightarrow> int \<Rightarrow> (row \<Rightarrow> 'a res) \<Rightarrow> 'd world \<Rightarrow> 'a list res" where
  "fetch M c convert w = get_result_set (my_store M c (w_db w)) convert"

definition insert_id :: "'d mysql \<Rightarrow> int \<Rightarrow> 'd world \<Rightarrow> int" where
  "insert_id M c w = my_insert_id M c (w_db w)"

definition autocommit :: "'d mysql \<Rightarrow> int \<Rightarrow> bool \<Rightarrow> 'd world \<Rightarrow> 'd world" where
  "autocommit M c b w = w\<lparr>w_db := my_autocommit M c b (w_db w)\<rparr>"

definition commit :: "'d mysql \<Rightarrow> int \<Rightarrow> 'd world \<Rightarrow> 'd world" where
  "commit M c w = w\<lparr>w_db := my_commit M c (w_db w)\<rparr>"

text \<open>Reading the first record of a result set that may have none.\<close>

definition first_of :: "'a list \<Rightarrow> 'a res" where
  "first_of xs = (case xs of [] \<Rightarrow> Inl OutOfBounds | x # _ \<Rightarrow> Inr x)"

text \<open>The callers that use the connection without looking whether they got one.\<close>

definition connect_unchecked :: "'d world \<Rightarrow> (int \<times> 'd world) res" where
  "connect_unchecked w =
     bindR (connect w) (\<lambda>(c, w). case c of None \<Rightarrow> Inl NullDeref | Some c \<Rightarrow> Inr (c, w))"

subsection \<open>Accounts\<close>

definition get_user :: "'d mysql \<Rightarrow> string \<Rightarrow> 'd world \<Rightarrow> (user_t list option \<times> 'd world) res" where
  "get_user M user_name w =
     bindR (connect w) (\<lambda>(c, w).
     case c of
       None \<Rightarrow> Inr (None, w)
     | Some c \<Rightarrow>
         let w = send_stmt M c (UserNamed user_name) w in
         bindR (fetch M c convert_to_user w) (\<lambda>result_set.
         if result_set = [] then Inr (None, release c w)
         else Inr (Some result_set, release c w)))"

text \<open>The result of \<^verbatim>\<open>encrypt_password\<close> fills an array of 62 characters.\<close>

definition user_register :: "'d mysql \<Rightarrow> (string \<Rightarrow> string) \<Rightarrow> string \<Rightarrow> string \<Rightarrow> 'd world \<Rightarrow>
    (int \<times> 'd world) res" where
  "user_register M encrypt account password w =
     bindR (connect w) (\<lambda>(c, w).
     case c of
       None \<Rightarrow> Inr (-1, w)
     | Some c \<Rightarrow>
         let w = autocommit M c False w;
             w = send_stmt M c (UserNamed account) w in
         bindR (fetch M c convert_to_user w) (\<lambda>result_set.
         if result_set \<noteq> [] then Inr (0, release c w)
         else
           bindR (strcpyR 62 (encrypt password)) (\<lambda>hash_word.
           let w = send_stmt M c (InsUser account hash_word) w;
               user_id = insert_id M c w;
               w = send_stmt M c InsRoot w;
               file_id = insert_id M c w;
               w = send_stmt M c (InsUserRoot account user_id file_id) w;
               w = autocommit M c True (commit M c w)
           in Inr (c_int user_id, release c w))))"

subsection \<open>Directories\<close>

text \<open>The scan of \<^verbatim>\<open>query_cd\<close>: the parent identifier is an \<^verbatim>\<open>int\<close>, the columns are \<^verbatim>\<open>unsigned long\<close>.\<close>

fun cd_scan :: "user_file_t list \<Rightarrow> string list \<Rightarrow> int \<Rightarrow> nat \<Rightarrow> int \<times> nat" where
  "cd_scan [] path_name parent_id path_confirm = (parent_id, path_confirm)"
| "cd_scan (f # fs) path_name parent_id path_confirm =
     (if path_confirm = length path_name then (parent_id, path_confirm)
      else if uf_name f = path_name ! path_confirm \<and> c_ulong parent_id = uf_parent_id f
      then cd_scan fs path_name (c_int (uf_file_id f)) (path_confirm + 1)
      else cd_scan fs path_name parent_id path_confirm)"

definition query_cd :: "'d mysql \<Rightarrow> string \<Rightarrow> int \<Rightarrow> 'd world \<Rightarrow> (int \<times> 'd world) res" where
  "query_cd M path user_id w =
     bindR (connect w) (\<lambda>(c, w).
     case c of
       None \<Rightarrow> Inr (-1, w)
     | Some c \<Rightarrow>
         let w = send_stmt M c (FilesOfUser user_id) w in
         bindR (fetch M c convert_to_userfile w) (\<lambda>file.
         if file = [] then Inr (-1, release c w)
         else
           bindR (splite_file_name path) (\<lambda>path_name.
           let (parent_id, path_confirm) = cd_scan file path_name (c_int (uf_parent_id (hd file))) 0
           in Inr (if path_confirm = length path_name then parent_id else 0, release c w))))"

definition query_ls :: "'d mysql \<Rightarrow> string \<Rightarrow> int \<Rightarrow> 'd world \<Rightarrow>
    (user_file_t list option \<times> 'd world) res" where
  "query_ls M path user_id w =
     bindR (query_cd M path user_id w) (\<lambda>(cur_dir_id, w).
     if cur_dir_id \<le> 0 then Inr (None, w)
     else
       bindR (connect w) (\<lambda>(c, w).
       case c of
         None \<Rightarrow> Inr (None, w)
       | Some c \<Rightarrow>
           let w = send_stmt M c (ListDir cur_dir_id) w in
           bindR (fetch M c convert_to_userfile w) (\<lambda>result_set.
           Inr (Some result_set, release c w))))"

definition query_ll :: "'d mysql \<Rightarrow> string \<Rightarrow> int \<Rightarrow> 'd world \<Rightarrow>
    (file_t list option \<times> 'd world) res" where
  "query_ll M path user_id w =
     bindR (query_cd M path user_id w) (\<lambda>(cur_dir_id, w).
     if cur_dir_id \<le> 0 then Inr (None, w)
     else
       bindR (connect w) (\<lambda>(c, w).
       case c of
         None \<Rightarrow> Inr (None, w)
       | Some c \<Rightarrow>
           let w = send_stmt M c (ListDirFiles cur_dir_id) w in
           bindR (fetch M c convert_to_file w) (\<lambda>result_set.
           Inr (Some result_set, release c w))))"

definition query_mkdir :: "'d mysql \<Rightarrow> string \<Rightarrow> string \<Rightarrow> int \<Rightarrow> 'd world \<Rightarrow> (int \<times> 'd world) res" where
  "query_mkdir M path dir_name user_id w =
     bindR (query_cd M path user_id w) (\<lambda>(cur_dir_id, w).
     if cur_dir_id \<le> 0 then Inr (cur_dir_id, w)
     else
       bindR (connect_unchecked w) (\<lambda>(c, w).
       let w = send_stmt M c (EntryNamed cur_dir_id dir_name) w in
       bindR (fetch M c convert_to_userfile w) (\<lambda>query_res.
       if query_res \<noteq> [] then Inr (1, release c w)
       else
         let w = autocommit M c False w;
             w = send_stmt M c InsDir w;
             dir_id = c_int (insert_id M c w);
             w = send_stmt M c (InsEntry dir_name user_id dir_id cur_dir_id) w;
             w = autocommit M c True (commit M c w)
         in Inr (2, release c w))))"

subsection \<open>Files\<close>

definition query_puts :: "'d mysql \<Rightarrow> string \<Rightarrow> string \<Rightarrow> string \<Rightarrow> int \<Rightarrow> 'd world \<Rightarrow>
    (int \<times> 'd world) res" where
  "query_puts M path file_name hash_value user_id w =
     bindR (query_cd M path user_id w) (\<lambda>(cur_dir_id, w).
     if cur_dir_id < 0 then Inr (-2, w)
     else if cur_dir_id = 0 then Inr (-1, w)
     else
       bindR (connect_unchecked w) (\<lambda>(c, w).
       let w = send_stmt M c (EntryNamed cur_dir_id file_name) w in
       bindR (fetch M c convert_to_userfile w) (\<lambda>query_res.
       case query_res of
         e # _ \<Rightarrow>
           let w = send_stmt M c (FileById (c_int (uf_file_id e))) w in
           bindR (fetch M c convert_to_file w) (\<lambda>query_res.
           bindR (first_of query_res) (\<lambda>same_name_file.
           Inr (if hash_value = f_hash_value same_name_file
                then if f_complete same_name_file then 2 else 1 else 0, release c w)))
       | [] \<Rightarrow>
           let w = send_stmt M c (FileByHash hash_value) w in
           bindR (fetch M c convert_to_file w) (\<lambda>query_res.
           case query_res of
             [] \<Rightarrow>
               let w = autocommit M c False w;
                   w = send_stmt M c (InsFile hash_value) w;
                   file_id = insert_id M c w;
                   w = send_stmt M c (InsLink file_name user_id file_id cur_dir_id) w;
                   w = autocommit M c True (commit M c w)
               in Inr (1, release c w)
           | file_info # _ \<Rightarrow>
               let w = send_stmt M c (InsLink file_name user_id (f_id file_info) cur_dir_id) w
               in Inr (if f_complete file_info then 2 else 1, release c w)))))"

definition query_gets :: "'d mysql \<Rightarrow> string \<Rightarrow> string \<Rightarrow> int \<Rightarrow> 'd world \<Rightarrow>
    (int \<times> string \<times> 'd world) res" where
  "query_gets M path file_name user_id w =
     bindR (query_cd M path user_id w) (\<lambda>(cur_dir_id, w).
     if cur_dir_id < 0 then Inr (-1, [], w)
     else if cur_dir_id = 0 then Inr (0, [], w)
     else
       bindR (connect_unchecked w) (\<lambda>(c, w).
       let w = send_stmt M c (FileNamed user_id cur_dir_id file_name) w in
       bindR (fetch M c convert_to_file w) (\<lambda>query_res.
       case query_res of
         [] \<Rightarrow> Inr (0, [], release c w)
       | file_info # _ \<Rightarrow>
           if \<not> f_complete file_info then Inr (0, [], release c w)
           else Inr (1, f_hash_value file_info, release c w))))"

definition query_update :: "'d mysql \<Rightarrow> string \<Rightarrow> 'd world \<Rightarrow> (int \<times> 'd world) res" where
  "query_update M hash_value w =
     bindR (connect w) (\<lambda>(c, w).
     case c of
       None \<Rightarrow> Inr (1, w)
     | Some c \<Rightarrow> Inr (0, release c (send_stmt M c (MarkComplete hash_value) w)))"

definition query_remove :: "'d mysql \<Rightarrow> string \<Rightarrow> string \<Rightarrow> int \<Rightarrow> 'd world \<Rightarrow> (int \<times> 'd world) res" where
  "query_remove M path file_name user_id w =
     bindR (query_cd M path user_id w) (\<lambda>(cur_dir_id, w).
     if cur_dir_id \<le> 0 then Inr (cur_dir_id, w)
     else
       bindR (connect_unchecked w) (\<lambda>(c, w).
       let w = send_stmt M c (EntryLike user_id cur_dir_id file_name) w in
       bindR (fetch M c convert_to_userfile w) (\<lambda>res_userfile.
       case res_userfile of
         [] \<Rightarrow> Inr (1, release c w)
       | user_file_info # _ \<Rightarrow>
           let file_id = uf_file_id user_file_info;
               w = send_stmt M c (FileOfId file_id) w in
           bindR (fetch M c convert_to_file w) (\<lambda>res_file.
           bindR (first_of res_file) (\<lambda>file_info.
           if f_type file_info = 1 then
             Inr (0, release c (send_stmt M c (DelEntry file_id user_id) w))
           else if f_type file_info = 0 then
             let w = send_stmt M c (ChildrenOf file_id) w in
             bindR (fetch M c convert_to_userfile w) (\<lambda>res_child_file.
             if res_child_file \<noteq> [] then Inr (2, release c w)
             else Inr (0, release c (send_stmt M c (DelEntry file_id user_id) w)))
           else Inr (0, release c w))))))"

subsection \<open>Looking a path up\<close>

text \<open>
  The entry of a directory with a given name, and the identifier a list of names leads to when
  each step goes to an entry numbered after its directory.
\<close>

definition child :: "user_file_t list \<Rightarrow> int \<Rightarrow> string \<Rightarrow> user_file_t option" where
  "child es p n = find (\<lambda>e. uf_parent_id e = p \<and> uf_name e = n) es"

fun walk :: "user_file_t list \<Rightarrow> int \<Rightarrow> string list \<Rightarrow> int option" where
  "walk es p [] = Some p"
| "walk es p (n # ns) =
     (case child es p n of
        None \<Rightarrow> None
      | Some e \<Rightarrow> if p < uf_file_id e then walk es (uf_file_id e) ns else None)"

text \<open>
  One user's entries: names unique within a directory, identifiers in the positive \<^verbatim>\<open>int\<close> range,
  no entry its own directory.
\<close>

definition entries_ok :: "user_file_t list \<Rightarrow> bool" where
  "entries_ok es \<longleftrightarrow>
     distinct (map (\<lambda>e. (uf_parent_id e, uf_name e)) es) \<and>
     list_all (\<lambda>e. 0 < uf_file_id e \<and> uf_file_id e < 2 ^ 31 \<and> 0 \<le> uf_parent_id e \<and>
       uf_parent_id e < 2 ^ 31 \<and> uf_parent_id e \<noteq> uf_file_id e) es"

lemma child_Cons:
  "child (e # es) p n = (if uf_parent_id e = p \<and> uf_name e = n then Some e else child es p n)"
  by (simp add: child_def)

lemma child_Some: "child es p n = Some e \<Longrightarrow> e \<in> set es \<and> uf_parent_id e = p \<and> uf_name e = n"
  by (auto simp: child_def find_Some_iff)

text \<open>Beyond a directory numbered from an entry on, that entry plays no part.\<close>

lemma child_unique:
  "\<forall>x\<in>set es. (uf_parent_id x, uf_name x) \<noteq> (uf_parent_id e, uf_name e) \<Longrightarrow>
   child es (uf_parent_id e) (uf_name e) = None"
  by (induction es) (auto simp: child_def)

lemma walk_Cons_later:
  assumes later: "\<forall>x\<in>set es. uf_file_id e \<le> uf_file_id x"
    and uniq: "\<forall>x\<in>set es. (uf_parent_id x, uf_name x) \<noteq> (uf_parent_id e, uf_name e)"
    and "uf_file_id e \<le> p"
  shows "walk (e # es) p ns = walk es p ns"
  using assms(3)
proof (induction ns arbitrary: p)
  case (Cons n ns)
  show ?case
  proof (cases "uf_parent_id e = p \<and> uf_name e = n")
    case True
    with Cons.prems child_unique [OF uniq] show ?thesis by (auto simp: child_Cons)
  next
    case False
    then have c: "child (e # es) p n = child es p n" by (auto simp: child_Cons)
    show ?thesis
    proof (cases "child es p n")
      case (Some x)
      with child_Some later have "uf_file_id e \<le> uf_file_id x" by blast
      with Some c Cons.IH [of "uf_file_id x"] show ?thesis by simp
    qed (simp add: c)
  qed
qed simp

text \<open>An entry that is not the next directory of the path does not change the walk.\<close>

lemma walk_skip:
  assumes later: "\<forall>x\<in>set es. uf_file_id e \<le> uf_file_id x"
    and uniq: "\<forall>x\<in>set es. (uf_parent_id x, uf_name x) \<noteq> (uf_parent_id e, uf_name e)"
    and no: "\<not> (uf_name e = n \<and> p = uf_parent_id e)"
  shows "walk (e # es) p (n # ns) = walk es p (n # ns)"
proof (cases "child es p n")
  case None
  with no show ?thesis by (auto simp: child_Cons)
next
  case (Some x)
  then have "uf_file_id e \<le> uf_file_id x" using child_Some later by blast
  with Some no walk_Cons_later [OF later uniq, of "uf_file_id x"] show ?thesis by (auto simp: child_Cons)
qed

text \<open>The scan finds what \<open>walk\<close> finds, and reports the whole path confirmed only then.\<close>

lemma cd_scan_walk:
  assumes "entries_ok es" and "sorted (map uf_file_id es)" and "0 \<le> p" and "p < 2 ^ 31"
    and "\<forall>e\<in>set es. p \<le> uf_file_id e" and "k \<le> length ns"
  shows "walk es p (drop k ns) =
    (case cd_scan es ns p k of (q, j) \<Rightarrow> if j = length ns then Some q else None)"
  using assms
proof (induction es arbitrary: p k)
  case Nil
  then show ?case by (cases "drop k ns") (auto simp: child_def)
next
  case (Cons e es)
  have ok: "entries_ok es"
    and ide: "0 < uf_file_id e" "uf_file_id e < 2 ^ 31" "uf_parent_id e \<noteq> uf_file_id e"
    using Cons.prems(1) by (simp_all add: entries_ok_def)
  have srt: "sorted (map uf_file_id es)" and later: "\<forall>x\<in>set es. uf_file_id e \<le> uf_file_id x"
    using Cons.prems(2) by simp_all
  have uniq: "\<forall>x\<in>set es. (uf_parent_id x, uf_name x) \<noteq> (uf_parent_id e, uf_name e)"
    using Cons.prems(1) by (simp add: entries_ok_def image_iff) metis
  show ?case
  proof (cases "k = length ns")
    case True
    then show ?thesis by simp
  next
    case False
    with Cons.prems have k: "drop k ns = ns ! k # drop (Suc k) ns" "Suc k \<le> length ns"
      by (simp_all add: Cons_nth_drop_Suc)
    show ?thesis
    proof (cases "uf_name e = ns ! k \<and> p = uf_parent_id e")
      case True
      then have "p < uf_file_id e" using Cons.prems(5) ide(3) by force
      then have "walk (e # es) p (drop k ns) = walk (e # es) (uf_file_id e) (drop (Suc k) ns)"
        using True by (simp add: k(1) child_Cons)
      also have "\<dots> = walk es (uf_file_id e) (drop (Suc k) ns)"
        by (rule walk_Cons_later [OF later uniq]) simp
      also have "\<dots> = (case cd_scan es ns (uf_file_id e) (Suc k) of (q, j) \<Rightarrow>
          if j = length ns then Some q else None)"
        by (rule Cons.IH [OF ok srt]) (use ide later k in auto)
      finally show ?thesis
        using True False Cons.prems(3,4) ide by (simp add: c_int_id c_ulong_id)
    next
      case no: False
      have "walk (e # es) p (drop k ns) = walk es p (drop k ns)"
        unfolding k(1) by (rule walk_skip [OF later uniq no])
      also have "\<dots> = (case cd_scan es ns p k of (q, j) \<Rightarrow> if j = length ns then Some q else None)"
        using Cons.prems by (intro Cons.IH [OF ok srt]) auto
      finally show ?thesis
        using no False Cons.prems(3,4) by (auto simp: c_ulong_id)
    qed
  qed
qed

lemma child_perm:
  assumes "entries_ok es" and "mset es' = mset es"
  shows "child es' p n = child es p n"
proof -
  have set: "set es' = set es" using assms(2) by (rule mset_eq_setD)
  have inj: "x = y" if "x \<in> set es" "y \<in> set es" "uf_parent_id x = uf_parent_id y" "uf_name x = uf_name y"
    for x y using assms(1) that by (auto simp: entries_ok_def distinct_map inj_on_def)
  show ?thesis
  proof (cases "child es p n")
    case None
    then have "child es' p n = None" using set by (auto simp: child_def find_None_iff)
    with None show ?thesis by simp
  next
    case (Some e)
    then have e: "e \<in> set es'" "uf_parent_id e = p" "uf_name e = n" using child_Some set by blast+
    then obtain x where x: "child es' p n = Some x"
      by (cases "child es' p n") (auto simp: child_def find_None_iff)
    with child_Some [OF x] e inj set Some show ?thesis by auto
  qed
qed

lemma walk_perm:
  assumes "entries_ok es" and "mset es' = mset es"
  shows "walk es' p ns = walk es p ns"
  using child_perm [OF assms] by (induction ns arbitrary: p) (auto split: option.splits)

lemma entries_ok_perm:
  assumes "entries_ok es" and "mset es' = mset es"
  shows "entries_ok es'"
proof -
  let ?f = "\<lambda>e. (uf_parent_id e, uf_name e)"
  have "mset (map ?f es') = mset (map ?f es)" using assms(2) by simp
  then have "distinct (map ?f es') = distinct (map ?f es)" by (rule distinct_mset_eq)
  with assms mset_eq_setD [OF assms(2)] show ?thesis by (simp add: entries_ok_def list_all_iff)
qed

subsection \<open>Statements against a server that keeps its contract\<close>

definition tabs :: "('d \<Rightarrow> sql_state) \<Rightarrow> 'd world \<Rightarrow> tables" where
  "tabs st w = ss_tables (st (w_db w))"

definition manual :: "('d \<Rightarrow> sql_state) \<Rightarrow> 'd world \<Rightarrow> int \<Rightarrow> bool" where
  "manual st w = ss_manual (st (w_db w))"

definition durable :: "('d \<Rightarrow> sql_state) \<Rightarrow> 'd world \<Rightarrow> tables list" where
  "durable st w = ss_log (st (w_db w))"

definition synced :: "('d \<Rightarrow> sql_state) \<Rightarrow> 'd world \<Rightarrow> bool" where
  "synced st w \<longleftrightarrow> settled_log (st (w_db w))"

abbreviation modes :: "('d \<Rightarrow> sql_state) \<Rightarrow> 'd world \<Rightarrow> (int \<Rightarrow> bool) \<times> tables list" where
  "modes st w \<equiv> (manual st w, durable st w)"

lemma synced_iff: "synced st w \<longleftrightarrow> durable st w \<noteq> [] \<and> hd (durable st w) = tabs st w"
  by (simp add: synced_def settled_log_def durable_def tabs_def)

text \<open>
  A world in which an operation can start: a connection is free, every connection commits
  automatically, nothing is uncommitted, the tables fit the program's buffers. And what an
  operation leaves behind: the pool and the commit modes as they were, and the given tables, which
  have become durable in one step: no other state of the tables has been durable in between.
\<close>

definition ready :: "('d \<Rightarrow> sql_state) \<Rightarrow> 'd world \<Rightarrow> bool" where
  "ready st w \<longleftrightarrow> pool_ok (w_pool w) \<and> 0 < dp_available (w_pool w) \<and>
     manual st w = (\<lambda>c. False) \<and> synced st w \<and> tables_ok (tabs st w)"

definition leaves :: "('d \<Rightarrow> sql_state) \<Rightarrow> 'd world \<Rightarrow> 'd world \<Rightarrow> tables \<Rightarrow> bool" where
  "leaves st w w' t \<longleftrightarrow> w_pool w' = w_pool w \<and> manual st w' = manual st w \<and> tabs st w' = t \<and>
     durable st w' = (if t = tabs st w then durable st w else t # durable st w)"

lemma ready_leaves: "ready st w \<Longrightarrow> leaves st w w' t \<Longrightarrow> tables_ok t \<Longrightarrow> ready st w'"
  by (simp add: ready_def leaves_def synced_iff)

lemma connect_ready:
  assumes "pool_ok (w_pool w)" and "0 < dp_available (w_pool w)"
  obtains c p where "connect w = Inr (Some c, w\<lparr>w_pool := p\<rparr>)" and "release_connection c p = w_pool w"
    and "connect_unchecked w = Inr (c, w\<lparr>w_pool := p\<rparr>)"
  using db.get_some [OF assms] by (auto simp: connect_def connect_unchecked_def)

lemma send_pool [simp]: "w_pool (send_stmt M c q w) = w_pool w"
  by (simp add: send_stmt_def)

lemma release_fields [simp]:
  "w_db (release c w) = w_db w" "w_pool (release c w) = release_connection c (w_pool w)"
  "tabs st (release c w) = tabs st w" "manual st (release c w) = manual st w"
  "tabs st (w\<lparr>w_pool := p\<rparr>) = tabs st w" "manual st (w\<lparr>w_pool := p\<rparr>) = manual st w"
  "durable st (release c w) = durable st w" "durable st (w\<lparr>w_pool := p\<rparr>) = durable st w"
  "synced st (release c w) = synced st w" "synced st (w\<lparr>w_pool := p\<rparr>) = synced st w"
  by (simp_all add: release_def tabs_def manual_def durable_def synced_def)


lemma send_ok:
  assumes srv: "sql_server eq like M st"
    and ok: "stmt_ok q" and "insert_ok q (tabs st w)" and "\<forall>c'. c' \<noteq> c \<longrightarrow> \<not> manual st w c'"
  obtains rows where "answers eq like q (tabs st w) rows"
    and "st (w_db (send_stmt M c q w)) = (st (w_db w))
      \<lparr>ss_tables := fst (effect eq q (tabs st w)),
       ss_rows := (ss_rows (st (w_db w)))(c := rows),
       ss_last := (ss_last (st (w_db w)))(c := snd (effect eq q (tabs st w))),
       ss_log := (if manual st w c \<or> fst (effect eq q (tabs st w)) = tabs st w
         then durable st w else fst (effect eq q (tabs st w)) # durable st w)\<rparr>"
proof -
  obtain f d where d: "my_query M c (stmt_text q) (w_db w) = (f, d)" by (cases "my_query M c (stmt_text q) (w_db w)")
  from assms obtain rows where "answers eq like q (tabs st w) rows"
    and "st (snd (my_query M c (stmt_text q) (w_db w))) = (st (w_db w))
      \<lparr>ss_tables := fst (effect eq q (tabs st w)),
       ss_rows := (ss_rows (st (w_db w)))(c := rows),
       ss_last := (ss_last (st (w_db w)))(c := snd (effect eq q (tabs st w))),
       ss_log := (if manual st w c \<or> fst (effect eq q (tabs st w)) = tabs st w
         then durable st w else fst (effect eq q (tabs st w)) # durable st w)\<rparr>"
    unfolding sql_server_def tabs_def manual_def durable_def by meson
  with that stmt_buffer_text [OF ok] d show ?thesis
    by (simp add: send_stmt_def query_def)
qed

lemma fetch_eq:
  assumes srv: "sql_server eq like M st"
  shows "fetch M c convert w = get_result_set (Some (ss_rows (st (w_db w)) c)) convert"
  using srv by (simp add: fetch_def sql_server_def)

lemma select_rows:
  assumes srv: "sql_server eq like M st"
    and "stmt_ok q" and "insert_ok q (tabs st w)" and "\<forall>c'. c' \<noteq> c \<longrightarrow> \<not> manual st w c'"
    and "effect eq q (tabs st w) = (tabs st w, 0)"
  obtains rows where "answers eq like q (tabs st w) rows"
    and "fetch M c convert (send_stmt M c q w) = get_result_set (Some rows) convert"
    and "tabs st (send_stmt M c q w) = tabs st w" and "modes st (send_stmt M c q w) = modes st w"
proof -
  from send_ok [OF assms(1-4)] obtain rows where "answers eq like q (tabs st w) rows"
    and "st (w_db (send_stmt M c q w)) = (st (w_db w))
      \<lparr>ss_tables := fst (effect eq q (tabs st w)),
       ss_rows := (ss_rows (st (w_db w)))(c := rows),
       ss_last := (ss_last (st (w_db w)))(c := snd (effect eq q (tabs st w))),
       ss_log := (if manual st w c \<or> fst (effect eq q (tabs st w)) = tabs st w
         then durable st w else fst (effect eq q (tabs st w)) # durable st w)\<rparr>" .
  with assms(5) that show ?thesis by (simp add: fetch_eq [OF srv] tabs_def manual_def durable_def)
qed

lemma update_ok:
  assumes srv: "sql_server eq like M st"
    and "stmt_ok q" and "insert_ok q (tabs st w)" and "\<forall>c'. c' \<noteq> c \<longrightarrow> \<not> manual st w c'"
  shows "tabs st (send_stmt M c q w) = fst (effect eq q (tabs st w))"
    and "manual st (send_stmt M c q w) = manual st w"
    and "durable st (send_stmt M c q w) = (if manual st w c \<or> fst (effect eq q (tabs st w)) = tabs st w
      then durable st w else fst (effect eq q (tabs st w)) # durable st w)"
    and "insert_id M c (send_stmt M c q w) = snd (effect eq q (tabs st w))"
proof -
  from send_ok [OF assms] obtain rows where
    "st (w_db (send_stmt M c q w)) = (st (w_db w))
      \<lparr>ss_tables := fst (effect eq q (tabs st w)),
       ss_rows := (ss_rows (st (w_db w)))(c := rows),
       ss_last := (ss_last (st (w_db w)))(c := snd (effect eq q (tabs st w))),
       ss_log := (if manual st w c \<or> fst (effect eq q (tabs st w)) = tabs st w
         then durable st w else fst (effect eq q (tabs st w)) # durable st w)\<rparr>" .
  moreover have "my_insert_id M c d = ss_last (st d) c" for d
    using srv by (simp add: sql_server_def)
  ultimately show "tabs st (send_stmt M c q w) = fst (effect eq q (tabs st w))"
    "manual st (send_stmt M c q w) = manual st w"
    "durable st (send_stmt M c q w) = (if manual st w c \<or> fst (effect eq q (tabs st w)) = tabs st w
      then durable st w else fst (effect eq q (tabs st w)) # durable st w)"
    "insert_id M c (send_stmt M c q w) = snd (effect eq q (tabs st w))"
    by (simp_all add: tabs_def manual_def durable_def insert_id_def)
qed

lemma autocommit_ok:
  assumes srv: "sql_server eq like M st" and "synced st w"
  shows "tabs st (autocommit M c b w) = tabs st w"
    and "modes st (autocommit M c b w) = ((manual st w)(c := \<not> b), durable st w)"
    and "synced st (autocommit M c b w)"
  using assms by (simp_all add: sql_server_def autocommit_def tabs_def manual_def durable_def synced_def settled_log_def)

lemma commit_ok:
  assumes srv: "sql_server eq like M st" and "\<forall>c'. c' \<noteq> c \<longrightarrow> \<not> manual st w c'"
  shows "tabs st (commit M c w) = tabs st w"
    and "modes st (commit M c w) = (manual st w, log_durable (tabs st w) (durable st w))"
    and "synced st (commit M c w)"
  using assms
  by (simp_all add: sql_server_def commit_def tabs_def manual_def durable_def synced_def settled_log_def log_durable_def)

lemma commit_pool [simp]: "w_pool (autocommit M c b w) = w_pool w" "w_pool (commit M c w) = w_pool w"
  by (simp_all add: autocommit_def commit_def)

text \<open>The end of a transaction: what it did becomes durable, and automatic commits are on again.\<close>

lemma transaction_end:
  assumes srv: "sql_server eq like M st" and "manual st w = (\<lambda>c'. c' = c)"
    and "durable st w = log" and "log \<noteq> [] \<and> hd log \<noteq> tabs st w"
  shows "tabs st (autocommit M c True (commit M c w)) = tabs st w"
    and "modes st (autocommit M c True (commit M c w)) = (\<lambda>c. False, tabs st w # log)"
proof -
  have m: "\<forall>c'. c' \<noteq> c \<longrightarrow> \<not> manual st w c'" using assms(2) by simp
  note c = commit_ok [OF srv m] and a = autocommit_ok [OF srv commit_ok(3) [OF srv m], of c True]
  show "tabs st (autocommit M c True (commit M c w)) = tabs st w" using a(1) c(1) by simp
  show "modes st (autocommit M c True (commit M c w)) = (\<lambda>c. False, tabs st w # log)"
    using a(2) c(2) assms by (auto simp: log_durable_def fun_eq_iff)
qed

end
