(* ===== verification/Directory.thy ===== *)
theory Directory
  imports DealSql
begin

text \<open>
  What the operations of \<^verbatim>\<open>server/deal_sql.c\<close> achieve on the tables, for every database server that
  keeps the contract \<open>sql_server\<close>: path lookup, directory creation, upload registration,
  download lookup, removal and registration, each on every result code, and the pool balance.
\<close>

subsection \<open>Statements that fit the buffer\<close>

definition arg_len :: "sql_arg \<Rightarrow> nat" where
  "arg_len a = (case a of Str s \<Rightarrow> length s | Num n \<Rightarrow> 20)"

lemma length_sql_fmt:
  "list_all arg_ok args \<Longrightarrow> length (sql_fmt f args) \<le> length f + sum_list (map arg_len args)"
proof (induction f args rule: sql_fmt.induct)
  case (2 c f args)
  show ?case
  proof (cases "c = CHR ''%'' \<and> args \<noteq> []")
    case False
    with 2 show ?thesis by (cases args) auto
  next
    case True
    then obtain a as where args: "args = a # as" by (cases args) auto
    show ?thesis
    proof (cases a)
      case (Str s)
      with 2(1) [OF conjunct1 [OF True] args Str] 2(4) args True show ?thesis
        by (simp add: arg_len_def)
    next
      case (Num n)
      then have "length (num_str n) \<le> 20"
        using 2(4) args length_num_str [of n 20] by (simp add: arg_ok_def ulong_def)
      with 2(2) [OF conjunct1 [OF True] args Num] 2(4) args True Num show ?thesis
        by (simp add: arg_len_def)
    qed
  qed
qed simp

definition name_ok :: "string \<Rightarrow> bool" where
  "name_ok s \<longleftrightarrow> plain s \<and> length s < 128"

lemma stmt_okI:
  assumes "list_all arg_ok (snd (stmt_format q))"
    and "list_all (\<lambda>a. arg_len a \<le> 200) (snd (stmt_format q))"
  shows "stmt_ok q"
proof -
  have "length (fst (stmt_format q)) \<le> 180 \<and> length (snd (stmt_format q)) \<le> 4"
    by (cases q) (simp_all add: quote_char_def)
  moreover have "sum_list (map arg_len as) \<le> 200 * length as"
    if "list_all (\<lambda>a. arg_len a \<le> 200) as" for as
    using that by (induction as) auto
  ultimately have "length (stmt_text q) < 1024"
    using length_sql_fmt [OF assms(1), of "fst (stmt_format q)"] assms(2)
    unfolding stmt_text_def by fastforce
  with assms(1) show ?thesis by (simp add: stmt_ok_def STMT_CAP_def)
qed

lemmas stmt_ok_simps = stmt_okI arg_ok_def arg_len_def name_ok_def

subsection \<open>Looking up a directory\<close>

definition user_entries :: "int \<Rightarrow> tables \<Rightarrow> user_file_t list" where
  "user_entries uid t = filter (\<lambda>e. uf_user_id e = uid) (t_entries t)"

text \<open>The entry registration made is the user's root and precedes all others.\<close>

definition rooted :: "user_file_t list \<Rightarrow> bool" where
  "rooted es \<longleftrightarrow> (\<exists>r\<in>set es. uf_parent_id r = 0 \<and> (\<forall>e\<in>set es. e \<noteq> r \<longrightarrow> uf_file_id r < uf_file_id e))"

definition resolve_dir :: "tables \<Rightarrow> int \<Rightarrow> string \<Rightarrow> int" where
  "resolve_dir t uid path =
     (case walk (user_entries uid t) 0 (split_slash (tl path)) of None \<Rightarrow> 0 | Some q \<Rightarrow> q)"

text \<open>A user's part of the tables is in order.\<close>

definition user_tree :: "int \<Rightarrow> tables \<Rightarrow> bool" where
  "user_tree uid t \<longleftrightarrow> ulong uid \<and> entries_ok (user_entries uid t) \<and> rooted (user_entries uid t)"

lemma rooted_sorted_hd:
  assumes "rooted es" and "mset ys = mset es" and "sorted (map uf_file_id ys)"
  shows "ys \<noteq> [] \<and> uf_parent_id (hd ys) = 0"
proof -
  have set: "set ys = set es" using assms(2) by (rule mset_eq_setD)
  from assms(1) obtain r where r: "r \<in> set ys" "uf_parent_id r = 0"
    "\<forall>e\<in>set ys. e \<noteq> r \<longrightarrow> uf_file_id r < uf_file_id e"
    by (auto simp: rooted_def set)
  then obtain y zs where ys: "ys = y # zs" by (cases ys) auto
  with r assms(3) have "y = r" by fastforce
  with ys r show ?thesis by simp
qed

lemma tables_entries_ok: "tables_ok t \<Longrightarrow> set es \<subseteq> set (t_entries t) \<Longrightarrow> \<forall>e\<in>set es. userfile_ok e"
  by (auto simp: tables_ok_def list_all_iff)

lemma tables_files_ok: "tables_ok t \<Longrightarrow> set fs \<subseteq> set (t_files t) \<Longrightarrow> \<forall>f\<in>set fs. file_ok f"
  by (auto simp: tables_ok_def list_all_iff)

lemma set_mset_filter: "mset ys = mset (filter P xs) \<Longrightarrow> set ys = {x \<in> set xs. P x}"
  by (metis mset_eq_setD set_filter)

text \<open>The three kinds of select: entries, files and users in some order.\<close>

lemma select_entries:
  assumes srv: "sql_server eq like M st" and q: "stmt_ok q" "insert_ok q (tabs st w)"
    and c: "\<forall>c'. c' \<noteq> c \<longrightarrow> \<not> manual st w c'" and t: "tables_ok (tabs st w)"
    and eff: "effect eq q (tabs st w) = (tabs st w, 0)"
    and ans: "\<And>rows. answers eq like q (tabs st w) rows = any_order row_of_userfile (filter P (t_entries (tabs st w))) rows"
  obtains ys where "set ys = {e \<in> set (t_entries (tabs st w)). P e}"
    and "fetch M c convert_to_userfile (send_stmt M c q w) = Inr ys"
    and "tabs st (send_stmt M c q w) = tabs st w" and "modes st (send_stmt M c q w) = modes st w"
proof -
  from select_rows [OF srv q c eff] obtain rows where "answers eq like q (tabs st w) rows"
    and f: "fetch M c convert_to_userfile (send_stmt M c q w) = get_result_set (Some rows) convert_to_userfile"
    and l: "tabs st (send_stmt M c q w) = tabs st w" "modes st (send_stmt M c q w) = modes st w" .
  then obtain ys where ys: "mset ys = mset (filter P (t_entries (tabs st w)))" "rows = map row_of_userfile ys"
    by (auto simp: ans any_order_def)
  from set_mset_filter [OF ys(1)] have set: "set ys = {e \<in> set (t_entries (tabs st w)). P e}" .
  with tables_entries_ok [OF t, of ys] have "get_result_set (Some rows) convert_to_userfile = Inr ys"
    by (simp add: ys(2) get_userfiles)
  with that set f l show ?thesis by simp
qed

lemma select_files:
  assumes srv: "sql_server eq like M st" and q: "stmt_ok q" "insert_ok q (tabs st w)"
    and c: "\<forall>c'. c' \<noteq> c \<longrightarrow> \<not> manual st w c'" and t: "tables_ok (tabs st w)"
    and eff: "effect eq q (tabs st w) = (tabs st w, 0)"
    and ans: "\<And>rows. answers eq like q (tabs st w) rows = any_order row_of_file (filter P (t_files (tabs st w))) rows"
  obtains ys where "set ys = {f \<in> set (t_files (tabs st w)). P f}"
    and "fetch M c convert_to_file (send_stmt M c q w) = Inr ys"
    and "tabs st (send_stmt M c q w) = tabs st w" and "modes st (send_stmt M c q w) = modes st w"
proof -
  from select_rows [OF srv q c eff] obtain rows where "answers eq like q (tabs st w) rows"
    and f: "fetch M c convert_to_file (send_stmt M c q w) = get_result_set (Some rows) convert_to_file"
    and l: "tabs st (send_stmt M c q w) = tabs st w" "modes st (send_stmt M c q w) = modes st w" .
  then obtain ys where ys: "mset ys = mset (filter P (t_files (tabs st w)))" "rows = map row_of_file ys"
    by (auto simp: ans any_order_def)
  from set_mset_filter [OF ys(1)] have set: "set ys = {f \<in> set (t_files (tabs st w)). P f}" .
  with tables_files_ok [OF t, of ys] have "get_result_set (Some rows) convert_to_file = Inr ys"
    by (simp add: ys(2) get_files)
  with that set f l show ?thesis by simp
qed

lemma query_cd_spec:
  assumes srv: "sql_server eq like M st" and rdy: "ready st w" and path: "path \<noteq> []"
    and tree: "user_tree uid (tabs st w)"
  shows "\<exists>w'. query_cd M path uid w = Inr (resolve_dir (tabs st w) uid path, w') \<and>
    leaves st w w' (tabs st w)"
proof -
  let ?t = "tabs st w" and ?es = "user_entries uid (tabs st w)" and ?ns = "split_slash (tl path)"
  from rdy obtain c p where con: "connect w = Inr (Some c, w\<lparr>w_pool := p\<rparr>)"
    and rel: "release_connection c p = w_pool w"
    using connect_ready unfolding ready_def by metis
  let ?w = "w\<lparr>w_pool := p\<rparr>" and ?q = "FilesOfUser uid"
  have ok: "stmt_ok ?q" using tree by (intro stmt_okI) (simp_all add: user_tree_def arg_ok_def arg_len_def)
  have man: "\<forall>c'. c' \<noteq> c \<longrightarrow> \<not> manual st ?w c'" using rdy by (simp add: ready_def)
  obtain rows where a: "answers eq like ?q ?t rows"
    and f: "fetch M c convert_to_userfile (send_stmt M c ?q ?w) = get_result_set (Some rows) convert_to_userfile"
    and l: "tabs st (send_stmt M c ?q ?w) = ?t" "modes st (send_stmt M c ?q ?w) = modes st w"
    using select_rows [OF srv ok _ man, of convert_to_userfile] by auto
  then obtain ys where ys: "mset ys = mset ?es" "sorted (map uf_file_id ys)" "rows = map row_of_userfile ys"
    by (auto simp: order_by_def user_entries_def)
  have set: "set ys = set ?es" using ys(1) by (rule mset_eq_setD)
  have sub: "set ys \<subseteq> set (t_entries ?t)" by (auto simp: set user_entries_def)
  have "get_result_set (Some rows) convert_to_userfile = Inr ys"
    using tables_entries_ok [OF _ sub] rdy by (simp add: ys(3) get_userfiles ready_def)
  moreover have hd: "ys \<noteq> []" "uf_parent_id (hd ys) = 0"
    using rooted_sorted_hd [OF _ ys(1,2)] tree by (simp_all add: user_tree_def)
  moreover have eok: "entries_ok ys" using entries_ok_perm [OF _ ys(1)] tree by (simp add: user_tree_def)
  have nn: "\<forall>e\<in>set ys. 0 \<le> uf_file_id e" using eok by (auto simp: entries_ok_def list_all_iff)
  have "walk ys 0 ?ns = (case cd_scan ys ?ns 0 0 of (q, j) \<Rightarrow> if j = length ?ns then Some q else None)"
    using cd_scan_walk [OF eok ys(2) _ _ nn, of 0 ?ns] by simp
  moreover have "walk ys 0 ?ns = walk ?es 0 ?ns"
    using walk_perm [OF _ ys(1)] tree by (simp add: user_tree_def)
  ultimately have "query_cd M path uid w =
      Inr (resolve_dir ?t uid path, release c (send_stmt M c ?q ?w))"
    using con f splite_file_name_split [OF path]
    by (auto simp: query_cd_def resolve_dir_def c_int_id split: prod.splits)
  with l rel rdy show ?thesis by (simp add: leaves_def)
qed

lemma walk_range:
  "entries_ok es \<Longrightarrow> walk es p ns = Some q \<Longrightarrow> 0 \<le> p \<Longrightarrow> p < 2 ^ 31 \<Longrightarrow> 0 \<le> q \<and> q < 2 ^ 31"
proof (induction ns arbitrary: p)
  case (Cons n ns)
  then obtain e where e: "child es p n = Some e" "p < uf_file_id e" "walk es (uf_file_id e) ns = Some q"
    by (auto split: option.splits if_splits)
  moreover have "uf_file_id e < 2 ^ 31"
    using child_Some [OF e(1)] Cons.prems(1) by (simp add: entries_ok_def list_all_iff)
  ultimately show ?case using Cons by auto
qed simp

lemma resolve_dir_range: "user_tree uid t \<Longrightarrow> 0 \<le> resolve_dir t uid path \<and> resolve_dir t uid path < 2 ^ 31"
  using walk_range [of "user_entries uid t" 0]
  by (auto simp: resolve_dir_def user_tree_def split: option.splits)

text \<open>
  What every operation below a directory starts with: the lookup, a connection, and the world
  in which the rest runs. \<open>inside\<close> collects what holds from there on.
\<close>

definition inside :: "('d \<Rightarrow> sql_state) \<Rightarrow> 'd world \<Rightarrow> int \<Rightarrow> 'd world \<Rightarrow> bool" where
  "inside st w c v \<longleftrightarrow> release_connection c (w_pool v) = w_pool w \<and> tables_ok (tabs st w) \<and>
     synced st w \<and> (\<forall>c'. \<not> manual st w c') \<and> (\<forall>c'. c' \<noteq> c \<longrightarrow> \<not> manual st v c')"

lemma enter_dir:
  assumes srv: "sql_server eq like M st" and rdy: "ready st w" and path: "path \<noteq> []"
    and tree: "user_tree uid (tabs st w)"
  obtains w' c v where "query_cd M path uid w = Inr (resolve_dir (tabs st w) uid path, w')"
    and "leaves st w w' (tabs st w)" and "connect_unchecked w' = Inr (c, v)"
    and "connect w' = Inr (Some c, v)"
    and "inside st w c v" and "tabs st v = tabs st w" and "modes st v = modes st w"
proof -
  from query_cd_spec [OF assms] obtain w' where
    cd: "query_cd M path uid w = Inr (resolve_dir (tabs st w) uid path, w')" "leaves st w w' (tabs st w)"
    by blast
  then have "pool_ok (w_pool w')" "0 < dp_available (w_pool w')"
    using rdy by (simp_all add: leaves_def ready_def)
  from connect_ready [OF this] obtain c p where con: "connect_unchecked w' = Inr (c, w'\<lparr>w_pool := p\<rparr>)"
    "connect w' = Inr (Some c, w'\<lparr>w_pool := p\<rparr>)" and rel: "release_connection c p = w_pool w'" by metis
  show ?thesis
    by (rule that [OF cd con]) (use cd(2) rdy rel in \<open>simp_all add: inside_def leaves_def ready_def\<close>)
qed

lemma inside_send [simp]:
  "manual st v' = manual st v \<Longrightarrow> w_pool v' = w_pool v \<Longrightarrow> inside st w c v \<Longrightarrow> inside st w c v'"
  by (simp add: inside_def)

lemma inside_leaves:
  "inside st w c v \<Longrightarrow> modes st v = (manual st w, if t = tabs st w then durable st w else t # durable st w) \<Longrightarrow>
   tabs st v = t \<Longrightarrow> leaves st w (release c v) t"
  by (simp add: inside_def leaves_def)

subsection \<open>\<^verbatim>\<open>query_mkdir\<close>\<close>

definition name_taken :: "(string \<Rightarrow> string \<Rightarrow> bool) \<Rightarrow> tables \<Rightarrow> int \<Rightarrow> string \<Rightarrow> bool" where
  "name_taken eq t d n \<longleftrightarrow> (\<exists>e\<in>set (t_entries t). at_parent d e \<and> eq (uf_name e) n)"

text \<open>There are automatic numbers left for one more file and entry.\<close>

definition room :: "tables \<Rightarrow> bool" where
  "room t \<longleftrightarrow> t_next_file t < 2 ^ 31 \<and> t_next_entry t < 2 ^ 31 \<and> t_next_user t < 2 ^ 31"

definition with_dir :: "int \<Rightarrow> int \<Rightarrow> string \<Rightarrow> tables \<Rightarrow> tables" where
  "with_dir uid d n t = fst (add_entry n uid (t_next_file t) d (fst (add_file 0 [] True t)))"

lemma add_file_fields [simp]:
  "t_next_entry (fst (add_file ty h c t)) = t_next_entry t"
  "t_entries (fst (add_file ty h c t)) = t_entries t"
  "snd (add_file ty h c t) = t_next_file t"
  by (simp_all add: add_file_def)

lemma enter_named:
  assumes srv: "sql_server eq like M st" and rdy: "ready st w" and path: "path \<noteq> []"
    and tree: "user_tree uid (tabs st w)" and n: "name_ok n"
  defines "t \<equiv> tabs st w" and "d \<equiv> resolve_dir (tabs st w) uid path"
  obtains w' c v v1 ys where "query_cd M path uid w = Inr (d, w')" and "leaves st w w' t"
    and "connect_unchecked w' = Inr (c, v)" and "v1 = send_stmt M c (EntryNamed d n) v"
    and "fetch M c convert_to_userfile v1 = Inr ys"
    and "set ys = {e \<in> set (t_entries t). at_parent d e \<and> eq (uf_name e) n}"
    and "ys \<noteq> [] \<longleftrightarrow> name_taken eq t d n"
    and "inside st w c v1" and "tabs st v1 = t" and "modes st v1 = (\<lambda>c. False, durable st w)"
proof -
  from enter_dir [OF srv rdy path tree] obtain w' c v where
    cd: "query_cd M path uid w = Inr (d, w')" "leaves st w w' t" and con: "connect_unchecked w' = Inr (c, v)"
    and ins: "inside st w c v" and v: "tabs st v = t" "modes st v = modes st w"
    unfolding t_def d_def by metis
  let ?q = "EntryNamed d n"
  have ok: "stmt_ok ?q" using resolve_dir_range [OF tree, of path] n
    by (intro stmt_okI) (simp_all add: arg_ok_def arg_len_def ulong_def name_ok_def d_def)
  have tok: "tables_ok t" and man: "\<forall>c'. c' \<noteq> c \<longrightarrow> \<not> manual st v c'"
    using ins by (simp_all add: inside_def t_def)
  obtain ys where ys: "set ys = {e \<in> set (t_entries t). at_parent d e \<and> eq (uf_name e) n}"
    and f: "fetch M c convert_to_userfile (send_stmt M c ?q v) = Inr ys"
    and v1: "tabs st (send_stmt M c ?q v) = t" "modes st (send_stmt M c ?q v) = modes st w"
    using select_entries [OF srv ok _ man, of "\<lambda>e. at_parent d e \<and> eq (uf_name e) n"] tok v by auto
  have taken: "ys \<noteq> [] \<longleftrightarrow> name_taken eq t d n"
    unfolding name_taken_def set_empty [symmetric] ys by auto
  show ?thesis
    by (rule that [OF cd con refl f ys taken])
      (use ins v v1 rdy in \<open>simp_all add: inside_def ready_def\<close>)
qed

text \<open>A new file and its entry in one transaction.\<close>

lemma add_entry_differs [simp]:
  "fst (add_entry n uid fid d t) \<noteq> t" "fst (add_entry n uid fid d (fst (add_file ty h b t))) \<noteq> t"
  by (auto simp: add_entry_def add_file_def dest: arg_cong [of _ _ "\<lambda>t. length (t_entries t)"])

lemma insert_file_entry:
  fixes c :: int
  assumes srv: "sql_server eq like M st" and man: "modes st v = (\<lambda>c. False, L)" and L: "L \<noteq> [] \<and> hd L = tabs st v"
    and q1: "stmt_ok q1" "insert_ok q1 (tabs st v)" "effect eq q1 (tabs st v) = add_file ty h b (tabs st v)"
    and q2: "stmt_ok q2" "insert_ok q2 (fst (add_file ty h b (tabs st v)))"
      "\<And>t. effect eq q2 t = add_entry n uid fid d t"
  defines "v1 \<equiv> send_stmt M c q1 (autocommit M c False v)"
  defines "v2 \<equiv> autocommit M c True (commit M c (send_stmt M c q2 v1))"
    and "t2 \<equiv> fst (add_entry n uid fid d (fst (add_file ty h b (tabs st v))))"
  shows "insert_id M c v1 = t_next_file (tabs st v)" and "w_pool v2 = w_pool v"
    and "tabs st v2 = t2" and "modes st v2 = (\<lambda>c. False, t2 # L)"
proof -
  let ?v0 = "autocommit M c False v"
  have "synced st v" using man L by (simp add: synced_iff)
  from autocommit_ok [OF srv this, of c False] man have v0: "tabs st ?v0 = tabs st v" "modes st ?v0 = (\<lambda>c'. c' = c, L)"
    by (auto simp: fun_eq_iff)
  have u1: "tabs st v1 = fst (add_file ty h b (tabs st v))" "modes st v1 = (\<lambda>c'. c' = c, L)"
    "insert_id M c v1 = t_next_file (tabs st v)"
    using update_ok [OF srv q1(1), of ?v0 c] v0 q1 by (simp_all add: v1_def)
  have u2: "tabs st (send_stmt M c q2 v1) = t2" "modes st (send_stmt M c q2 v1) = (\<lambda>c'. c' = c, L)"
    using update_ok [OF srv q2(1), of v1 c] q2 u1 by (simp_all add: t2_def)
  have "L \<noteq> [] \<and> hd L \<noteq> tabs st (send_stmt M c q2 v1)"
    using L u2(1) add_entry_differs(2) unfolding t2_def by metis
  from transaction_end [OF srv _ _ this] u2 show "tabs st v2 = t2" "modes st v2 = (\<lambda>c. False, t2 # L)"
    by (simp_all add: v2_def)
  show "insert_id M c v1 = t_next_file (tabs st v)" by (rule u1(3))
  show "w_pool v2 = w_pool v" by (simp add: v2_def v1_def)
qed

lemma next_file_ok: "tables_ok t \<Longrightarrow> room t \<Longrightarrow> c_int (t_next_file t) = t_next_file t \<and> ulong (t_next_file t)"
  by (auto simp: tables_ok_def room_def ulong_def intro: c_int_id)

lemma link_stmt_ok:
  "ulong uid \<Longrightarrow> ulong i \<Longrightarrow> ulong d \<Longrightarrow> name_ok n \<Longrightarrow> stmt_ok (InsLink n uid i d) \<and> stmt_ok (InsEntry n uid i d)"
  by (intro conjI stmt_okI) (simp_all add: arg_ok_def arg_len_def name_ok_def)

lemma dir_ulong: "user_tree uid t \<Longrightarrow> ulong (resolve_dir t uid path) \<and> ulong uid"
  using resolve_dir_range [of uid t path] by (simp add: ulong_def user_tree_def)

text \<open>The transaction of \<^verbatim>\<open>query_mkdir\<close>.\<close>

lemma mkdir_inserts:
  fixes c :: int
  assumes srv: "sql_server eq like M st" and v: "tabs st v = t" "modes st v = (\<lambda>c. False, L)"
    and L: "L \<noteq> [] \<and> hd L = t"
    and tok: "tables_ok t" and rm: "room t" and n: "name_ok n" and ud: "ulong d" "ulong uid"
  defines "v1 \<equiv> send_stmt M c InsDir (autocommit M c False v)"
  defines "v2 \<equiv> autocommit M c True (commit M c (send_stmt M c (InsEntry n uid (t_next_file t) d) v1))"
  shows "insert_id M c v1 = t_next_file t" and "w_pool v2 = w_pool v"
    and "tabs st v2 = with_dir uid d n t" and "modes st v2 = (\<lambda>c. False, with_dir uid d n t # L)"
proof -
  let ?q2 = "InsEntry n uid (t_next_file t) d"
  have ok: "stmt_ok ?q2" using link_stmt_ok ud next_file_ok [OF tok rm] n by simp
  have q: "stmt_ok InsDir" "insert_ok InsDir (tabs st v)"
    "effect eq InsDir (tabs st v) = add_file 0 [] True (tabs st v)"
    "insert_ok ?q2 (fst (add_file 0 [] True (tabs st v)))"
    using rm n v by (simp_all add: stmt_okI room_def name_ok_def)
  have q2: "\<And>t'. effect eq ?q2 t' = add_entry n uid (t_next_file t) d t'" by simp
  note insert = insert_file_entry [OF srv v(2) L [folded v(1)] q(1-3) ok q(4) q2, of c, unfolded v(1)]
  show "insert_id M c v1 = t_next_file t" "w_pool v2 = w_pool v" "tabs st v2 = with_dir uid d n t"
    "modes st v2 = (\<lambda>c. False, with_dir uid d n t # L)"
    using insert by (simp_all add: v1_def v2_def with_dir_def)
qed

lemma query_mkdir_spec:
  assumes srv: "sql_server eq like M st" and rdy: "ready st w" and path: "path \<noteq> []"
    and tree: "user_tree uid (tabs st w)" and n: "name_ok n" and rm: "room (tabs st w)"
  defines "t \<equiv> tabs st w" and "d \<equiv> resolve_dir (tabs st w) uid path"
  shows "\<exists>w'. query_mkdir M path n uid w =
      Inr (if d = 0 then 0 else if name_taken eq t d n then 1 else 2, w') \<and>
    leaves st w w' (if d = 0 \<or> name_taken eq t d n then t else with_dir uid d n t)"
proof -
  from enter_named [OF srv rdy path tree n, folded d_def, folded t_def] obtain w' c v v1 ys where
    cd: "query_cd M path uid w = Inr (d, w')" "leaves st w w' t" and con: "connect_unchecked w' = Inr (c, v)"
    and v1_def: "v1 = send_stmt M c (EntryNamed d n) v" and f: "fetch M c convert_to_userfile v1 = Inr ys"
    and ys: "set ys = {e \<in> set (t_entries t). at_parent d e \<and> eq (uf_name e) n}"
    and taken: "ys \<noteq> [] \<longleftrightarrow> name_taken eq t d n" and ins: "inside st w c v1"
    and v1: "tabs st v1 = t" "modes st v1 = (\<lambda>c. False, durable st w)" .
  have none: "manual st w = (\<lambda>c. False)" and tok: "tables_ok t" and L: "durable st w \<noteq> [] \<and> hd (durable st w) = t"
    using rdy by (simp_all add: ready_def t_def synced_iff)
  have d0: "0 \<le> d" using resolve_dir_range [OF tree] by (simp add: d_def)
  note nf = next_file_ok [OF tok rm [folded t_def]]
  consider "d = 0" | "d \<noteq> 0" "name_taken eq t d n" | "d \<noteq> 0" "\<not> name_taken eq t d n" by blast
  then show ?thesis
  proof cases
    case 1
    with cd show ?thesis by (simp add: query_mkdir_def)
  next
    case 2
    with taken f cd(1) con d0 ins v1 none show ?thesis
      by (simp add: query_mkdir_def inside_def leaves_def flip: v1_def t_def)
  next
    case 3
    have ud: "ulong d" "ulong uid" using dir_ulong [OF tree, of path] by (simp_all add: d_def)
    note insert = mkdir_inserts [OF srv v1 L tok rm [folded t_def] n ud, of c]
    define v2 where "v2 = autocommit M c True (commit M c (send_stmt M c (InsEntry n uid (t_next_file t) d)
      (send_stmt M c InsDir (autocommit M c False v1))))"
    have "query_mkdir M path n uid w = Inr (2, release c v2)"
      using cd(1) con d0 f 3 taken nf insert(1)
      by (simp add: query_mkdir_def v2_def Let_def flip: v1_def)
    moreover have "leaves st w (release c v2) (with_dir uid d n t)"
      using ins none insert(2-4) by (simp add: inside_def leaves_def with_dir_def flip: v2_def t_def)
    ultimately show ?thesis using 3 by simp
  qed
qed

subsection \<open>\<^verbatim>\<open>query_puts\<close>, \<^verbatim>\<open>query_gets\<close> and \<^verbatim>\<open>query_remove\<close>\<close>

text \<open>Every entry has its file.\<close>

definition linked :: "tables \<Rightarrow> bool" where
  "linked t \<longleftrightarrow> (\<forall>e\<in>set (t_entries t). \<exists>f\<in>set (t_files t). f_id f = uf_file_id e)"

definition with_link :: "int \<Rightarrow> int \<Rightarrow> string \<Rightarrow> int \<Rightarrow> tables \<Rightarrow> tables" where
  "with_link uid d n fid t = fst (add_entry n uid fid d t)"

definition with_file :: "int \<Rightarrow> int \<Rightarrow> string \<Rightarrow> string \<Rightarrow> tables \<Rightarrow> tables" where
  "with_file uid d n h t = with_link uid d n (t_next_file t) (fst (add_file 1 h False t))"

text \<open>
  The results of an upload request in directory \<open>d\<close> (0 for an illegal path): -1 for
  the path, 0 for another file of this name, 1 for an upload to start or resume, 2 for content
  the server has already; the last two register the name unless it was there with this content.
\<close>

definition puts_post :: "(string \<Rightarrow> string \<Rightarrow> bool) \<Rightarrow> tables \<Rightarrow> int \<Rightarrow> int \<Rightarrow> string \<Rightarrow> string \<Rightarrow> int \<Rightarrow> tables \<Rightarrow>
    bool" where
  "puts_post eq t uid d n h r t' \<longleftrightarrow>
     (if d = 0 then r = -1 \<and> t' = t
      else if name_taken eq t d n then
        t' = t \<and>
        (\<exists>e\<in>set (t_entries t). \<exists>f\<in>set (t_files t). at_parent d e \<and> eq (uf_name e) n \<and>
           f_id f = uf_file_id e \<and>
           r = (if h = f_hash_value f then if f_complete f then 2 else 1 else 0))
      else if \<exists>f\<in>set (t_files t). has_hash eq h f then
        (\<exists>f\<in>set (t_files t). has_hash eq h f \<and> r = (if f_complete f then 2 else 1) \<and>
           t' = with_link uid d n (f_id f) t)
      else r = 1 \<and> t' = with_file uid d n h t)"

text \<open>What the three operations' worlds have in common; \<open>d\<close> is the directory found.\<close>

lemma pick_first: "xs \<noteq> [] \<Longrightarrow> \<exists>x ys. xs = x # ys \<and> x \<in> set xs"
  by (cases xs) auto

lemma tables_ids:
  "tables_ok t \<Longrightarrow> e \<in> set (t_entries t) \<Longrightarrow> 0 < uf_file_id e \<and> uf_file_id e < 2 ^ 31"
  "tables_ok t \<Longrightarrow> f \<in> set (t_files t) \<Longrightarrow> 0 < f_id f \<and> f_id f < 2 ^ 31"
  by (force simp: tables_ok_def list_all_iff)+

lemma query_puts_taken:
  assumes srv: "sql_server eq like M st" and tok: "tables_ok t" and lk: "linked t"
    and v: "tabs st v = t" "modes st v = (\<lambda>c. False, L)" and e: "e \<in> set (t_entries t)"
  obtains x xs where "x \<in> set (t_files t)" and "f_id x = uf_file_id e"
    and "fetch M c convert_to_file (send_stmt M c (FileById (c_int (uf_file_id e))) v) = Inr (x # xs)"
    and "tabs st (send_stmt M c (FileById (c_int (uf_file_id e))) v) = t"
    and "modes st (send_stmt M c (FileById (c_int (uf_file_id e))) v) = (\<lambda>c. False, L)"
proof -
  let ?q = "FileById (c_int (uf_file_id e))"
  have id: "c_int (uf_file_id e) = uf_file_id e" "ulong (uf_file_id e)"
    using tables_ids(1) [OF tok e] by (simp_all add: c_int_id ulong_def)
  have ok: "stmt_ok ?q" using id by (intro stmt_okI) (simp_all add: arg_ok_def arg_len_def)
  obtain fs where fs: "set fs = {f \<in> set (t_files t). f_id f = uf_file_id e}"
    and f: "fetch M c convert_to_file (send_stmt M c ?q v) = Inr fs" "tabs st (send_stmt M c ?q v) = t"
      "modes st (send_stmt M c ?q v) = (\<lambda>c. False, L)"
    using select_files [OF srv ok, of v c "\<lambda>f. f_id f = uf_file_id e"] tok v id(1) by auto
  have "fs \<noteq> []" using fs lk e by (fastforce simp: linked_def)
  then obtain x xs where "fs = x # xs" "x \<in> set fs" using pick_first by blast
  with that fs f show ?thesis by auto
qed

text \<open>The two ways a new name is written: a link to a stored file, or a new file and its link.\<close>

lemma puts_links:
  assumes srv: "sql_server eq like M st" and v: "tabs st v = t" "modes st v = (\<lambda>c. False, L)"
    and tok: "tables_ok t" and rm: "room t" and n: "name_ok n" and ud: "ulong d" "ulong uid"
    and x: "x \<in> set (t_files t)"
  shows "tabs st (send_stmt M c (InsLink n uid (f_id x) d) v) = with_link uid d n (f_id x) t"
    and "modes st (send_stmt M c (InsLink n uid (f_id x) d) v) = (\<lambda>c. False, with_link uid d n (f_id x) t # L)"
proof -
  have ok: "stmt_ok (InsLink n uid (f_id x) d)"
    using link_stmt_ok ud n tables_ids(2) [OF tok x] by (simp add: ulong_def)
  from update_ok [OF srv ok, of v c] v n rm
  show "tabs st (send_stmt M c (InsLink n uid (f_id x) d) v) = with_link uid d n (f_id x) t"
    "modes st (send_stmt M c (InsLink n uid (f_id x) d) v) = (\<lambda>c. False, with_link uid d n (f_id x) t # L)"
    by (simp_all add: with_link_def room_def name_ok_def)
qed

lemma puts_inserts:
  fixes c :: int
  assumes srv: "sql_server eq like M st" and v: "tabs st v = t" "modes st v = (\<lambda>c. False, L)"
    and L: "L \<noteq> [] \<and> hd L = t"
    and tok: "tables_ok t" and rm: "room t" and n: "name_ok n" and h: "name_ok h" "h \<noteq> []" and ud: "ulong d" "ulong uid"
  defines "v1 \<equiv> send_stmt M c (InsFile h) (autocommit M c False v)"
  defines "v2 \<equiv> autocommit M c True (commit M c (send_stmt M c (InsLink n uid (t_next_file t) d) v1))"
  shows "insert_id M c v1 = t_next_file t" and "w_pool v2 = w_pool v"
    and "tabs st v2 = with_file uid d n h t" and "modes st v2 = (\<lambda>c. False, with_file uid d n h t # L)"
proof -
  let ?q = "InsFile h" and ?q2 = "InsLink n uid (t_next_file t) d"
  have ok: "stmt_ok ?q2" "stmt_ok ?q"
    using link_stmt_ok ud next_file_ok [OF tok rm] n h
    by (auto intro!: stmt_okI simp: arg_ok_def arg_len_def name_ok_def)
  have q: "insert_ok ?q (tabs st v)" "effect eq ?q (tabs st v) = add_file 1 h False (tabs st v)"
    "insert_ok ?q2 (fst (add_file 1 h False (tabs st v)))"
    using rm n h v by (simp_all add: room_def name_ok_def)
  have q2: "\<And>t'. effect eq ?q2 t' = add_entry n uid (t_next_file t) d t'" by simp
  note insert = insert_file_entry [OF srv v(2) L [folded v(1)] ok(2) q(1,2) ok(1) q(3) q2, of c, unfolded v(1)]
  show "insert_id M c v1 = t_next_file t" "w_pool v2 = w_pool v" "tabs st v2 = with_file uid d n h t"
    "modes st v2 = (\<lambda>c. False, with_file uid d n h t # L)"
    using insert by (simp_all add: v1_def v2_def with_file_def with_link_def)
qed

lemma query_puts_spec:
  assumes srv: "sql_server eq like M st" and rdy: "ready st w" and path: "path \<noteq> []"
    and tree: "user_tree uid (tabs st w)" and n: "name_ok n" and h: "name_ok h" "h \<noteq> []"
    and rm: "room (tabs st w)" and lk: "linked (tabs st w)"
  defines "t \<equiv> tabs st w" and "d \<equiv> resolve_dir (tabs st w) uid path"
  shows "\<exists>r w' t'. query_puts M path n h uid w = Inr (r, w') \<and> puts_post eq t uid d n h r t' \<and>
    leaves st w w' t'"
proof -
  from enter_named [OF srv rdy path tree n, folded d_def, folded t_def] obtain w' c v v1 ys where
    cd: "query_cd M path uid w = Inr (d, w')" "leaves st w w' t" and con: "connect_unchecked w' = Inr (c, v)"
    and v1_def: "v1 = send_stmt M c (EntryNamed d n) v" and f: "fetch M c convert_to_userfile v1 = Inr ys"
    and ys: "set ys = {e \<in> set (t_entries t). at_parent d e \<and> eq (uf_name e) n}"
    and taken: "ys \<noteq> [] \<longleftrightarrow> name_taken eq t d n" and ins: "inside st w c v1"
    and v1: "tabs st v1 = t" "modes st v1 = (\<lambda>c. False, durable st w)" .
  have none: "manual st w = (\<lambda>c. False)" and tok: "tables_ok t" and d0: "0 \<le> d" and ud: "ulong d" "ulong uid"
    and L: "durable st w \<noteq> [] \<and> hd (durable st w) = t"
    using rdy resolve_dir_range [OF tree] dir_ulong [OF tree, of path]
    by (simp_all add: ready_def t_def d_def synced_iff)
  note rm = rm [folded t_def]
  have nf: "c_int (t_next_file t) = t_next_file t" using next_file_ok [OF tok rm] by simp
  let ?q = "FileByHash h" and ?v2 = "send_stmt M c (FileByHash h) v1"
  have ok: "stmt_ok ?q" using h by (intro stmt_okI) (simp_all add: arg_ok_def arg_len_def name_ok_def)
  obtain fs where fs: "set fs = {f \<in> set (t_files t). has_hash eq h f}"
    and f2: "fetch M c convert_to_file ?v2 = Inr fs" and v2: "tabs st ?v2 = t" "modes st ?v2 = (\<lambda>c. False, durable st w)"
    using select_files [OF srv ok, of v1 c "has_hash eq h"] tok v1 h by auto
  consider "d = 0" | e es where "d \<noteq> 0" "ys = e # es" | x xs where "d \<noteq> 0" "ys = []" "fs = x # xs"
    | "d \<noteq> 0" "ys = []" "fs = []"
    by (cases "d = 0"; cases ys; cases fs) auto
  then show ?thesis
  proof cases
    case 1
    with cd show ?thesis by (simp add: query_puts_def puts_post_def)
  next
    case (2 e es)
    then have e: "e \<in> set (t_entries t)" "at_parent d e" "eq (uf_name e) n" using ys by auto
    obtain x xs where x: "x \<in> set (t_files t)" "f_id x = uf_file_id e"
      and "fetch M c convert_to_file (send_stmt M c (FileById (c_int (uf_file_id e))) v1) = Inr (x # xs)"
      and "tabs st (send_stmt M c (FileById (c_int (uf_file_id e))) v1) = t"
      and "modes st (send_stmt M c (FileById (c_int (uf_file_id e))) v1) = (\<lambda>c. False, durable st w)"
      using query_puts_taken [OF srv tok lk [folded t_def] v1 e(1)] by metis
    then show ?thesis
      using cd(1) con d0 f 2 taken ins none e
      by (auto simp: query_puts_def puts_post_def inside_def leaves_def first_of_def simp flip: v1_def t_def)
  next
    case (3 x xs)
    then have x: "x \<in> set (t_files t)" "has_hash eq h x" using fs by auto
    from puts_links [OF srv v2 tok rm n ud x(1)] 3 cd(1) con d0 f f2 taken ins none x show ?thesis
      by (auto simp: query_puts_def puts_post_def inside_def leaves_def with_link_def simp flip: v1_def t_def)
  next
    case 4
    note insert = puts_inserts [OF srv v2 L tok rm n h ud, of c]
    define v3 where "v3 = autocommit M c True (commit M c (send_stmt M c (InsLink n uid (t_next_file t) d)
      (send_stmt M c (InsFile h) (autocommit M c False ?v2))))"
    have "query_puts M path n h uid w = Inr (1, release c v3)"
      using 4 cd(1) con d0 f f2 insert(1) nf by (simp add: query_puts_def v3_def Let_def flip: v1_def)
    moreover have "leaves st w (release c v3) (with_file uid d n h t)"
      using ins none insert(2-4) by (simp add: inside_def leaves_def with_file_def with_link_def flip: v3_def t_def)
    moreover have "\<not> (\<exists>f\<in>set (t_files t). has_hash eq h f)" using fs 4 by auto
    ultimately show ?thesis using 4 taken by (auto simp: puts_post_def)
  qed
qed

definition offers :: "(string \<Rightarrow> string \<Rightarrow> bool) \<Rightarrow> tables \<Rightarrow> int \<Rightarrow> int \<Rightarrow> string \<Rightarrow> file_t \<Rightarrow> bool" where
  "offers eq t uid d n f \<longleftrightarrow> f \<in> set (t_files t) \<and> f_type f \<noteq> 0 \<and>
     (\<exists>e\<in>set (t_entries t). uf_file_id e = f_id f \<and> uf_user_id e = uid \<and> at_parent d e \<and> eq (uf_name e) n)"

text \<open>A download request: 1 and the digest of a complete file of this name, else 0.\<close>

definition gets_post :: "(string \<Rightarrow> string \<Rightarrow> bool) \<Rightarrow> tables \<Rightarrow> int \<Rightarrow> int \<Rightarrow> string \<Rightarrow> int \<Rightarrow> string \<Rightarrow> bool" where
  "gets_post eq t uid d n r h \<longleftrightarrow>
     (if d = 0 \<or> \<not> (\<exists>f. offers eq t uid d n f) then r = 0 \<and> h = []
      else \<exists>f. offers eq t uid d n f \<and> (if f_complete f then r = 1 \<and> h = f_hash_value f else r = 0 \<and> h = []))"

lemma query_gets_spec:
  assumes srv: "sql_server eq like M st" and rdy: "ready st w" and path: "path \<noteq> []"
    and tree: "user_tree uid (tabs st w)" and n: "name_ok n"
  defines "t \<equiv> tabs st w" and "d \<equiv> resolve_dir (tabs st w) uid path"
  shows "\<exists>r h w'. query_gets M path n uid w = Inr (r, h, w') \<and> gets_post eq t uid d n r h \<and> leaves st w w' t"
proof -
  from enter_dir [OF srv rdy path tree, folded d_def, folded t_def] obtain w' c v where
    cd: "query_cd M path uid w = Inr (d, w')" "leaves st w w' t" and con: "connect_unchecked w' = Inr (c, v)"
    and "connect w' = Inr (Some c, v)"
    and ins: "inside st w c v" and v: "tabs st v = t" "modes st v = modes st w" .
  have none: "manual st w = (\<lambda>c. False)" and tok: "tables_ok t" and d0: "0 \<le> d" and ud: "ulong d" "ulong uid"
    using rdy resolve_dir_range [OF tree] dir_ulong [OF tree, of path] by (simp_all add: ready_def t_def d_def)
  let ?q = "FileNamed uid d n"
  have ok: "stmt_ok ?q" using ud n by (intro stmt_okI) (simp_all add: arg_ok_def arg_len_def name_ok_def)
  obtain fs where fs: "set fs = {f \<in> set (t_files t). (\<exists>e\<in>set (t_entries t). uf_file_id e = f_id f \<and>
      uf_user_id e = uid \<and> at_parent d e \<and> eq (uf_name e) n) \<and> f_type f \<noteq> 0}"
    and f: "fetch M c convert_to_file (send_stmt M c ?q v) = Inr fs"
    and v1: "tabs st (send_stmt M c ?q v) = t" "modes st (send_stmt M c ?q v) = modes st w"
    using select_files [OF srv ok, of v c "\<lambda>f. (\<exists>e\<in>set (t_entries t). uf_file_id e = f_id f \<and>
      uf_user_id e = uid \<and> at_parent d e \<and> eq (uf_name e) n) \<and> f_type f \<noteq> 0"] tok v none by auto
  have set: "x \<in> set fs \<longleftrightarrow> offers eq t uid d n x" for x by (auto simp: fs offers_def)
  show ?thesis
  proof (cases "d = 0 \<or> fs = []")
    case True
    then have "gets_post eq t uid d n 0 []" using set by (auto simp: gets_post_def)
    with True cd con d0 f ins v1 show ?thesis
      by (auto simp: query_gets_def inside_def leaves_def simp flip: t_def)
  next
    case False
    then obtain x xs where x: "fs = x # xs" "offers eq t uid d n x" using pick_first set by metis
    then have "gets_post eq t uid d n (if f_complete x then 1 else 0) (if f_complete x then f_hash_value x else [])"
      using False by (auto simp: gets_post_def)
    with False x cd con d0 f ins v1 show ?thesis
      by (auto simp: query_gets_def inside_def leaves_def simp flip: t_def split: if_splits)
  qed
qed

text \<open>
  A removal: 0 for an illegal path without effect, 1 when nothing matches, 2 for a directory
  that is not empty, else 0 with every entry of the user that refers to the same file gone. The
  match is by \<^verbatim>\<open>like\<close>, among all entries for the files the directory holds.
\<close>

definition removable :: "(string \<Rightarrow> string \<Rightarrow> bool) \<Rightarrow> tables \<Rightarrow> int \<Rightarrow> int \<Rightarrow> string \<Rightarrow> user_file_t \<Rightarrow> bool" where
  "removable like t uid d n e \<longleftrightarrow> e \<in> set (t_entries t) \<and> like n (uf_name e) \<and>
     (\<exists>e'\<in>set (t_entries t). uf_file_id e' = uf_file_id e \<and> uf_user_id e' = uid \<and> at_parent d e')"

definition without :: "int \<Rightarrow> int \<Rightarrow> tables \<Rightarrow> tables" where
  "without fid uid t =
     t\<lparr>t_entries := filter (\<lambda>e. \<not> (uf_file_id e = fid \<and> uf_user_id e = uid)) (t_entries t)\<rparr>"

definition remove_post :: "(string \<Rightarrow> string \<Rightarrow> bool) \<Rightarrow> tables \<Rightarrow> int \<Rightarrow> int \<Rightarrow> string \<Rightarrow> int \<Rightarrow> tables \<Rightarrow> bool" where
  "remove_post like t uid d n r t' \<longleftrightarrow>
     (if d = 0 then r = 0 \<and> t' = t
      else if \<not> (\<exists>e. removable like t uid d n e) then r = 1 \<and> t' = t
      else \<exists>e f. removable like t uid d n e \<and> f \<in> set (t_files t) \<and> f_id f = uf_file_id e \<and>
        (if f_type f = 0 \<and> (\<exists>x\<in>set (t_entries t). at_parent (uf_file_id e) x) then r = 2 \<and> t' = t
         else r = 0 \<and> t' = without (uf_file_id e) uid t))"

lemma delete_ok:
  assumes srv: "sql_server eq like M st" and v: "tabs st v = t" "modes st v = (\<lambda>c. False, L)"
    and u: "ulong fid" "ulong uid"
  shows "tabs st (send_stmt M c (DelEntry fid uid) v) = without fid uid t \<and>
    modes st (send_stmt M c (DelEntry fid uid) v) = (\<lambda>c. False, if without fid uid t = t then L else without fid uid t # L)"
proof -
  have "stmt_ok (DelEntry fid uid)" using u by (intro stmt_okI) (simp_all add: arg_ok_def arg_len_def)
  from update_ok [OF srv this, of v c] v show ?thesis by (simp add: without_def)
qed

text \<open>The second half of \<^verbatim>\<open>query_remove\<close>, once an entry was found.\<close>

lemma remove_found:
  assumes srv: "sql_server eq like M st" and v: "tabs st v = t" "modes st v = (\<lambda>c. False, L)"
    and tok: "tables_ok t" and lk: "linked t" and e: "e \<in> set (t_entries t)" and uid: "ulong uid"
  obtains x xs v1 where "fetch M c convert_to_file (send_stmt M c (FileOfId (uf_file_id e)) v) = Inr (x # xs)"
    and "v1 = send_stmt M c (FileOfId (uf_file_id e)) v"
    and "x \<in> set (t_files t)" and "f_id x = uf_file_id e" and "f_type x = 0 \<or> f_type x = 1"
    and "tabs st v1 = t" and "modes st v1 = (\<lambda>c. False, L)"
proof -
  let ?q = "FileOfId (uf_file_id e)"
  have "ulong (uf_file_id e)" using tables_ids(1) [OF tok e] by (simp add: ulong_def)
  then have ok: "stmt_ok ?q" by (intro stmt_okI) (simp_all add: arg_ok_def arg_len_def)
  obtain fs where fs: "set fs = {f \<in> set (t_files t). f_id f = uf_file_id e}"
    and f: "fetch M c convert_to_file (send_stmt M c ?q v) = Inr fs" "tabs st (send_stmt M c ?q v) = t"
      "modes st (send_stmt M c ?q v) = (\<lambda>c. False, L)"
    using select_files [OF srv ok, of v c "\<lambda>f. f_id f = uf_file_id e"] tok v by auto
  have "fs \<noteq> []" using fs lk e by (fastforce simp: linked_def)
  then obtain x xs where x: "fs = x # xs" "x \<in> set (t_files t)" "f_id x = uf_file_id e"
    using pick_first fs by blast
  moreover from x have "f_type x = 0 \<or> f_type x = 1"
    using tok by (auto simp: tables_ok_def list_all_iff file_ok_def)
  ultimately show ?thesis using that f by blast
qed

text \<open>What the removal of an entry looks at and writes: its file, the entries below it, and the entry
  itself.\<close>

lemma remove_parts:
  assumes srv: "sql_server eq like M st" and v: "tabs st v = t" "modes st v = (\<lambda>c. False, L)"
    and tok: "tables_ok t" and lk: "linked t" and e: "e \<in> set (t_entries t)" and uid: "ulong uid"
  defines "i \<equiv> uf_file_id e"
  obtains x xs zs v1 v2 where "v1 = send_stmt M c (FileOfId i) v" and "v2 = send_stmt M c (ChildrenOf i) v1"
    and "fetch M c convert_to_file v1 = Inr (x # xs)" and "fetch M c convert_to_userfile v2 = Inr zs"
    and "x \<in> set (t_files t)" and "f_id x = i" and "f_type x = 0 \<or> f_type x = 1"
    and "zs \<noteq> [] \<longleftrightarrow> (\<exists>e'\<in>set (t_entries t). at_parent i e')"
    and "tabs st v1 = t" and "tabs st v2 = t" and "modes st v1 = (\<lambda>c. False, L)" and "modes st v2 = (\<lambda>c. False, L)"
    and "tabs st (send_stmt M c (DelEntry i uid) v1) = without i uid t"
    and "tabs st (send_stmt M c (DelEntry i uid) v2) = without i uid t"
    and "modes st (send_stmt M c (DelEntry i uid) v1) = (\<lambda>c. False, if without i uid t = t then L else without i uid t # L)"
    and "modes st (send_stmt M c (DelEntry i uid) v2) = (\<lambda>c. False, if without i uid t = t then L else without i uid t # L)"
proof -
  have ui: "ulong i" using tables_ids(1) [OF tok e] by (simp add: ulong_def i_def)
  from remove_found [OF srv v tok lk e uid, of c, folded i_def] obtain x xs v1 where
    f: "fetch M c convert_to_file (send_stmt M c (FileOfId i) v) = Inr (x # xs)"
    and v1_def: "v1 = send_stmt M c (FileOfId i) v" and x: "x \<in> set (t_files t)" "f_id x = i"
    and ty: "f_type x = 0 \<or> f_type x = 1" and v1: "tabs st v1 = t" "modes st v1 = (\<lambda>c. False, L)" .
  define v2 where "v2 = send_stmt M c (ChildrenOf i) v1"
  have ok: "stmt_ok (ChildrenOf i)" using ui by (intro stmt_okI) (simp_all add: arg_ok_def arg_len_def)
  obtain zs where zs: "set zs = {e' \<in> set (t_entries t). at_parent i e'}"
    and f2: "fetch M c convert_to_userfile v2 = Inr zs" and v2: "tabs st v2 = t" "modes st v2 = (\<lambda>c. False, L)"
    using select_entries [OF srv ok, of v1 c "at_parent i"] tok v1 by (auto simp: v2_def)
  have some: "zs \<noteq> [] \<longleftrightarrow> (\<exists>e'\<in>set (t_entries t). at_parent i e')"
    unfolding set_empty [symmetric] zs by auto
  note del = delete_ok [OF srv v1 ui uid, of c] delete_ok [OF srv v2 ui uid, of c]
  show thesis
    by (rule that [OF v1_def v2_def f [folded v1_def] f2 x ty some v1(1) v2(1) v1(2) v2(2)]) (use del in simp_all)
qed

lemma query_remove_spec:
  assumes srv: "sql_server eq like M st" and rdy: "ready st w" and path: "path \<noteq> []"
    and tree: "user_tree uid (tabs st w)" and n: "name_ok n" and lk: "linked (tabs st w)"
  defines "t \<equiv> tabs st w" and "d \<equiv> resolve_dir (tabs st w) uid path"
  shows "\<exists>r w' t'. query_remove M path n uid w = Inr (r, w') \<and> remove_post like t uid d n r t' \<and>
    leaves st w w' t'"
proof -
  from enter_dir [OF srv rdy path tree, folded d_def, folded t_def] obtain w' c v where
    cd: "query_cd M path uid w = Inr (d, w')" "leaves st w w' t" and con: "connect_unchecked w' = Inr (c, v)"
    and "connect w' = Inr (Some c, v)"
    and ins: "inside st w c v" and v: "tabs st v = t" "modes st v = modes st w" .
  have none: "manual st w = (\<lambda>c. False)" and tok: "tables_ok t" and d0: "0 \<le> d" and ud: "ulong d" "ulong uid"
    using rdy resolve_dir_range [OF tree] dir_ulong [OF tree, of path] by (simp_all add: ready_def t_def d_def)
  define v1 where "v1 = send_stmt M c (EntryLike uid d n) v"
  have ok: "stmt_ok (EntryLike uid d n)"
    using ud n by (intro stmt_okI) (simp_all add: arg_ok_def arg_len_def name_ok_def)
  obtain ys where ys: "set ys = {e \<in> set (t_entries t). (\<exists>e'\<in>set (t_entries t). uf_file_id e' = uf_file_id e \<and>
      uf_user_id e' = uid \<and> at_parent d e') \<and> like n (uf_name e)}"
    and f: "fetch M c convert_to_userfile v1 = Inr ys"
    and v1: "tabs st v1 = t" "modes st v1 = (\<lambda>c. False, durable st w)"
    using select_entries [OF srv ok, of v c "\<lambda>e. (\<exists>e'\<in>set (t_entries t). uf_file_id e' = uf_file_id e \<and>
      uf_user_id e' = uid \<and> at_parent d e') \<and> like n (uf_name e)"] tok v none by (auto simp: v1_def)
  have set: "e \<in> set ys \<longleftrightarrow> removable like t uid d n e" for e by (auto simp: ys removable_def)
  show ?thesis
  proof (cases "d = 0 \<or> ys = []")
    case True
    then have "remove_post like t uid d n (if d = 0 then 0 else 1) t" using set by (auto simp: remove_post_def)
    moreover have "query_remove M path n uid w = Inr (if d = 0 then 0 else 1, if d = 0 then w' else release c v1)"
      using True cd(1) con d0 f by (auto simp: query_remove_def simp flip: v1_def)
    moreover have "leaves st w (if d = 0 then w' else release c v1) t"
      using cd(2) ins v1 none by (simp add: inside_def leaves_def v1_def flip: t_def)
    ultimately show ?thesis by blast
  next
    case False
    then obtain e es where e: "ys = e # es" "removable like t uid d n e" using pick_first set by metis
    then have et: "e \<in> set (t_entries t)" by (simp add: removable_def)
    let ?i = "uf_file_id e"
    obtain x xs zs v2 v3 where v2_def: "v2 = send_stmt M c (FileOfId ?i) v1" and v3_def: "v3 = send_stmt M c (ChildrenOf ?i) v2"
      and f2: "fetch M c convert_to_file v2 = Inr (x # xs)" and f3: "fetch M c convert_to_userfile v3 = Inr zs"
      and x: "x \<in> set (t_files t)" "f_id x = ?i" and ty: "f_type x = 0 \<or> f_type x = 1"
      and zs: "zs \<noteq> [] \<longleftrightarrow> (\<exists>e'\<in>set (t_entries t). at_parent ?i e')"
      and v23: "tabs st v2 = t" "tabs st v3 = t" "modes st v2 = (\<lambda>c. False, durable st w)" "modes st v3 = (\<lambda>c. False, durable st w)"
      and del: "tabs st (send_stmt M c (DelEntry ?i uid) v2) = without ?i uid t"
        "tabs st (send_stmt M c (DelEntry ?i uid) v3) = without ?i uid t"
        "modes st (send_stmt M c (DelEntry ?i uid) v2) =
          (\<lambda>c. False, if without ?i uid t = t then durable st w else without ?i uid t # durable st w)"
        "modes st (send_stmt M c (DelEntry ?i uid) v3) =
          (\<lambda>c. False, if without ?i uid t = t then durable st w else without ?i uid t # durable st w)"
      by (rule remove_parts [OF srv v1 tok lk [folded t_def] et ud(2), of c])
    define r where "r = (if f_type x = 0 \<and> zs \<noteq> [] then 2 else 0 :: int)"
    define w1 where "w1 = (if f_type x = 1 then send_stmt M c (DelEntry ?i uid) v2
      else if zs \<noteq> [] then v3 else send_stmt M c (DelEntry ?i uid) v3)"
    have run: "query_remove M path n uid w = Inr (r, release c w1)"
      using False cd(1) con d0 f e(1) f2 f3 ty
      by (auto simp: query_remove_def first_of_def Let_def r_def w1_def v3_def simp flip: v1_def v2_def)
    have "remove_post like t uid d n r (if r = 2 then t else without ?i uid t)"
      using False e(2) x zs unfolding remove_post_def r_def by auto
    moreover have "leaves st w (release c w1) (if r = 2 then t else without ?i uid t)"
      using ins v1 v23 none del ty by (auto simp: r_def w1_def inside_def leaves_def v3_def v2_def v1_def simp flip: t_def)
    ultimately show ?thesis using run by blast
  qed
qed

end
