(* ===== verification/Handlers.thy ===== *)
theory Handlers
  imports Messages Directory
begin

text \<open>
  The command handlers that do not transfer file content: \<^verbatim>\<open>server/file_no_change.c\<close>, and
  \<^verbatim>\<open>add_dir\<close> and \<^verbatim>\<open>remove_file\<close> of \<^verbatim>\<open>server/file_change.c\<close>. A handler yields the messages it
  sends, its result, the token as it leaves it and the world. \<open>M\<close> is the database, \<open>gen\<close> makes
  tokens.
\<close>

record 'd outcome =
  oc_sent :: "trans_file list"
  oc_ret :: int
  oc_token :: token_info
  oc_world :: "'d world"

definition answer :: "(token_info \<Rightarrow> string option) \<Rightarrow> notice \<Rightarrow> bool \<Rightarrow> int \<Rightarrow> token_info \<Rightarrow> 'd world \<Rightarrow>
    'd outcome" where
  "answer gen n flag ret tok w =
     \<lparr>oc_sent = [notice_msg gen n flag tok], oc_ret = ret, oc_token = tok, oc_world = w\<rparr>"

text \<open>The loop that cuts a path before its last slash, unless that is its first character.\<close>

fun cut_loop :: "string \<Rightarrow> nat \<Rightarrow> string" where
  "cut_loop s 0 = s"
| "cut_loop s (Suc i) = (if s ! Suc i = CHR ''/'' then take (Suc i) s else cut_loop s i)"

definition cut_last :: "string \<Rightarrow> string" where
  "cut_last s = cut_loop s (length s - 1)"

definition change_dir :: "'d mysql \<Rightarrow> (token_info \<Rightarrow> string option) \<Rightarrow> string \<Rightarrow> token_info \<Rightarrow> 'd world \<Rightarrow>
    'd outcome res" where
  "change_dir M gen argument tok w =
     bindR (get_user_path argument tok) (\<lambda>user_path.
     bindR (query_cd M user_path (tk_user_id tok) w) (\<lambda>(ret, w).
     if ret < 0 then Inr (answer gen BusyEnglish False 0 tok w)
     else if ret = 0 then Inr (answer gen IllegalEnglish False 0 tok w)
     else
       bindR (strcpyR 1024 user_path) (\<lambda>workpath.
       Inr (answer gen ChangeDone False 0 (tok\<lparr>tk_workpath := workpath\<rparr>) w))))"

text \<open>\<^verbatim>\<open>show_dir\<close> reads \<^verbatim>\<open>res->data\<close> before it asks whether \<^verbatim>\<open>res\<close> is null.\<close>

fun send_all :: "(token_info \<Rightarrow> string option) \<Rightarrow> string list \<Rightarrow> token_info \<Rightarrow> trans_file list res" where
  "send_all gen [] tok = Inr []"
| "send_all gen (s # ss) tok =
     bindR (send_message gen s True tok) (\<lambda>m. bindR (send_all gen ss tok) (\<lambda>ms. Inr (m # ms)))"

definition show_dir :: "'d mysql \<Rightarrow> (token_info \<Rightarrow> string option) \<Rightarrow> string \<Rightarrow> token_info \<Rightarrow> 'd world \<Rightarrow>
    'd outcome res" where
  "show_dir M gen argument tok w =
     bindR (get_user_path argument tok) (\<lambda>user_path.
     bindR (query_ls M user_path (tk_user_id tok) w) (\<lambda>(res, w).
     case res of
       None \<Rightarrow> Inl NullDeref
     | Some uf \<Rightarrow>
         bindR (send_all gen (map uf_name uf) tok) (\<lambda>names.
         Inr \<lparr>oc_sent = names @ [notice_msg gen ListingDone False tok], oc_ret = 0, oc_token = tok,
              oc_world = w\<rparr>)))"

definition show_path :: "(token_info \<Rightarrow> string option) \<Rightarrow> string \<Rightarrow> token_info \<Rightarrow> 'd world \<Rightarrow>
    'd outcome res" where
  "show_path gen argument tok w =
     bindR (send_message gen (tk_workpath tok) False tok) (\<lambda>m.
     Inr \<lparr>oc_sent = [m], oc_ret = 0, oc_token = tok, oc_world = w\<rparr>)"

text \<open>
  \<^verbatim>\<open>show_dir_detail\<close>: \<open>stat\<close> gives the size of a path, None when it fails, and \<open>cwd\<close> is the
  working directory. The names come from a second query and are paired with the files by index.
\<close>

definition pad4 :: "string \<Rightarrow> string" where
  "pad4 s = replicate (4 - length s) CHR '' '' @ s"

definition detail_line :: "string \<Rightarrow> int \<Rightarrow> int \<Rightarrow> string" where
  "detail_line name st_size type =
     take 1023 (name @ '' '' @ pad4 (num_str st_size) @ '' '' @ (if type = 0 then ''dir'' else ''file''))"

fun detail_lines :: "(string \<Rightarrow> int option) \<Rightarrow> string \<Rightarrow> user_file_t list \<Rightarrow> nat \<Rightarrow> file_t list \<Rightarrow>
    string list res" where
  "detail_lines stat cur_path uf i [] = Inr []"
| "detail_lines stat cur_path uf i (f # fs) =
     (case stat (take 2047 (cur_path @ ''/'' @ f_real_path f)) of
        None \<Rightarrow> detail_lines stat cur_path uf (i + 1) fs
      | Some sz \<Rightarrow>
          if i < length uf
          then bindR (detail_lines stat cur_path uf (i + 1) fs) (\<lambda>ls.
               Inr (detail_line (uf_name (uf ! i)) sz (f_type f) # ls))
          else Inl OutOfBounds)"

definition show_dir_detail :: "'d mysql \<Rightarrow> (token_info \<Rightarrow> string option) \<Rightarrow> (string \<Rightarrow> int option) \<Rightarrow> string \<Rightarrow>
    string \<Rightarrow> token_info \<Rightarrow> 'd world \<Rightarrow> 'd outcome res" where
  "show_dir_detail M gen stat cwd argument tok w =
     bindR (if length cwd + 5 < 512 then Inr (cwd @ ''/data'') else Inl OutOfBounds) (\<lambda>cur_path.
     bindR (get_user_path argument tok) (\<lambda>user_path.
     bindR (query_ll M user_path (tk_user_id tok) w) (\<lambda>(file_detail, w).
     case file_detail of
       None \<Rightarrow> Inr (answer gen SystemBusyRetry False 1 tok w)
     | Some f \<Rightarrow>
         bindR (query_ls M user_path (tk_user_id tok) w) (\<lambda>(file_name, w).
         case file_name of
           None \<Rightarrow> Inl NullDeref
         | Some uf \<Rightarrow>
             bindR (detail_lines stat cur_path uf 0 f) (\<lambda>ls.
             bindR (send_all gen ls tok) (\<lambda>ms.
             Inr \<lparr>oc_sent = ms @ [notice_msg gen QueryDone False tok], oc_ret = 0, oc_token = tok,
                  oc_world = w\<rparr>))))))"

definition add_dir :: "'d mysql \<Rightarrow> (token_info \<Rightarrow> string option) \<Rightarrow> string \<Rightarrow> token_info \<Rightarrow> 'd world \<Rightarrow>
    'd outcome res" where
  "add_dir M gen argument tok w =
     bindR (get_user_path argument tok) (\<lambda>user_path.
     bindR (get_file_name argument) (\<lambda>file_name.
     bindR (query_mkdir M (cut_last user_path) file_name (tk_user_id tok) w) (\<lambda>(ret, w).
     Inr (if ret = -1 then answer gen SystemBusyRetry False (-1) tok w
          else if ret = 0 then answer gen EnterRightPath False (-1) tok w
          else if ret = 1 then answer gen NameInUse False (-1) tok w
          else answer gen CreateDone False 0 tok w))))"

definition remove_file :: "'d mysql \<Rightarrow> (token_info \<Rightarrow> string option) \<Rightarrow> string \<Rightarrow> string \<Rightarrow> token_info \<Rightarrow>
    'd world \<Rightarrow> 'd outcome res" where
  "remove_file M gen cwd argument tok w =
     bindR (if length cwd + 5 < 1024 then Inr (cwd @ ''/data'') else Inl OutOfBounds) (\<lambda>cur_path.
     bindR (get_user_path argument tok) (\<lambda>user_path.
     bindR (get_file_name argument) (\<lambda>file_name.
     bindR (query_remove M (cut_last user_path) file_name (tk_user_id tok) w) (\<lambda>(ret, w).
     Inr (if ret = -1 then answer gen SystemBusyRetry False (-1) tok w
          else if ret = 1 then answer gen EnterRightPath False (-1) tok w
          else if ret = 2 then answer gen DirNotEmpty False (-1) tok w
          else answer gen DeleteDone False 0 tok w)))))"

subsection \<open>Cutting the last component\<close>

lemma cut_loop_no_slash:
  "(\<forall>j. 0 < j \<and> j \<le> i \<longrightarrow> s ! j \<noteq> CHR ''/'') \<Longrightarrow> cut_loop s i = s"
  by (induction i) auto

lemma cut_loop_slash:
  assumes "s ! k = CHR ''/''" and "0 < k" and "k \<le> i" and "\<forall>j. k < j \<and> j \<le> i \<longrightarrow> s ! j \<noteq> CHR ''/''"
  shows "cut_loop s i = take k s"
  using assms(3,4)
proof (induction i)
  case (Suc i)
  show ?case
  proof (cases "Suc i = k")
    case True
    show ?thesis using assms(1) by (simp add: True [symmetric])
  next
    case False
    with Suc have "s ! Suc i \<noteq> CHR ''/''" by simp
    with Suc False show ?thesis by simp
  qed
qed (use assms(2) in simp)

lemma cut_last_append:
  assumes "p \<noteq> []" and "CHR ''/'' \<notin> set n"
  shows "cut_last (p @ CHR ''/'' # n) = p"
proof -
  let ?s = "p @ CHR ''/'' # n"
  have "cut_loop ?s (length ?s - 1) = take (length p) ?s"
  proof (rule cut_loop_slash)
    show "\<forall>j. length p < j \<and> j \<le> length ?s - 1 \<longrightarrow> ?s ! j \<noteq> CHR ''/''"
    proof (intro allI impI)
      fix j assume j: "length p < j \<and> j \<le> length ?s - 1"
      then have "?s ! j = n ! (j - length p - 1)" by (simp add: nth_append nth_Cons')
      moreover have "n ! (j - length p - 1) \<in> set n" using j by (intro nth_mem) auto
      ultimately show "?s ! j \<noteq> CHR ''/''" using assms(2) by auto
    qed
  qed (use assms(1) in simp_all)
  then show ?thesis by (simp add: cut_last_def)
qed

lemma render_snoc: "cs \<noteq> [] \<Longrightarrow> render_path (cs @ [c]) = render_path cs @ CHR ''/'' # c"
  by (simp add: render_path_def)

lemma cut_last_render:
  assumes "cs \<noteq> []" and "clean_comp c"
  shows "cut_last (render_path (cs @ [c])) = render_path cs"
proof -
  have "render_path cs \<noteq> []" using assms(1) by (cases cs) (simp_all add: render_path_def)
  with assms show ?thesis by (simp add: render_snoc cut_last_append clean_comp_def)
qed

end
