(* ===== verification/FileTransfer.thy ===== *)
theory FileTransfer
  imports Handlers
begin

text \<open>
  File transfer: \<^verbatim>\<open>recv_file\<close> and \<^verbatim>\<open>send_file\<close> of \<^verbatim>\<open>server/file_change.c\<close> and their peers
  \<^verbatim>\<open>puts_File\<close> and \<^verbatim>\<open>gets_File\<close> of \<^verbatim>\<open>client/pthread.c\<close>. A file's content is a string of bytes,
  the data directory a map from paths to contents. What arrives on the socket is the list of the
  chunks the successive calls of \<^verbatim>\<open>recv\<close> return; it ends where the peer disconnects.
\<close>

subsection \<open>Receiving into a mapped file\<close>

text \<open>\<^verbatim>\<open>ftruncate\<close>, and a \<^verbatim>\<open>memcpy\<close> into a mapping of the file at an offset.\<close>

definition ftruncate :: "string \<Rightarrow> nat \<Rightarrow> string" where
  "ftruncate c n = take n c @ replicate (n - length c) NUL"

definition blit :: "string \<Rightarrow> nat \<Rightarrow> string \<Rightarrow> string" where
  "blit c off b = take off c @ b @ drop (off + length b) c"

definition round_down :: "nat \<Rightarrow> nat \<Rightarrow> nat" where
  "round_down page off = (off div page) * page"

text \<open>
  The loop of both receivers. \<^verbatim>\<open>mmap\<close> fails for an offset that is no multiple of the page size,
  and the loop ends with the transfer incomplete.
\<close>

fun recv_loop :: "nat \<Rightarrow> nat \<Rightarrow> string \<Rightarrow> nat \<Rightarrow> string list \<Rightarrow> string \<times> nat" where
  "recv_loop page file_size c off [] = (c, off)"
| "recv_loop page file_size c off (buf # bufs) =
     (if file_size \<le> off \<or> buf = [] then (c, off)
      else
        let count = (if off + length buf > file_size then file_size - off else length buf)
        in if off mod page \<noteq> 0 then (c, off)
           else recv_loop page file_size (blit c off (take count buf)) (off + count) bufs)"

text \<open>The offset announced to the sender, the content and the offset reached.\<close>

definition receive :: "nat \<Rightarrow> string \<Rightarrow> nat \<Rightarrow> string list \<Rightarrow> nat \<times> string \<times> nat" where
  "receive page content file_size bufs =
     (let offset = round_down page (length content);
          (c, off) = recv_loop page file_size (ftruncate content file_size) offset bufs
      in (offset, c, off))"

subsection \<open>The server's handlers\<close>

text \<open>
  Beside the messages a transfer has the bytes sent, whether it closed the socket, and the data
  directory. \<open>open_error\<close> is the system's: None when \<^verbatim>\<open>open\<close> with \<^verbatim>\<open>O_CREAT\<close> succeeds, else the
  text of \<^verbatim>\<open>strerror\<close>.
\<close>

record 'd transfer =
  tf_sent :: "trans_file list"
  tf_bytes :: string
  tf_ret :: int
  tf_closed :: bool
  tf_files :: "string \<rightharpoonup> string"
  tf_world :: "'d world"

definition refused :: "(token_info \<Rightarrow> string option) \<Rightarrow> notice \<Rightarrow> bool \<Rightarrow> token_info \<Rightarrow>
    (string \<rightharpoonup> string) \<Rightarrow> 'd world \<Rightarrow> 'd transfer" where
  "refused gen n closed tok files w =
     \<lparr>tf_sent = [notice_msg gen n False tok], tf_bytes = [], tf_ret = 0, tf_closed = closed,
      tf_files = files, tf_world = w\<rparr>"

definition empty_message :: trans_file where
  "empty_message = \<lparr>tr_data = [], tr_length = 0, tr_command = 0, tr_flag = False, tr_token = []\<rparr>"

text \<open>\<^verbatim>\<open>getcwd\<close>, \<^verbatim>\<open>strcat\<close> with the directory and with the name the client sent as digest.\<close>

definition data_path :: "string \<Rightarrow> string \<Rightarrow> string res" where
  "data_path cwd name =
     (if length cwd + length name + 6 < 1024 then Inr (cwd @ ''/data/'' @ name) else Inl OutOfBounds)"

definition split2 :: "string \<Rightarrow> (string \<times> string) res" where
  "split2 argument = (case splite_argument argument of None \<Rightarrow> Inl NullDeref | Some r \<Rightarrow> Inr r)"

text \<open>\<open>trans\<close> is the message with digest and length the handler receives first.\<close>

definition recv_file :: "'d mysql \<Rightarrow> (token_info \<Rightarrow> string option) \<Rightarrow> (string \<Rightarrow> string option) \<Rightarrow> nat \<Rightarrow> string \<Rightarrow>
    string \<Rightarrow> token_info \<Rightarrow> trans_file \<Rightarrow> string list \<Rightarrow> (string \<rightharpoonup> string) \<Rightarrow> 'd world \<Rightarrow>
    'd transfer res" where
  "recv_file M gen open_error page cwd argument tok train bufs files w =
     bindR (split2 argument) (\<lambda>(arg1, arg2).
     bindR (get_file_name arg1) (\<lambda>file_name.
     bindR (get_user_path arg2 tok) (\<lambda>user_path.
     let hash_value = tr_data train in
     bindR (query_puts M user_path file_name hash_value (tk_user_id tok) w) (\<lambda>(ret, w).
     if ret = -2 then Inr (refused gen ServerBusyRetry False tok files w)
     else if ret = -1 then Inr (refused gen InvalidPathRetry False tok files w)
     else if ret = 0 then Inr (refused gen SameNameHere False tok files w)
     else if ret = 2 then Inr (refused gen UploadDone False tok files w)
     else
       bindR (data_path cwd hash_value) (\<lambda>real_path.
       case open_error real_path of
         Some err \<Rightarrow>
           bindR (send_message gen err False tok) (\<lambda>m.
           Inr \<lparr>tf_sent = [m], tf_bytes = [], tf_ret = -1, tf_closed = False, tf_files = files,
                tf_world = w\<rparr>)
       | None \<Rightarrow>
           let content = (case files real_path of None \<Rightarrow> [] | Some c \<Rightarrow> c);
               file_size = tr_length train;
               (offset, c, off) =
                 (if file_size < 0
                  then (round_down page (length content), content, round_down page (length content))
                  else receive page content (nat file_size) bufs);
               files = files(real_path \<mapsto> c);
               ready = train\<lparr>tr_flag := True, tr_length := c_int (int offset)\<rparr>;
               result = (\<lambda>w. \<lparr>tf_sent = [ready, empty_message], tf_bytes = [], tf_ret = 0,
                  tf_closed = True, tf_files = files, tf_world = w\<rparr>)
           in if int off = file_size
              then bindR (query_update M hash_value w) (\<lambda>(_, w). Inr (result w))
              else Inr (result w))))))"

text \<open>
  \<^verbatim>\<open>send_file\<close>: \<open>reply\<close> is the client's message with its own length. Comparing the function's
  address \<^verbatim>\<open>recv_file\<close> with 0 is never true, and a failed \<^verbatim>\<open>open\<close> does not end the handler: it
  goes on with a size of -1 and nothing to send. A negative length makes \<^verbatim>\<open>lseek\<close> fail, and the file
  stays at its end.
\<close>

definition send_file :: "'d mysql \<Rightarrow> (token_info \<Rightarrow> string option) \<Rightarrow> string \<Rightarrow> string \<Rightarrow> token_info \<Rightarrow>
    trans_file \<Rightarrow> (string \<rightharpoonup> string) \<Rightarrow> 'd world \<Rightarrow> 'd transfer res" where
  "send_file M gen cwd argument tok reply files w =
     bindR (split2 argument) (\<lambda>(arg1, arg2).
     bindR (get_user_path arg1 tok) (\<lambda>user_path.
     bindR (get_file_name user_path) (\<lambda>file_name.
     bindR (query_gets M (cut_last user_path) file_name (tk_user_id tok) w) (\<lambda>(ret, hash_value, w).
     if ret = -1 then Inr (refused gen ServerError True tok files w)
     else if ret = 0 then Inr (refused gen NoSuchFile True tok files w)
     else
       bindR (data_path cwd hash_value) (\<lambda>path.
       let size = (\<lambda>n. empty_message\<lparr>tr_length := c_int n, tr_flag := True\<rparr>)
       in Inr (case files path of
            None \<Rightarrow>
              \<lparr>tf_sent = [notice_msg gen ServerError False tok, size (-1)], tf_bytes = [], tf_ret = 0,
               tf_closed = True, tf_files = files, tf_world = w\<rparr>
          | Some c \<Rightarrow>
              \<lparr>tf_sent = [size (int (length c))],
               tf_bytes = (if tr_length reply < 0 then [] else drop (nat (tr_length reply)) c),
               tf_ret = 0, tf_closed = True, tf_files = files, tf_world = w\<rparr>))))))"

subsection \<open>The client's side\<close>

text \<open>
  \<^verbatim>\<open>puts_File\<close>: the first message, and the bytes sent after the server's answer. \<open>digest\<close> stands
  for \<^verbatim>\<open>generate_digest\<close>. \<^verbatim>\<open>sendfile\<close> refuses a negative offset.
\<close>

definition puts_first :: "(string \<Rightarrow> string) \<Rightarrow> string \<Rightarrow> trans_file" where
  "puts_first digest file =
     \<lparr>tr_data = digest file, tr_length = c_int (int (length file)), tr_command = 0, tr_flag = False,
      tr_token = []\<rparr>"

definition puts_bytes :: "string \<Rightarrow> trans_file \<Rightarrow> string" where
  "puts_bytes file train =
     (if \<not> tr_flag train \<or> tr_length train < 0 then [] else drop (nat (tr_length train)) file)"

text \<open>
  \<^verbatim>\<open>gets_File\<close>: the length it announces, and the local file after the transfer.
\<close>

definition gets_reply :: "nat \<Rightarrow> string \<Rightarrow> trans_file \<Rightarrow> trans_file" where
  "gets_reply page local train = train\<lparr>tr_length := c_int (int (round_down page (length local)))\<rparr>"

definition gets_File :: "nat \<Rightarrow> string \<Rightarrow> trans_file \<Rightarrow> string list \<Rightarrow> string" where
  "gets_File page local train bufs =
     (if \<not> tr_flag train \<or> tr_length train < 0 then local
      else fst (snd (receive page local (nat (tr_length train)) bufs)))"

subsection \<open>The receive loop\<close>

lemma length_ftruncate [simp]: "length (ftruncate c n) = n"
  by (simp add: ftruncate_def)

lemma length_blit [simp]: "off + length b \<le> length c \<Longrightarrow> length (blit c off b) = length c"
  by (simp add: blit_def)

lemma ftruncate_same [simp]: "ftruncate c (length c) = c"
  by (simp add: ftruncate_def)

text \<open>Chunks of whole pages, the last one of any length.\<close>

fun page_chunks :: "nat \<Rightarrow> string list \<Rightarrow> bool" where
  "page_chunks page [] \<longleftrightarrow> True"
| "page_chunks page [b] \<longleftrightarrow> b \<noteq> []"
| "page_chunks page (b # bs) \<longleftrightarrow> b \<noteq> [] \<and> length b mod page = 0 \<and> page_chunks page bs"

lemma recv_loop_fills:
  assumes "page_chunks page bufs" and "off mod page = 0" and "length c = length file"
    and "off \<le> length file" and "concat bufs = drop off file" and "take off c = take off file"
  shows "recv_loop page (length file) c off bufs = (file, length file)"
  using assms
proof (induction page bufs arbitrary: c off rule: page_chunks.induct)
  case (1 page)
  then show ?case by simp
next
  case (2 page b)
  then have len: "off + length b = length file" using arg_cong [OF 2(5), of length] by auto
  moreover from 2 len have "blit c off b = file"
    by (simp add: blit_def)
  ultimately show ?case using 2 by (auto simp: Let_def)
next
  case (3 page b b' bs)
  let ?bs = "b' # bs"
  have app: "b @ concat ?bs = drop off file" using "3.prems"(5) by simp
  have len: "off + length b + length (concat ?bs) = length file"
    using arg_cong [OF app, of length] "3.prems"(4) unfolding length_append length_drop by linarith
  have rest: "concat ?bs = drop (off + length b) file"
    using arg_cong [OF app, of "drop (length b)"] by (simp add: add.commute)
  have b: "b = take (length b) (drop off file)" using arg_cong [OF app, of "take (length b)"] by simp
  have "take (off + length b) (blit c off b) = take off c @ b"
    using "3.prems"(3) len by (simp add: blit_def)
  also have "\<dots> = take (off + length b) file"
    using "3.prems"(6) b by (metis take_add)
  finally have pre: "take (off + length b) (blit c off b) = take (off + length b) file" .
  have "recv_loop page (length file) (blit c off b) (off + length b) ?bs = (file, length file)"
    using "3.prems" len rest pre by (intro "3.IH") (auto simp: mod_add_eq [symmetric])
  moreover have "0 < length b" using "3.prems"(1) by simp
  then have "off < length file" using len by linarith
  moreover have "b \<noteq> []" "\<not> length file < off + length b" using "3.prems"(1) len by simp_all
  ultimately show ?case using "3.prems"(2) by (simp only: recv_loop.simps Let_def if_False not_le simp_thms take_all) simp
qed

lemma receive_fresh:
  assumes "page_chunks page bufs" and "concat bufs = file"
  shows "receive page [] (length file) bufs = (0, file, length file)"
  using recv_loop_fills [OF assms(1), where off = 0 and c = "ftruncate [] (length (concat bufs))"]
    assms(2) by (simp add: receive_def round_down_def)

text \<open>A chunk that does not fill its page is the last one that is stored.\<close>

lemma recv_loop_stops:
  "off mod page \<noteq> 0 \<Longrightarrow> recv_loop page file_size c off bufs = (c, off)"
  by (cases bufs) auto

lemma receive_short:
  assumes "0 < length b" and "length b mod page \<noteq> 0" and "length b < file_size"
  shows "receive page [] file_size (b # bufs) =
    (0, b @ replicate (file_size - length b) NUL, length b)"
  using assms recv_loop_stops [of "length b" page]
  by (simp add: receive_def round_down_def Let_def blit_def ftruncate_def)

text \<open>An upload that ends after some whole pages leaves a file of full length.\<close>

lemma recv_loop_pages:
  assumes "\<forall>b\<in>set bufs. b \<noteq> [] \<and> length b mod page = 0" and "off mod page = 0" and "length c = n"
    and "off + length (concat bufs) < n"
  shows "recv_loop page n c off bufs =
    (take off c @ concat bufs @ drop (off + length (concat bufs)) c, off + length (concat bufs))"
  using assms
proof (induction bufs arbitrary: c off)
  case (Cons b bufs)
  have len: "off + length b < n" using Cons.prems(4) by simp
  have "(off + length b) mod page = 0" using Cons.prems(1,2) by (simp add: mod_add_eq [symmetric])
  then have "recv_loop page n (blit c off b) (off + length b) bufs =
    (take (off + length b) (blit c off b) @ concat bufs @
      drop (off + length b + length (concat bufs)) (blit c off b), off + length b + length (concat bufs))"
    using Cons.prems len by (intro Cons.IH) auto
  moreover have "take (off + length b) (blit c off b) = take off c @ b"
    "drop (off + length b + k) (blit c off b) = drop (off + length b + k) c" for k
    using Cons.prems(3) len by (simp_all add: blit_def add.commute add.left_commute)
  ultimately show ?case using Cons.prems len by (simp add: Let_def add.assoc)
qed simp

lemma receive_interrupted:
  assumes "\<forall>b\<in>set bufs. b \<noteq> [] \<and> length b mod page = 0" and "length (concat bufs) < n"
  shows "receive page [] n bufs =
    (0, concat bufs @ replicate (n - length (concat bufs)) NUL, length (concat bufs))"
  using recv_loop_pages [where off = 0 and c = "ftruncate [] n" and n = n, OF assms(1)] assms(2)
  by (simp add: receive_def round_down_def ftruncate_def)

text \<open>Resuming then starts at the last page, whatever has arrived before.\<close>

lemma receive_resumed:
  assumes len: "length c = length file" and "0 < page"
  defines "off \<equiv> round_down page (length file)"
  defines "bufs \<equiv> (if drop off file = [] then [] else [drop off file])"
  shows "receive page c (length file) bufs = (off, take off c @ drop off file, length file)"
proof -
  have off: "off mod page = 0" "off \<le> length file" by (simp_all add: off_def round_down_def)
  show ?thesis
  proof (cases "off = length file")
    case True
    then show ?thesis using len by (simp add: receive_def bufs_def flip: off_def)
        (metis ftruncate_same len order_refl take_all)
  next
    case False
    then have lt: "off < length file" using off(2) by simp
    have "ftruncate c (length file) = c" using ftruncate_same [of c] len by simp
    moreover have "blit c off (drop off file) = take off c @ drop off file"
      using len lt by (simp add: blit_def)
    ultimately show ?thesis
      using lt off len by (auto simp: receive_def bufs_def Let_def simp flip: off_def)
  qed
qed

end
