(* ===== verification/Sessions.thy ===== *)
theory Sessions
  imports Tokens FileTransfer
begin

text \<open>
  One request: \<^verbatim>\<open>check_user_login\<close> of \<^verbatim>\<open>server/login.c\<close>, \<^verbatim>\<open>connect_with_client\<close> and the body of
  the worker's loop of \<^verbatim>\<open>server/thread.c\<close>. What the handlers read of the system and of the client
  during a request is one record.
\<close>

subsection \<open>Registration and login\<close>

text \<open>\<^verbatim>\<open>splite_argument\<close> gives a null pointer for a text of one word, and both parts go to arrays of 100.\<close>

definition log_info :: "trans_file \<Rightarrow> (string \<times> string) res" where
  "log_info train =
     bindR (remove_space (tr_data train)) (\<lambda>data.
     bindR (split2 data) (\<lambda>(name, pwd).
     bindR (strcpyR 100 name) (\<lambda>user_name.
     bindR (strcpyR 100 pwd) (\<lambda>user_pwd. Inr (user_name, user_pwd)))))"

definition no_token :: token_info where
  "no_token = \<lparr>tk_user_id = 0, tk_workpath = []\<rparr>"

definition user_token :: "int \<Rightarrow> string \<Rightarrow> token_info" where
  "user_token i user_name = \<lparr>tk_user_id = c_ulong i, tk_workpath = CHR ''/'' # user_name\<rparr>"

text \<open>\<^verbatim>\<open>encrypt_password\<close> always returns a text; \<open>hash_of\<close> takes it out.\<close>

definition hash_of :: "(nat \<Rightarrow> nat) \<Rightarrow> string \<Rightarrow> string" where
  "hash_of rnd password = (case encrypt_password rnd password of Inl e \<Rightarrow> [] | Inr h \<Rightarrow> h)"

definition check_user_login :: "'d mysql \<Rightarrow> (token_info \<Rightarrow> string option) \<Rightarrow> (nat \<Rightarrow> nat) \<Rightarrow> trans_file \<Rightarrow>
    token_info \<Rightarrow> 'd world \<Rightarrow> 'd outcome res" where
  "check_user_login M gen rnd train tok w =
     bindR (log_info train) (\<lambda>(user_name, user_pwd).
     if tr_command train = 0 then
       bindR (user_register M (hash_of rnd) user_name user_pwd w) (\<lambda>(ret, w).
       Inr (if ret = -1 then answer gen RegisterError False 1 no_token w
            else if ret = 0 then answer gen AccountExists False 1 no_token w
            else if ret < 0 then \<lparr>oc_sent = [], oc_ret = 1, oc_token = no_token, oc_world = w\<rparr>
            else answer gen RegisterDone True 0 (user_token ret user_name) w))
     else if tr_command train = 1 then
       bindR (get_user M user_name w) (\<lambda>(user_info, w).
       case user_info of
         None \<Rightarrow> Inr (answer gen ServerBusyRetry False 1 no_token w)
       | Some users \<Rightarrow>
           bindR (first_of users) (\<lambda>user.
           Inr (if \<not> match_password user_pwd (u_password user)
                then answer gen WrongPassword False 1 no_token w
                else answer gen Welcome True 0 (user_token (u_id user) user_name) w)))
     else Inr \<lparr>oc_sent = [], oc_ret = 0, oc_token = tok, oc_world = w\<rparr>)"

subsection \<open>Dispatch\<close>

definition command :: "string list" where
  "command = [''cd'', ''ls'', ''ll'', ''pwd'', ''mkdir'', ''puts'', ''gets'', ''rm'']"

fun find_command :: "string \<Rightarrow> nat \<Rightarrow> string list \<Rightarrow> nat" where
  "find_command cmd command_no [] = command_no"
| "find_command cmd command_no (c # cs) =
     (if cmd = c then command_no else find_command cmd (command_no + 1) cs)"

text \<open>
  What a handler reads beside its arguments: sizes of files, working directory, the system's answer
  to \<^verbatim>\<open>open\<close>, the page size, the client's next message and the bytes it sends.
\<close>

record surroundings =
  su_stat :: "string \<Rightarrow> int option"
  su_cwd :: string
  su_open_error :: "string \<Rightarrow> string option"
  su_page :: nat
  su_message :: trans_file
  su_bufs :: "string list"

text \<open>What a request leaves: messages and bytes sent, the socket, the worker's token, the state.\<close>

record 'd served =
  sd_sent :: "trans_file list"
  sd_bytes :: string
  sd_closed :: bool
  sd_token :: token_info
  sd_files :: "string \<rightharpoonup> string"
  sd_world :: "'d world"

definition from_outcome :: "(string \<rightharpoonup> string) \<Rightarrow> 'd outcome \<Rightarrow> 'd served" where
  "from_outcome files r =
     \<lparr>sd_sent = oc_sent r, sd_bytes = [], sd_closed = False, sd_token = oc_token r, sd_files = files,
      sd_world = oc_world r\<rparr>"

definition from_transfer :: "token_info \<Rightarrow> 'd transfer \<Rightarrow> 'd served" where
  "from_transfer tok r =
     \<lparr>sd_sent = tf_sent r, sd_bytes = tf_bytes r, sd_closed = tf_closed r, sd_token = tok,
      sd_files = tf_files r, sd_world = tf_world r\<rparr>"

definition deal_command :: "'d mysql \<Rightarrow> (token_info \<Rightarrow> string option) \<Rightarrow> surroundings \<Rightarrow> nat \<Rightarrow> string \<Rightarrow>
    token_info \<Rightarrow> (string \<rightharpoonup> string) \<Rightarrow> 'd world \<Rightarrow> 'd served res" where
  "deal_command M gen su command_no argument tok files w =
     (let out = (\<lambda>m. bindR m (\<lambda>r. Inr (from_outcome files r)));
          tra = (\<lambda>m. bindR m (\<lambda>r. Inr (from_transfer tok r)))
      in if command_no = 0 then out (change_dir M gen argument tok w)
         else if command_no = 1 then out (show_dir M gen argument tok w)
         else if command_no = 2 then out (show_dir_detail M gen (su_stat su) (su_cwd su) argument tok w)
         else if command_no = 3 then out (show_path gen argument tok w)
         else if command_no = 4 then out (add_dir M gen argument tok w)
         else if command_no = 5 then
           tra (recv_file M gen (su_open_error su) (su_page su) (su_cwd su) argument tok (su_message su)
             (su_bufs su) files w)
         else if command_no = 6 then
           tra (send_file M gen (su_cwd su) argument tok (su_message su) files w)
         else out (remove_file M gen (su_cwd su) argument tok w))"

text \<open>
  \<^verbatim>\<open>cmd\<close> has ten cells, \<^verbatim>\<open>argument\<close> as many as the client's message says, whatever text follows.
  The result is always 0.
\<close>

definition connect_with_client :: "'d mysql \<Rightarrow> (token_info \<Rightarrow> string option) \<Rightarrow> surroundings \<Rightarrow> trans_file \<Rightarrow>
    token_info \<Rightarrow> (string \<rightharpoonup> string) \<Rightarrow> 'd world \<Rightarrow> (int \<times> 'd served) res" where
  "connect_with_client M gen su train tok files w =
     bindR (remove_space (tr_data train)) (\<lambda>data.
     bindR (guardR (0 < tr_length train) OutOfBounds) (\<lambda>_.
     bindR (case splite_argument data of
         None \<Rightarrow> bindR (strcpyR 10 data) (\<lambda>cmd. Inr (cmd, []))
       | Some (temp0, temp1) \<Rightarrow>
           bindR (strcpyR 10 temp0) (\<lambda>cmd.
           bindR (strcpyR (nat (tr_length train)) temp1) (\<lambda>argument. Inr (cmd, argument))))
       (\<lambda>(cmd, argument).
     let command_no = find_command cmd 0 command
     in if command_no = length command
        then Inr (0, from_outcome files (answer gen InvalidCommand False 0 tok w))
        else bindR (deal_command M gen su command_no argument tok files w) (\<lambda>r. Inr (0, r)))))"

subsection \<open>The worker\<close>

text \<open>
  The token texts of a request are made with the key the request finds or makes: \<open>token_maker\<close>
  leaves the key's change to the caller. \<open>now\<close> is the time of the request.
\<close>

definition token_maker :: "jwt_encode \<Rightarrow> int \<Rightarrow> string option \<Rightarrow> (nat \<Rightarrow> nat) \<Rightarrow> string \<Rightarrow> token_info \<Rightarrow>
    string option" where
  "token_maker enc now conf rnd token_key info =
     (case generate_token enc now conf rnd token_key info of Inl e \<Rightarrow> None | Inr (jwt, _) \<Rightarrow> jwt)"

text \<open>
  The body of the loop after \<^verbatim>\<open>dequeue\<close>. The worker's \<^verbatim>\<open>token\<close> is declared outside the loop: \<open>tok\<close> is
  what the previous request has left in it.
\<close>

record jwt_setting =
  js_enc :: jwt_encode
  js_dec :: jwt_decode
  js_conf :: "string option"
  js_rnd :: "nat \<Rightarrow> nat"

definition serve :: "'d mysql \<Rightarrow> jwt_setting \<Rightarrow> int \<Rightarrow> surroundings \<Rightarrow> trans_file \<Rightarrow> token_info \<Rightarrow>
    string \<Rightarrow> (string \<rightharpoonup> string) \<Rightarrow> 'd world \<Rightarrow> ('d served \<times> string) res" where
  "serve M js now su train tok token_key files w =
     (let gen = token_maker (js_enc js) now (js_conf js) (js_rnd js)
      in if tr_token train = [] then
           bindR (check_user_login M (gen token_key) (js_rnd js) train tok w) (\<lambda>r.
           if tk_user_id (oc_token r) = 0 \<or> oc_sent r = [] then Inr (from_outcome files r, token_key)
           else bindR (get_token_key (js_conf js) (js_rnd js) token_key) (\<lambda>(_, token_key).
             Inr (from_outcome files r, token_key)))
         else
           bindR (verify_token (js_dec js) now (js_conf js) (js_rnd js) token_key (tr_token train) tok)
             (\<lambda>(ret, tok, token_key).
           if ret \<noteq> Some L8W8JWT_VALID
           then Inr (from_outcome files (answer (gen token_key) LoginAgain False 0 tok w), token_key)
           else bindR (connect_with_client M (gen token_key) su train tok files w) (\<lambda>(ret, r).
             if ret = -1
             then Inr (r\<lparr>sd_sent := sd_sent r @ [notice_msg (gen token_key) ConnectionClosed False no_token],
                         sd_token := no_token\<rparr>, token_key)
             else Inr (r, token_key))))"

end
