(* ===== verification/Client.thy ===== *)
theory Client
  imports ClientText Sessions
begin

text \<open>
  The client: \<^verbatim>\<open>execute_command\<close> and \<^verbatim>\<open>command_printf\<close> of \<^verbatim>\<open>client/judgment.c\<close>, \<^verbatim>\<open>login\<close>,
  \<^verbatim>\<open>register_client\<close>, \<^verbatim>\<open>transfile\<close> of \<^verbatim>\<open>client/pthread.c\<close> and the loops of \<^verbatim>\<open>client/client.c\<close>.
  \<^verbatim>\<open>global_token\<close> is passed as a text; what is printed and sent is part of the results.
\<close>

subsection \<open>Commands\<close>

definition order :: "string list" where
  "order = [''cd'', ''ls'', ''ll'', ''pwd'', ''mkdir'', ''puts'', ''gets'', ''rm'']"

text \<open>\<^verbatim>\<open>strncmp(command, order[i], strlen(order[i]))\<close>: the first name the command starts with.\<close>

fun match_order :: "string \<Rightarrow> nat \<Rightarrow> string list \<Rightarrow> nat option" where
  "match_order cmd i [] = None"
| "match_order cmd i (name # names) =
     (if strncmp_eq cmd name (length name) then Some i else match_order cmd (i + 1) names)"

definition blanks :: "string \<Rightarrow> nat" where
  "blanks s = length (filter (\<lambda>c. c = CHR '' '') s)"

text \<open>\<open>res\<close> (0 illegal, 1 short, 2 long command) and \<^verbatim>\<open>train->command_no\<close>.\<close>

definition classify :: "string \<Rightarrow> nat \<times> int" where
  "classify cmd =
     (let n = blanks cmd
      in case match_order cmd 0 order of
           None \<Rightarrow> (0, 0)
         | Some i \<Rightarrow>
             if i = 0 \<or> i = 4 \<or> i = 7 then if n \<noteq> 1 then (0, 0) else (1, int i)
             else if i = 1 \<or> i = 2 then if 1 < n then (0, 0) else (1, int i)
             else if i = 5 \<or> i = 6 then if n \<noteq> 2 then (0, 0) else (2, int i)
             else if n \<noteq> 0 then (0, 0) else (1, int i))"

datatype client_act =
    Illegal
  | SendShort trans_file
  | StartTransfer trans_file

definition execute_command :: "string \<Rightarrow> string \<Rightarrow> client_act res" where
  "execute_command global_token cmd =
     (let (res, command_no) = classify cmd;
          train = (\<lambda>data. \<lparr>tr_data = data, tr_length = int (length cmd), tr_command = command_no,
            tr_flag = False, tr_token = global_token\<rparr>)
      in if res = 1 then bindR (strcpyR 1024 cmd) (\<lambda>data. Inr (SendShort (train data)))
         else if res = 2 then bindR (strcpyR 1024 cmd) (\<lambda>data. Inr (StartTransfer (train data)))
         else Inr Illegal)"

text \<open>
  The messages that arrive are a list, which ends when the server closes the connection; then
  \<^verbatim>\<open>recv\<close> leaves the cleared record, whose flag ends the loop. The lines printed, the token and the
  messages left.
\<close>

fun command_printf :: "trans_file list \<Rightarrow> string list \<times> string \<times> trans_file list" where
  "command_printf [] = ([[]], [], [])"
| "command_printf (train # rest) =
     (if \<not> tr_flag train then ([tr_data train], tr_token train, rest)
      else let (printed, global_token, rest) = command_printf rest
           in (tr_data train # printed, global_token, rest))"

subsection \<open>Login and registration\<close>

text \<open>
  What \<^verbatim>\<open>read\<close> puts into an array of 20 cleared characters: up to 20 of them. \<open>chop\<close> overwrites the
  last character before the terminator.
\<close>

definition chop :: "string \<Rightarrow> string res" where
  "chop input =
     (let s = buf_text input
      in if 20 \<le> length s \<or> s = [] then Inl OutOfBounds else Inr (butlast s))"

definition login_message :: "string \<Rightarrow> string \<Rightarrow> trans_file res" where
  "login_message account_input password_input =
     bindR (chop account_input) (\<lambda>account.
     bindR (chop password_input) (\<lambda>password.
     let data = account @ '' '' @ password
     in Inr \<lparr>tr_data = data, tr_length = int (length data), tr_command = 1, tr_flag = False, tr_token = []\<rparr>))"

text \<open>The answer is None when the connection is closed. The result and \<^verbatim>\<open>global_token\<close>.\<close>

definition login :: "trans_file option \<Rightarrow> string \<Rightarrow> bool \<times> string" where
  "login reply global_token =
     (case reply of
        None \<Rightarrow> (False, global_token)
      | Some train_client \<Rightarrow>
          if tr_flag train_client then (True, tr_token train_client) else (False, global_token))"

text \<open>
  \<^verbatim>\<open>strtok\<close> skips line feeds before the name: \<^verbatim>\<open>strcat\<close> then has the room that is left in the array
  for the name, a blank and the password.
\<close>

definition register_message :: "string \<Rightarrow> string \<Rightarrow> trans_file res" where
  "register_message account_input password_input =
     (let account = buf_text account_input; password = buf_text password_input;
          skipped = length (takeWhile (\<lambda>c. c = CHR 0x0A) account)
      in if 20 \<le> length account \<or> 20 \<le> length password then Inl OutOfBounds
         else case strtok account (CHR 0x0A) of
           None \<Rightarrow> Inl NullDeref
         | Some (act, _) \<Rightarrow>
             bindR (strcpyR (20 - skipped) (act @ '' '')) (\<lambda>info.
             case strtok password (CHR 0x0A) of
               None \<Rightarrow> Inl NullDeref
             | Some (psw, _) \<Rightarrow>
                 bindR (strcpyR (20 - skipped) (info @ psw)) (\<lambda>client_info.
                 Inr \<lparr>tr_data = client_info, tr_length = int (length client_info), tr_command = 0,
                      tr_flag = True, tr_token = []\<rparr>)))"

text \<open>A connection that is closed leaves the record as it was sent, with the flag set.\<close>

definition register_client :: "trans_file option \<Rightarrow> trans_file \<Rightarrow> bool" where
  "register_client reply train_client =
     (case reply of None \<Rightarrow> tr_flag train_client | Some train \<Rightarrow> tr_flag train)"

text \<open>
  The menu: each input line with the outcome of what it starts. None: still in the menu when the
  inputs end.
\<close>

fun menu :: "(string \<times> (trans_file option)) list \<Rightarrow> string \<Rightarrow> string option" where
  "menu [] global_token = None"
| "menu ((client_input, reply) # inputs) global_token =
     (if strncmp_eq client_input ''1'' 1 then
        (case login reply global_token of
           (ok, global_token) \<Rightarrow> if ok then Some global_token else menu inputs global_token)
      else menu inputs global_token)"

text \<open>One turn of the command loop; an array of 1024 that is full has no terminator.\<close>

definition command_turn :: "string \<Rightarrow> string \<Rightarrow> client_act option res" where
  "command_turn global_token input =
     (if input = [] then Inr None
      else if 1024 \<le> length (buf_text input) then Inl OutOfBounds
      else bindR (client_remove_space (buf_text input)) (\<lambda>cmd.
           bindR (execute_command global_token cmd) (\<lambda>act. Inr (Some act))))"

subsection \<open>Transfers\<close>

text \<open>
  \<^verbatim>\<open>transfile\<close>: the local path for command 5 and 6, and the message sent on the new connection when
  \<^verbatim>\<open>open\<close> gives a descriptor. \<^verbatim>\<open>sprintf\<close> into its own argument leaves the directory in place.
\<close>

definition local_path :: "(nat \<Rightarrow> nat) \<Rightarrow> string \<Rightarrow> trans_file \<Rightarrow> string res" where
  "local_path usable cwd train =
     bindR (strcpyR 256 (tr_data train)) (\<lambda>cmd.
     case strtok cmd (CHR '' '') of
       None \<Rightarrow> Inl NullDeref
     | Some (cmd0, rest1) \<Rightarrow>
         (case strtok rest1 (CHR '' '') of
            None \<Rightarrow> Inl NullDeref
          | Some (argument1, rest2) \<Rightarrow>
              bindR (client_get_file_name usable argument1) (\<lambda>file_name.
              if tr_command train = 5 then
                (if argument1 ! 0 = CHR ''/'' then Inr argument1
                 else bindR (strcpyR 1024 (cwd @ ''/'' @ argument1)) (\<lambda>path.
                      bindR (client_simplifyPath path) (strcpyR 1024)))
              else if tr_command train = 6 then
                (case strtok rest2 (CHR 0x0A) of
                   None \<Rightarrow> Inl NullDeref
                 | Some (argument2, _) \<Rightarrow>
                     if argument2 ! 0 = CHR ''/'' then strcpyR 1024 (argument2 @ file_name)
                     else bindR (strcpyR 1024 (cwd @ ''/'' @ argument2 @ file_name)) (\<lambda>path.
                          bindR (client_simplifyPath path) (strcpyR 1024)))
              else Inr [])))"

text \<open>\<^verbatim>\<open>client/hash.c\<close> is a copy of the server's digest functions.\<close>

definition client_string_to_hex :: "byte list \<Rightarrow> string" where
  "client_string_to_hex bs = string_to_hex bs"

definition client_generate_digest :: "(string \<Rightarrow> byte list) \<Rightarrow> string list \<Rightarrow> string" where
  "client_generate_digest sha blocks = client_string_to_hex (sha (concat blocks))"

lemma same_digests: "client_generate_digest = generate_digest"
  by (simp add: fun_eq_iff client_generate_digest_def client_string_to_hex_def generate_digest_def)

definition transfile :: "string option \<Rightarrow> (nat \<Rightarrow> nat) \<Rightarrow> string \<Rightarrow> (string \<Rightarrow> bool) \<Rightarrow> string \<Rightarrow> trans_file \<Rightarrow>
    (string \<times> string \<times> string \<times> trans_file) option res" where
  "transfile conf usable cwd openable global_token train =
     bindR (getparameter conf ''client_ip'' 20) (\<lambda>(_, ip).
     bindR (getparameter conf ''port'' 20) (\<lambda>(_, port).
     bindR (local_path usable cwd train) (\<lambda>path.
     if (tr_command train = 5 \<or> tr_command train = 6) \<and> openable path
     then Inr (Some (ip, port, path, train\<lparr>tr_token := global_token\<rparr>)) else Inr None)))"

subsection \<open>Commands and the server\<close>

lemma order_command: "order = command"
  by (simp add: order_def command_def)

lemma match_order_name:
  assumes "cmd = name @ CHR '' '' # r \<or> cmd = name" and "name \<in> set order"
  shows "match_order cmd 0 order = Some (find_command name 0 command)"
proof -
  from assms(2) have "name = ''cd'' \<or> name = ''ls'' \<or> name = ''ll'' \<or> name = ''pwd'' \<or> name = ''mkdir'' \<or>
      name = ''puts'' \<or> name = ''gets'' \<or> name = ''rm''" by (simp add: order_def)
  with assms(1) show ?thesis by (elim disjE) (simp_all add: order_def command_def strncmp_eq_def)
qed

lemma find_command_order: "find_command (order ! i) 0 command = i" if "i < 8"
proof -
  have "list_all (\<lambda>i. find_command (order ! i) 0 command = i) [0..<8]" by code_simp
  then show ?thesis using that by (simp add: list_all_iff)
qed

lemma command_printf_flags:
  "list_all tr_flag ms \<Longrightarrow> \<not> tr_flag m \<Longrightarrow>
   command_printf (ms @ m # rest) = (map tr_data ms @ [tr_data m], tr_token m, rest)"
  by (induction ms) simp_all

end
