(* ===== verification/TableServer.thy ===== *)
theory TableServer
  imports SqlServer
begin

text \<open>
  A database server that meets the predicate \<open>sql_server\<close>: it reads each statement text back
  into the statement it came from and works on the three tables. It shows that what the
  properties about \<^verbatim>\<open>deal_sql.c\<close> assume of the database can be had, and runs their witnesses.
\<close>

subsection \<open>Reading statements back\<close>

text \<open>One representative per statement, and the statement of the same kind with given arguments.\<close>

definition kinds :: "stmt list" where
  "kinds = [UserNamed [], InsUser [] [], InsRoot, InsUserRoot [] 0 0, FilesOfUser 0, ListDir 0,
     ListDirFiles 0, EntryNamed 0 [], InsDir, InsEntry [] 0 0 0, FileById 0, FileByHash [],
     InsFile [], InsLink [] 0 0 0, FileNamed 0 0 [], MarkComplete [], EntryLike 0 0 [],
     FileOfId 0, DelEntry 0 0, ChildrenOf 0]"

fun kind_of :: "stmt \<Rightarrow> stmt" where
  "kind_of (UserNamed n) = UserNamed []"
| "kind_of (InsUser n p) = InsUser [] []"
| "kind_of InsRoot = InsRoot"
| "kind_of (InsUserRoot n u f) = InsUserRoot [] 0 0"
| "kind_of (FilesOfUser u) = FilesOfUser 0"
| "kind_of (ListDir d) = ListDir 0"
| "kind_of (ListDirFiles d) = ListDirFiles 0"
| "kind_of (EntryNamed d n) = EntryNamed 0 []"
| "kind_of InsDir = InsDir"
| "kind_of (InsEntry n u f p) = InsEntry [] 0 0 0"
| "kind_of (FileById i) = FileById 0"
| "kind_of (FileByHash h) = FileByHash []"
| "kind_of (InsFile h) = InsFile []"
| "kind_of (InsLink n u f p) = InsLink [] 0 0 0"
| "kind_of (FileNamed u d n) = FileNamed 0 0 []"
| "kind_of (MarkComplete h) = MarkComplete []"
| "kind_of (EntryLike u d n) = EntryLike 0 0 []"
| "kind_of (FileOfId i) = FileOfId 0"
| "kind_of (DelEntry f u) = DelEntry 0 0"
| "kind_of (ChildrenOf d) = ChildrenOf 0"

fun str_of :: "sql_arg \<Rightarrow> string" where
  "str_of (Str s) = s"
| "str_of (Num n) = []"

fun num_of :: "sql_arg \<Rightarrow> int" where
  "num_of (Num n) = n"
| "num_of (Str s) = 0"

fun rebuild :: "stmt \<Rightarrow> sql_arg list \<Rightarrow> stmt" where
  "rebuild (UserNamed _) a = UserNamed (str_of (a ! 0))"
| "rebuild (InsUser _ _) a = InsUser (str_of (a ! 0)) (str_of (a ! 1))"
| "rebuild InsRoot a = InsRoot"
| "rebuild (InsUserRoot _ _ _) a = InsUserRoot (str_of (a ! 0)) (num_of (a ! 1)) (num_of (a ! 2))"
| "rebuild (FilesOfUser _) a = FilesOfUser (num_of (a ! 0))"
| "rebuild (ListDir _) a = ListDir (num_of (a ! 0))"
| "rebuild (ListDirFiles _) a = ListDirFiles (num_of (a ! 0))"
| "rebuild (EntryNamed _ _) a = EntryNamed (num_of (a ! 0)) (str_of (a ! 1))"
| "rebuild InsDir a = InsDir"
| "rebuild (InsEntry _ _ _ _) a =
     InsEntry (str_of (a ! 0)) (num_of (a ! 1)) (num_of (a ! 2)) (num_of (a ! 3))"
| "rebuild (FileById _) a = FileById (num_of (a ! 0))"
| "rebuild (FileByHash _) a = FileByHash (str_of (a ! 0))"
| "rebuild (InsFile _) a = InsFile (str_of (a ! 0))"
| "rebuild (InsLink _ _ _ _) a =
     InsLink (str_of (a ! 0)) (num_of (a ! 1)) (num_of (a ! 2)) (num_of (a ! 3))"
| "rebuild (FileNamed _ _ _) a = FileNamed (num_of (a ! 0)) (num_of (a ! 1)) (str_of (a ! 2))"
| "rebuild (MarkComplete _) a = MarkComplete (str_of (a ! 0))"
| "rebuild (EntryLike _ _ _) a = EntryLike (num_of (a ! 0)) (num_of (a ! 1)) (str_of (a ! 2))"
| "rebuild (FileOfId _) a = FileOfId (num_of (a ! 0))"
| "rebuild (DelEntry _ _) a = DelEntry (num_of (a ! 0)) (num_of (a ! 1))"
| "rebuild (ChildrenOf _) a = ChildrenOf (num_of (a ! 0))"

definition read_kind :: "string \<Rightarrow> stmt \<Rightarrow> sql_arg list option" where
  "read_kind t k = sql_unfmt (fst (stmt_format k)) t"

fun read_first :: "string \<Rightarrow> stmt list \<Rightarrow> stmt option" where
  "read_first t [] = None"
| "read_first t (k # ks) =
     (case read_kind t k of Some a \<Rightarrow> Some (rebuild k a) | None \<Rightarrow> read_first t ks)"

definition decode :: "string \<Rightarrow> stmt option" where
  "decode t = read_first t kinds"

text \<open>Two formats whose literal beginnings differ are never confused.\<close>

definition lit :: "string \<Rightarrow> string" where
  "lit f = takeWhile (\<lambda>c. c \<noteq> CHR ''%'') f"

lemma prefix_lit_fmt: "prefix (lit f) (sql_fmt f args)"
  by (induction f) (auto simp: lit_def)

lemma sql_unfmt_lit: "sql_unfmt f t = Some a \<Longrightarrow> prefix (lit f) t"
proof (induction f arbitrary: t a)
  case (Cons c f)
  then show ?case by (cases t) (auto simp: lit_def split: if_splits)
qed (simp add: lit_def)

lemma sql_unfmt_other:
  assumes "\<not> prefix (lit f) (lit g)" and "\<not> prefix (lit g) (lit f)"
  shows "sql_unfmt f (sql_fmt g args) = None"
proof (rule ccontr)
  assume "sql_unfmt f (sql_fmt g args) \<noteq> None"
  then have "prefix (lit f) (sql_fmt g args)" using sql_unfmt_lit by blast
  with prefix_lit_fmt [of g args] assms show False by (metis prefix_same_cases)
qed

definition klit :: "stmt \<Rightarrow> string" where
  "klit k = lit (fst (stmt_format k))"

definition confusable :: "stmt \<Rightarrow> stmt \<Rightarrow> bool" where
  "confusable j k \<longleftrightarrow> prefix (klit j) (klit k) \<or> prefix (klit k) (klit j)"

lemma format_kind: "fst (stmt_format (kind_of st)) = fst (stmt_format st)"
  by (cases st) simp_all

lemma read_own: "stmt_ok st \<Longrightarrow> read_kind (stmt_text st) (kind_of st) = Some (snd (stmt_format st))"
  unfolding read_kind_def format_kind stmt_text_def
  by (rule sql_unfmt_fmt) (simp add: stmt_fits stmt_ok_def)

lemma read_other: "\<not> confusable j (kind_of st) \<Longrightarrow> read_kind (stmt_text st) j = None"
  unfolding read_kind_def stmt_text_def
  by (rule sql_unfmt_other) (auto simp: confusable_def klit_def format_kind)

lemma rebuild_own: "rebuild (kind_of st) (snd (stmt_format st)) = st"
  by (cases st) simp_all

text \<open>The two pairs of statements that begin alike are told apart by what follows the number.\<close>

lemma klit_kinds:
  "klit (UserNamed []) = ''select * from user where name = '' @ [CHR 39]"
  "klit (InsUser [] []) = ''insert into user (name,password) values ('' @ [CHR 39]"
  "klit InsRoot = ''insert into file (type,complete,quote) values ('dir','1',1) ''"
  "klit (InsUserRoot [] 0 0) = ''insert into user_file (name,user_id,file_id) values ('' @ [CHR 39]"
  "klit (FilesOfUser 0) = ''select * from user_file where user_id = ''"
  "klit (ListDir 0) = ''select * from user_file where file_id in (select id from file where complete = '1') and parent_id = ''"
  "klit (ListDirFiles 0) = ''select * from file where id in (select file_id from user_file where parent_id = ''"
  "klit (EntryNamed 0 []) = ''select * from user_file where parent_id = ''"
  "klit InsDir = ''insert into file(type,complete,quote) values ('dir','1',1) ''"
  "klit (InsEntry [] 0 0 0) = ''insert into user_file(name,user_id,file_id,parent_id) values ('' @ [CHR 39]"
  "klit (FileById 0) = ''select * from file where id = ''"
  "klit (FileByHash []) = ''select * from file where hash = '' @ [CHR 39]"
  "klit (InsFile []) = ''insert into file(type,real_path,hash,complete,quote) values ('file','' @ [CHR 39]"
  "klit (InsLink [] 0 0 0) = ''insert into user_file (name,user_id,file_id,parent_id) values ('' @ [CHR 39]"
  "klit (FileNamed 0 0 []) = ''select * from file where id in (select file_id from user_file where user_id = ''"
  "klit (MarkComplete []) = ''update file set complete = '1' where hash = '' @ [CHR 39]"
  "klit (EntryLike 0 0 []) = ''select * from user_file where file_id in (select file_id from user_file where user_id = ''"
  "klit (FileOfId 0) = ''select * from file where id = ''"
  "klit (DelEntry 0 0) = ''delete from user_file where file_id = ''"
  "klit (ChildrenOf 0) = ''select * from user_file where parent_id = ''"
  by (simp_all add: klit_def lit_def quote_char_def)

lemma kinds_apart_users:
  "j \<in> set kinds \<Longrightarrow> confusable j (UserNamed []) \<Longrightarrow> j = UserNamed []"
  "j \<in> set kinds \<Longrightarrow> confusable j (InsUser [] []) \<Longrightarrow> j = InsUser [] []"
  "j \<in> set kinds \<Longrightarrow> confusable j InsRoot \<Longrightarrow> j = InsRoot"
  "j \<in> set kinds \<Longrightarrow> confusable j (InsUserRoot [] 0 0) \<Longrightarrow> j = InsUserRoot [] 0 0"
  by (auto simp: kinds_def confusable_def klit_kinds)

lemma kinds_apart_listings:
  "j \<in> set kinds \<Longrightarrow> confusable j (FilesOfUser 0) \<Longrightarrow> j = FilesOfUser 0"
  "j \<in> set kinds \<Longrightarrow> confusable j (ListDir 0) \<Longrightarrow> j = ListDir 0"
  "j \<in> set kinds \<Longrightarrow> confusable j (ListDirFiles 0) \<Longrightarrow> j = ListDirFiles 0"
  "j \<in> set kinds \<Longrightarrow> confusable j (EntryNamed 0 []) \<Longrightarrow> j = EntryNamed 0 [] \<or> j = ChildrenOf 0"
  by (auto simp: kinds_def confusable_def klit_kinds)

lemma kinds_apart_files:
  "j \<in> set kinds \<Longrightarrow> confusable j InsDir \<Longrightarrow> j = InsDir"
  "j \<in> set kinds \<Longrightarrow> confusable j (InsEntry [] 0 0 0) \<Longrightarrow> j = InsEntry [] 0 0 0"
  "j \<in> set kinds \<Longrightarrow> confusable j (FileById 0) \<Longrightarrow> j = FileById 0 \<or> j = FileOfId 0"
  "j \<in> set kinds \<Longrightarrow> confusable j (FileByHash []) \<Longrightarrow> j = FileByHash []"
  by (auto simp: kinds_def confusable_def klit_kinds)

lemma kinds_apart_links:
  "j \<in> set kinds \<Longrightarrow> confusable j (InsFile []) \<Longrightarrow> j = InsFile []"
  "j \<in> set kinds \<Longrightarrow> confusable j (InsLink [] 0 0 0) \<Longrightarrow> j = InsLink [] 0 0 0"
  "j \<in> set kinds \<Longrightarrow> confusable j (FileNamed 0 0 []) \<Longrightarrow> j = FileNamed 0 0 []"
  "j \<in> set kinds \<Longrightarrow> confusable j (MarkComplete []) \<Longrightarrow> j = MarkComplete []"
  by (auto simp: kinds_def confusable_def klit_kinds)

lemma kinds_apart_removal:
  "j \<in> set kinds \<Longrightarrow> confusable j (EntryLike 0 0 []) \<Longrightarrow> j = EntryLike 0 0 []"
  "j \<in> set kinds \<Longrightarrow> confusable j (FileOfId 0) \<Longrightarrow> j = FileOfId 0 \<or> j = FileById 0"
  "j \<in> set kinds \<Longrightarrow> confusable j (DelEntry 0 0) \<Longrightarrow> j = DelEntry 0 0"
  "j \<in> set kinds \<Longrightarrow> confusable j (ChildrenOf 0) \<Longrightarrow> j = ChildrenOf 0 \<or> j = EntryNamed 0 []"
  by (auto simp: kinds_def confusable_def klit_kinds)

lemmas kinds_apart = kinds_apart_users kinds_apart_listings kinds_apart_files kinds_apart_links kinds_apart_removal

lemma nat_str_tail:
  "0 \<le> n \<Longrightarrow> s = [] \<or> \<not> is_digit (hd s) \<Longrightarrow> dropWhile is_digit (num_str n @ s) = s"
  by (simp add: num_str_def dropWhile_digits)

lemma num_str_drop: "0 \<le> n \<Longrightarrow> dropWhile is_digit (num_str n) = []"
  using nat_str_tail [of n "[]"] by simp

lemma read_pairs:
  "ulong i \<Longrightarrow> read_kind (stmt_text (FileById i)) (FileOfId 0) = None"
  "ulong i \<Longrightarrow> read_kind (stmt_text (FileOfId i)) (FileById 0) = None"
  "ulong i \<Longrightarrow> read_kind (stmt_text (EntryNamed i n)) (ChildrenOf 0) = None"
  "ulong i \<Longrightarrow> read_kind (stmt_text (ChildrenOf i)) (EntryNamed 0 []) = None"
  by (simp_all add: read_kind_def stmt_text_def ulong_def nat_str_tail num_str_drop is_digit_def)

lemma read_first_only:
  "k \<in> set ks \<Longrightarrow> read_kind t k = Some a \<Longrightarrow> (\<And>j. j \<in> set ks \<Longrightarrow> j \<noteq> k \<Longrightarrow> read_kind t j = None) \<Longrightarrow>
   read_first t ks = Some (rebuild k a)"
proof (induction ks)
  case (Cons j ks)
  then show ?case by (cases "j = k") auto
qed simp

lemma kind_in_kinds: "kind_of st \<in> set kinds"
  by (cases st) (simp_all add: kinds_def)

lemma read_not_own:
  assumes ok: "stmt_ok st" and j: "j \<in> set kinds" "j \<noteq> kind_of st"
  shows "read_kind (stmt_text st) j = None"
proof (cases "confusable j (kind_of st)")
  case False
  then show ?thesis by (rule read_other)
next
  case True
  with j ok show ?thesis
    by (cases st) (auto dest!: kinds_apart [OF j(1)] simp: read_pairs stmt_ok_def arg_ok_def)
qed

lemma decode_stmt: "stmt_ok st \<Longrightarrow> decode (stmt_text st) = Some st"
  unfolding decode_def
  using read_first_only [OF kind_in_kinds read_own read_not_own] rebuild_own [of st] by metis

subsection \<open>The server\<close>

text \<open>\<^verbatim>\<open>like\<close> with \<^verbatim>\<open>%\<close> and \<^verbatim>\<open>_\<close>.\<close>

fun like_match :: "string \<Rightarrow> string \<Rightarrow> bool" where
  "like_match [] s \<longleftrightarrow> s = []"
| "like_match (p # ps) [] \<longleftrightarrow> p = CHR ''%'' \<and> like_match ps []"
| "like_match (p # ps) (c # s) \<longleftrightarrow>
     (if p = CHR ''%'' then like_match ps (c # s) \<or> like_match (p # ps) s
      else (p = CHR ''_'' \<or> p = c) \<and> like_match ps s)"

lemma like_match_self: "like_match s s"
proof (induction s)
  case (Cons c s)
  have step: "like_match (CHR ''%'' # q) r" if "like_match q r" for q r
    using that by (cases r) auto
  from Cons step show ?case by simp
qed simp

fun answer_rows :: "stmt \<Rightarrow> tables \<Rightarrow> row list" where
  "answer_rows (UserNamed n) t = map row_of_user (filter (\<lambda>u. u_name u = n) (t_users t))"
| "answer_rows (FilesOfUser uid) t =
     map row_of_userfile (sort_key uf_file_id (filter (\<lambda>e. uf_user_id e = uid) (t_entries t)))"
| "answer_rows (ListDir d) t =
     map row_of_userfile (sort_key uf_file_id
       (filter (\<lambda>e. uf_file_id e \<in> complete_ids t \<and> at_parent d e) (t_entries t)))"
| "answer_rows (ListDirFiles d) t =
     map row_of_file (sort_key f_id (filter (\<lambda>f. f_id f \<in> ids_under d t \<and> f_complete f) (t_files t)))"
| "answer_rows (EntryNamed d n) t =
     map row_of_userfile (filter (\<lambda>e. at_parent d e \<and> uf_name e = n) (t_entries t))"
| "answer_rows (FileById i) t = map row_of_file (filter (\<lambda>f. f_id f = i) (t_files t))"
| "answer_rows (FileOfId i) t = map row_of_file (filter (\<lambda>f. f_id f = i) (t_files t))"
| "answer_rows (FileByHash h) t = map row_of_file (filter (has_hash (=) h) (t_files t))"
| "answer_rows (FileNamed uid d n) t =
     map row_of_file
       (filter (\<lambda>f. (\<exists>e\<in>set (t_entries t). uf_file_id e = f_id f \<and> uf_user_id e = uid \<and> at_parent d e \<and>
          uf_name e = n) \<and> f_type f \<noteq> 0) (t_files t))"
| "answer_rows (EntryLike uid d n) t =
     map row_of_userfile
       (filter (\<lambda>e. (\<exists>e'\<in>set (t_entries t). uf_file_id e' = uf_file_id e \<and> uf_user_id e' = uid \<and>
          at_parent d e') \<and> like_match n (uf_name e)) (t_entries t))"
| "answer_rows (ChildrenOf d) t = map row_of_userfile (filter (at_parent d) (t_entries t))"
| "answer_rows _ t = []"

lemma any_order_self: "any_order f xs (map f xs)"
  by (auto simp: any_order_def)

lemma order_by_sort: "order_by key f xs (map f (sort_key key xs))"
  unfolding order_by_def by (rule exI [of _ "sort_key key xs"]) simp

lemma answer_rows_answers: "answers (=) like_match q t (answer_rows q t)"
  by (cases q) (simp_all add: any_order_self order_by_sort)

definition table_query :: "int \<Rightarrow> string \<Rightarrow> sql_state \<Rightarrow> bool \<times> sql_state" where
  "table_query c txt s =
     (case decode txt of
        None \<Rightarrow> (True, s)
      | Some q \<Rightarrow>
          (False, s\<lparr>ss_tables := fst (effect (=) q (ss_tables s)),
                    ss_rows := (ss_rows s)(c := answer_rows q (ss_tables s)),
                    ss_last := (ss_last s)(c := snd (effect (=) q (ss_tables s))),
                    ss_log := (if ss_manual s c \<or> fst (effect (=) q (ss_tables s)) = ss_tables s
                      then ss_log s else fst (effect (=) q (ss_tables s)) # ss_log s)\<rparr>))"

definition table_server :: "sql_state mysql" where
  "table_server =
     \<lparr>my_query = table_query, my_store = \<lambda>c s. Some (ss_rows s c), my_insert_id = \<lambda>c s. ss_last s c,
      my_autocommit = \<lambda>c b s. s\<lparr>ss_manual := (ss_manual s)(c := \<not> b)\<rparr>, my_commit = \<lambda>c s. s\<lparr>ss_log := log_durable (ss_tables s) (ss_log s)\<rparr>\<rparr>"

lemma table_server_ok: "sql_server (=) like_match table_server (\<lambda>s. s)"
  by (simp add: sql_server_def table_server_def table_query_def decode_stmt like_match_self)
    (use answer_rows_answers in blast)

end
