(* ===== verification/DirectoryProps.thy ===== *)
theory DirectoryProps
  imports Directory TableServer
begin

text \<open>
  Registration, the growth of a user's tree over several operations, and the properties of
  \<^verbatim>\<open>server/deal_sql.c\<close>, each with a run against the server of \<open>TableServer\<close>.
\<close>

subsection \<open>Registration\<close>

definition account_taken :: "(string \<Rightarrow> string \<Rightarrow> bool) \<Rightarrow> tables \<Rightarrow> string \<Rightarrow> bool" where
  "account_taken eq t n \<longleftrightarrow> (\<exists>u\<in>set (t_users t). eq (u_name u) n)"

definition with_account :: "string \<Rightarrow> string \<Rightarrow> tables \<Rightarrow> tables" where
  "with_account n p t =
     fst (add_entry n (t_next_user t) (t_next_file t) 0 (fst (add_file 0 [] True (fst (effect (=) (InsUser n p) t)))))"

lemma with_account_differs [simp]: "with_account n p t \<noteq> t"
  by (auto simp: with_account_def add_entry_def add_file_def dest: arg_cong [of _ _ "\<lambda>t. length (t_entries t)"])

lemma select_users:
  assumes srv: "sql_server eq like M st" and q: "name_ok n"
    and c: "\<forall>c'. c' \<noteq> c \<longrightarrow> \<not> manual st w c'" and t: "tables_ok (tabs st w)"
  obtains ys where "set ys = {u \<in> set (t_users (tabs st w)). eq (u_name u) n}"
    and "fetch M c convert_to_user (send_stmt M c (UserNamed n) w) = Inr ys"
    and "tabs st (send_stmt M c (UserNamed n) w) = tabs st w"
    and "modes st (send_stmt M c (UserNamed n) w) = modes st w"
proof -
  have ok: "stmt_ok (UserNamed n)" using q by (intro stmt_okI) (simp_all add: arg_ok_def arg_len_def name_ok_def)
  from select_rows [OF srv ok _ c, of convert_to_user] obtain rows where
    a: "answers eq like (UserNamed n) (tabs st w) rows"
    and f: "fetch M c convert_to_user (send_stmt M c (UserNamed n) w) = get_result_set (Some rows) convert_to_user"
    and l: "tabs st (send_stmt M c (UserNamed n) w) = tabs st w"
      "modes st (send_stmt M c (UserNamed n) w) = modes st w" by auto
  then obtain ys where ys: "mset ys = mset (filter (\<lambda>u. eq (u_name u) n) (t_users (tabs st w)))"
    "rows = map row_of_user ys" by (auto simp: any_order_def)
  from set_mset_filter [OF ys(1)] have set: "set ys = {u \<in> set (t_users (tabs st w)). eq (u_name u) n}" .
  have "\<forall>u\<in>set ys. user_ok u" using t by (auto simp: set tables_ok_def list_all_iff)
  then have "get_result_set (Some rows) convert_to_user = Inr ys" by (simp add: ys(2) get_users)
  with that set f l show ?thesis by simp
qed

lemma tables_ok_with_account:
  assumes "tables_ok t" and "room t" and "name_ok n" and "length n < 30" and "length p < 70"
  shows "tables_ok (with_account n p t)"
  using assms
  by (auto simp: tables_ok_def with_account_def add_entry_def add_file_def new_file_def new_entry_def
      user_ok_def file_ok_def userfile_ok_def name_ok_def room_def ulong_def list_all_iff)

text \<open>The three inserts of a registration, with automatic commit off.\<close>

lemma account_inserts:
  fixes c :: int
  assumes srv: "sql_server eq like M st" and v: "tabs st v = t" "modes st v = (\<lambda>c'. c' = c, L)"
    and L: "L \<noteq> [] \<and> hd L = t"
    and tok: "tables_ok t" and rm: "room t" and n: "name_ok n" "length n < 30" and h: "plain h" "length h < 62"
  defines "v1 \<equiv> send_stmt M c (InsUser n h) v" and "v2 \<equiv> send_stmt M c InsRoot (send_stmt M c (InsUser n h) v)"
  defines "v3 \<equiv> autocommit M c True (commit M c (send_stmt M c (InsUserRoot n (t_next_user t) (t_next_file t)) v2))"
  shows "insert_id M c v1 = t_next_user t" and "insert_id M c v2 = t_next_file t"
    and "tabs st v3 = with_account n h t" and "modes st v3 = (\<lambda>c. False, with_account n h t # L)"
    and "w_pool v3 = w_pool v"
proof -
  let ?i = "t_next_user t" and ?j = "t_next_file t"
  have num: "ulong ?i" "ulong ?j" using rm tok by (auto simp: room_def tables_ok_def ulong_def)
  have ok: "stmt_ok (InsUser n h)" "stmt_ok InsRoot" "stmt_ok (InsUserRoot n ?i ?j)"
    using n h num by (auto intro!: stmt_okI simp: arg_ok_def arg_len_def name_ok_def)
  have u1: "tabs st v1 = fst (effect eq (InsUser n h) t)" "modes st v1 = (\<lambda>c'. c' = c, L)" "insert_id M c v1 = ?i"
    using update_ok [OF srv ok(1), of v c] v n h rm by (simp_all add: v1_def room_def)
  have u2: "tabs st v2 = fst (add_file 0 [] True (tabs st v1))" "modes st v2 = (\<lambda>c'. c' = c, L)"
    "insert_id M c v2 = ?j"
    using update_ok [OF srv ok(2), of v1 c] u1 rm by (simp_all add: v2_def v1_def room_def)
  have u3: "tabs st (send_stmt M c (InsUserRoot n ?i ?j) v2) = with_account n h t"
    "modes st (send_stmt M c (InsUserRoot n ?i ?j) v2) = (\<lambda>c'. c' = c, L)"
    using update_ok [OF srv ok(3), of v2 c] u2 u1 n rm by (simp_all add: room_def with_account_def)
  show "insert_id M c v1 = ?i" "insert_id M c v2 = ?j" by (fact u1(3) u2(3))+
  have "L \<noteq> [] \<and> hd L \<noteq> tabs st (send_stmt M c (InsUserRoot n ?i ?j) v2)"
    using L u3(1) with_account_differs by metis
  from transaction_end [OF srv _ _ this] u3
  show "tabs st v3 = with_account n h t" "modes st v3 = (\<lambda>c. False, with_account n h t # L)"
    by (simp_all add: v3_def)
  show "w_pool v3 = w_pool v" by (simp add: v3_def v2_def)
qed

lemma user_register_spec:
  assumes srv: "sql_server eq like M st" and rdy: "ready st w" and n: "name_ok n" "length n < 30"
    and p: "plain (encrypt pw)" "length (encrypt pw) < 62" and rm: "room (tabs st w)"
  defines "t \<equiv> tabs st w"
  shows "\<exists>w'. user_register M encrypt n pw w =
      Inr (if account_taken eq t n then 0 else t_next_user t, w') \<and>
    w_pool w' = w_pool w \<and>
    tabs st w' = (if account_taken eq t n then t else with_account n (encrypt pw) t) \<and>
    durable st w' = (if account_taken eq t n then durable st w else with_account n (encrypt pw) t # durable st w) \<and>
    (manual st w' = (\<lambda>c. False) \<longleftrightarrow> \<not> account_taken eq t n) \<and>
    (account_taken eq t n \<longrightarrow> (\<exists>c p. connect w = Inr (Some c, w\<lparr>w_pool := p\<rparr>) \<and> manual st w' = (\<lambda>c'. c' = c)))"
proof -
  from rdy obtain c p where con: "connect w = Inr (Some c, w\<lparr>w_pool := p\<rparr>)"
    and rel: "release_connection c p = w_pool w"
    using connect_ready unfolding ready_def by metis
  have tok: "tables_ok t" and none: "manual st w = (\<lambda>c. False)" and sy: "synced st (w\<lparr>w_pool := p\<rparr>)"
    and L: "durable st w \<noteq> [] \<and> hd (durable st w) = t" using rdy by (simp_all add: ready_def t_def synced_iff)
  define v0 where "v0 = autocommit M c False (w\<lparr>w_pool := p\<rparr>)"
  have v0: "tabs st v0 = t" "modes st v0 = (\<lambda>c'. c' = c, durable st w)" "w_pool v0 = p"
    using none autocommit_ok [OF srv sy, of c False] by (auto simp: v0_def t_def fun_eq_iff)
  define v1 where "v1 = send_stmt M c (UserNamed n) v0"
  obtain ys where ys: "set ys = {u \<in> set (t_users t). eq (u_name u) n}"
    and f: "fetch M c convert_to_user v1 = Inr ys" and v1: "tabs st v1 = t" "modes st v1 = (\<lambda>c'. c' = c, durable st w)"
    using select_users [OF srv n(1), of c v0] v0 tok by (auto simp: v1_def)
  have taken: "ys \<noteq> [] \<longleftrightarrow> account_taken eq t n"
    unfolding account_taken_def set_empty [symmetric] ys by auto
  show ?thesis
  proof (cases "ys = []")
    case False
    then have "user_register M encrypt n pw w = Inr (0, release c v1)"
      using con f by (simp add: user_register_def Let_def flip: v0_def v1_def)
    moreover have "w_pool (release c v1) = w_pool w" using v0 rel by (simp add: v1_def)
    moreover have "manual st (release c v1) \<noteq> (\<lambda>c. False)" using v1 by (auto simp: fun_eq_iff)
    ultimately show ?thesis using False taken v1 con by auto
  next
    case True
    let ?i = "t_next_user t" and ?h = "encrypt pw"
    have i: "c_int ?i = ?i" using rm tok by (auto simp: room_def t_def tables_ok_def c_int_id)
    note insert = account_inserts [OF srv v1 L tok rm [folded t_def] n assms(5,6)]
    define v2 where "v2 = autocommit M c True (commit M c (send_stmt M c (InsUserRoot n ?i (t_next_file t))
      (send_stmt M c InsRoot (send_stmt M c (InsUser n ?h) v1))))"
    have "user_register M encrypt n pw w = Inr (?i, release c v2)"
      using con f True insert(1,2) assms(6) i
      by (simp add: user_register_def Let_def v2_def strcpyR_def flip: v0_def v1_def)
    moreover have "w_pool (release c v2) = w_pool w" "modes st (release c v2) = (\<lambda>c. False, with_account n ?h t # durable st w)"
      "tabs st (release c v2) = with_account n ?h t"
      using insert(3-5) [folded v2_def] v0 rel by (simp_all add: v1_def)
    ultimately show ?thesis using True taken by auto
  qed
qed

subsection \<open>Making a directory and changing to it\<close>

lemma child_snoc:
  "child (es @ [e]) p n =
     (case child es p n of Some x \<Rightarrow> Some x
      | None \<Rightarrow> if uf_parent_id e = p \<and> uf_name e = n then Some e else None)"
  by (induction es) (auto simp: child_def)

lemma walk_snoc: "walk es p ns = Some q \<Longrightarrow> walk (es @ [e]) p ns = Some q"
  by (induction ns arbitrary: p) (auto simp: child_snoc split: option.splits if_splits)

lemma walk_append: "walk es p (ms @ ns) = (case walk es p ms of None \<Rightarrow> None | Some q \<Rightarrow> walk es q ns)"
  by (induction ms arbitrary: p) (auto split: option.splits)

lemma with_dir_entries:
  "t_entries (with_dir uid d n t) = t_entries t @ [new_entry (t_next_entry t) n uid (t_next_file t) d]"
  by (simp add: with_dir_def add_entry_def)

lemma user_entries_with_dir:
  "user_entries uid (with_dir uid d n t) =
     user_entries uid t @ [new_entry (t_next_entry t) n uid (t_next_file t) d]"
  by (simp add: user_entries_def with_dir_entries new_entry_def)

lemma not_taken_child:
  assumes "\<not> name_taken eq t d n" and "\<And>s. eq s s" and "d \<noteq> 0"
  shows "child (user_entries uid t) d n = None"
  using assms by (auto simp: child_def find_None_iff name_taken_def user_entries_def at_parent_def)

lemma resolve_with_dir:
  assumes tok: "tables_ok t" and d: "d = resolve_dir t uid path" "d \<noteq> 0" "d < t_next_file t"
    and free: "\<not> name_taken eq t d n" "\<And>s. eq s s" and "path \<noteq> []" and n: "CHR ''/'' \<notin> set n"
  shows "resolve_dir (with_dir uid d n t) uid (path @ CHR ''/'' # n) = t_next_file t"
proof -
  let ?e = "new_entry (t_next_entry t) n uid (t_next_file t) d"
  let ?es = "user_entries uid t @ [?e]" and ?ns = "split_slash (tl path)"
  have "walk (user_entries uid t) 0 ?ns = Some d"
    using d by (auto simp: resolve_dir_def split: option.splits)
  then have w: "walk ?es 0 ?ns = Some d" by (rule walk_snoc)
  have "split_slash (tl (path @ CHR ''/'' # n)) = ?ns @ [n]"
    using \<open>path \<noteq> []\<close> split_on_no_sep [OF n] by (simp add: split_on_append)
  moreover have "walk ?es 0 (?ns @ [n]) = Some (t_next_file t)"
    using w not_taken_child [OF free d(2)] d(3) by (simp add: walk_append child_snoc new_entry_def)
  ultimately show ?thesis by (simp add: resolve_dir_def user_entries_with_dir)
qed

lemma tables_ok_with_dir:
  assumes "tables_ok t" and "room t" and "name_ok n" and "ulong uid" and "ulong d"
  shows "tables_ok (with_dir uid d n t)"
  using assms
  by (auto simp: tables_ok_def with_dir_def add_entry_def add_file_def new_file_def new_entry_def
      file_ok_def userfile_ok_def name_ok_def room_def ulong_def list_all_iff)

lemma user_tree_with_dir:
  assumes tree: "user_tree uid t" and tok: "tables_ok t" and rm: "room t"
    and free: "\<not> name_taken eq t d n" "\<And>s. eq s s" and d: "0 < d" "d < t_next_file t"
  shows "user_tree uid (with_dir uid d n t)"
proof -
  let ?e = "new_entry (t_next_entry t) n uid (t_next_file t) d" and ?es = "user_entries uid t"
  have old: "uf_file_id x < t_next_file t" if "x \<in> set ?es" for x
    using that tok by (simp add: tables_ok_def list_all_iff user_entries_def)
  have "(d, n) \<noteq> (uf_parent_id x, uf_name x)" if "x \<in> set ?es" for x
    using not_taken_child [OF free, of uid] d that by (auto simp: child_def find_None_iff)
  then have "entries_ok (?es @ [?e])"
    using tree d rm tok
    by (auto simp: user_tree_def entries_ok_def new_entry_def room_def tables_ok_def)
  moreover have "rooted (?es @ [?e])"
  proof -
    from tree obtain r where r: "r \<in> set ?es" "uf_parent_id r = 0"
      "\<forall>e\<in>set ?es. e \<noteq> r \<longrightarrow> uf_file_id r < uf_file_id e" by (auto simp: user_tree_def rooted_def)
    with old [OF r(1)] show ?thesis
      unfolding rooted_def by (intro bexI [of _ r]) (auto simp: new_entry_def)
  qed
  ultimately show ?thesis using tree by (simp add: user_tree_def user_entries_with_dir)
qed

lemma resolve_below_next:
  assumes "tables_ok t" and "resolve_dir t uid path \<noteq> 0"
  shows "resolve_dir t uid path < t_next_file t"
proof -
  have "walk es p ns = Some q \<Longrightarrow> set es \<subseteq> set (t_entries t) \<Longrightarrow> p < t_next_file t \<Longrightarrow> q < t_next_file t"
    for es p ns q
  proof (induction ns arbitrary: p)
    case (Cons m ns)
    then obtain e where e: "child es p m = Some e" "walk es (uf_file_id e) ns = Some q"
      by (auto split: option.splits if_splits)
    have "uf_file_id e < t_next_file t"
      using child_Some [OF e(1)] Cons.prems(2) assms(1) by (auto simp: tables_ok_def list_all_iff)
    with Cons.IH [OF e(2) Cons.prems(2)] show ?case .
  qed simp
  moreover have "set (user_entries uid t) \<subseteq> set (t_entries t)" by (auto simp: user_entries_def)
  moreover have "0 < t_next_file t" using assms(1) by (simp add: tables_ok_def)
  ultimately show ?thesis using assms(2) by (auto simp: resolve_dir_def split: option.splits)
qed

subsection \<open>A concrete world\<close>

text \<open>A user with a directory, a complete file in it and an upload under way.\<close>

definition demo_tables :: tables where
  "demo_tables =
     \<lparr>t_users = [\<lparr>u_id = 1, u_name = ''ann'', u_password = ''p'', u_delete_time = 0\<rparr>],
      t_files = [new_file 1 0 [] True, new_file 2 0 [] True, new_file 3 1 ''h3'' True,
        new_file 4 1 ''h4'' False],
      t_entries = [new_entry 1 ''ann'' 1 1 0, new_entry 2 ''docs'' 1 2 1, new_entry 3 ''a'' 1 3 2,
        new_entry 4 ''b'' 1 4 2],
      t_next_user = 2, t_next_file = 5, t_next_entry = 5\<rparr>"

definition demo_pool :: db_pool where
  "demo_pool = \<lparr>dp_connects = map (\<lambda>k. \<lparr>cn_connection = k, cn_in_use = False\<rparr>) [10, 11, 12, 13],
     dp_available = 4\<rparr>"

definition demo :: "sql_state world" where
  "demo = \<lparr>w_pool = demo_pool,
     w_db = \<lparr>ss_tables = demo_tables, ss_manual = (\<lambda>c. False), ss_rows = (\<lambda>c. []), ss_last = (\<lambda>c. 0),
       ss_log = [demo_tables]\<rparr>\<rparr>"

lemma demo_tabs [simp]: "tabs (\<lambda>s. s) demo = demo_tables"
  by (simp add: tabs_def demo_def)

lemma demo_ready: "ready (\<lambda>s. s) demo"
  by (simp add: ready_def manual_def synced_def settled_log_def demo_def demo_pool_def pool_ok_def tabs_def demo_tables_def
      tables_ok_def user_ok_def file_ok_def userfile_ok_def new_file_def new_entry_def ulong_def)

lemma demo_tree: "user_tree 1 demo_tables"
  by (simp add: user_tree_def demo_tables_def user_entries_def new_entry_def entries_ok_def rooted_def
      ulong_def)

lemma demo_room: "room demo_tables"
  by (simp add: room_def demo_tables_def)

lemma demo_linked: "linked demo_tables"
  by (simp add: linked_def demo_tables_def new_file_def new_entry_def)

lemma demo_dir: "resolve_dir demo_tables 1 ''/ann/docs'' = 2" "resolve_dir demo_tables 1 ''/ann/x'' = 0"
  by (simp_all add: resolve_dir_def demo_tables_def user_entries_def new_entry_def child_def)

lemma demo_offers:
  "offers (=) demo_tables 1 2 ''a'' f \<longleftrightarrow> f = new_file 3 1 ''h3'' True"
  "offers (=) demo_tables 1 2 ''b'' f \<longleftrightarrow> f = new_file 4 1 ''h4'' False"
  by (auto simp: offers_def demo_tables_def new_file_def new_entry_def at_parent_def)

lemma demo_gets:
  "gets_post (=) demo_tables 1 2 ''a'' r h \<longleftrightarrow> r = 1 \<and> h = ''h3''"
  "gets_post (=) demo_tables 1 2 ''b'' r h \<longleftrightarrow> r = 0 \<and> h = []"
  by (auto simp: gets_post_def demo_offers new_file_def)

lemma demo_removable: "removable like_match demo_tables 1 2 ''a'' e \<longleftrightarrow> e = new_entry 3 ''a'' 1 3 2"
proof -
  have "filter (\<lambda>e. like_match ''a'' (uf_name e) \<and> (\<exists>e'\<in>set (t_entries demo_tables).
      uf_file_id e' = uf_file_id e \<and> uf_user_id e' = 1 \<and> at_parent 2 e')) (t_entries demo_tables) =
    [new_entry 3 ''a'' 1 3 2]"
    by (simp add: demo_tables_def new_entry_def at_parent_def)
  then have "{e \<in> set (t_entries demo_tables). like_match ''a'' (uf_name e) \<and>
      (\<exists>e'\<in>set (t_entries demo_tables). uf_file_id e' = uf_file_id e \<and> uf_user_id e' = 1 \<and> at_parent 2 e')} =
    {new_entry 3 ''a'' 1 3 2}" by (metis set_filter empty_set list.simps(15))
  then show ?thesis unfolding removable_def by blast
qed

lemma demo_remove:
  "remove_post like_match demo_tables 1 2 ''a'' r t \<longleftrightarrow> r = 0 \<and> t = without 3 1 demo_tables"
proof -
  have a: "new_file 3 1 ''h3'' True \<in> set (t_files demo_tables)" by (simp add: demo_tables_def)
  have b: "f_type f \<noteq> 0" if "f \<in> set (t_files demo_tables)" "f_id f = 3" for f
    using that by (auto simp: demo_tables_def new_file_def)
  have "uf_file_id (new_entry 3 ''a'' 1 3 2) = 3" "f_id (new_file 3 1 ''h3'' True) = 3"
    by (simp_all add: new_entry_def new_file_def)
  with a b show ?thesis unfolding remove_post_def demo_removable by (metis zero_neq_numeral)
qed

lemmas demo_eval = demo_tables_def new_file_def new_entry_def at_parent_def name_taken_def has_hash_def
  name_ok_def plain_def quote_char_def cstr_ok_def

subsection \<open>Properties\<close>

text \<open>Path lookup: for every user whose entries have unique names per directory and one root,
  \<^verbatim>\<open>query_cd\<close> returns the identifier the path's components lead to in that user's tree, and 0
  when they lead nowhere, whatever order the server stores the rows in; the tables and the
  connection pool are as before.\<close>

theorem query_cd_correct:
  assumes "sql_server eq like M st" and "ready st w" and "path \<noteq> []" and "user_tree uid (tabs st w)"
  shows "\<exists>w'. query_cd M path uid w =
      Inr (case walk (user_entries uid (tabs st w)) 0 (split_slash (tl path)) of None \<Rightarrow> 0 | Some q \<Rightarrow> q, w') \<and>
    leaves st w w' (tabs st w)"
  using query_cd_spec [OF assms] by (simp add: resolve_dir_def)

lemma query_cd_correct_witness:
  "\<exists>w'. query_cd table_server ''/ann/docs'' 1 demo = Inr (2, w') \<and> leaves (\<lambda>s. s) demo w' demo_tables"
  using query_cd_correct [OF table_server_ok demo_ready, of "''/ann/docs''" 1] demo_tree demo_dir(1)
  by (simp add: resolve_dir_def)

text \<open>C15: \<^verbatim>\<open>query_mkdir\<close>: 0 for a path that is not the user's, 1 when the name is in use there, both
  without effect; otherwise 2, and then the new directory is the only change: changing to
  path/name in the resulting world returns its new identifier, and the user's tree is still in
  order, with the pool and the commit modes restored.\<close>

theorem mkdir_then_cd:
  assumes srv: "sql_server eq like M st" and "ready st w" and "path \<noteq> []"
    and tree: "user_tree uid (tabs st w)" and n: "name_ok n" "CHR ''/'' \<notin> set n" and "room (tabs st w)"
  shows "\<exists>w' w''. let t = tabs st w; d = resolve_dir t uid path in
    if d = 0 then query_mkdir M path n uid w = Inr (0, w') \<and> leaves st w w' t
    else if name_taken eq t d n then query_mkdir M path n uid w = Inr (1, w') \<and> leaves st w w' t
    else query_mkdir M path n uid w = Inr (2, w') \<and> leaves st w w' (with_dir uid d n t) \<and>
      user_tree uid (tabs st w') \<and>
      query_cd M (path @ CHR ''/'' # n) uid w' = Inr (t_next_file t, w'')"
proof -
  let ?t = "tabs st w" and ?d = "resolve_dir (tabs st w) uid path"
  from query_mkdir_spec [OF srv assms(2,3) tree n(1) assms(7)] obtain w' where
    run: "query_mkdir M path n uid w = Inr (if ?d = 0 then 0 else if name_taken eq ?t ?d n then 1 else 2, w')"
    and lv: "leaves st w w' (if ?d = 0 \<or> name_taken eq ?t ?d n then ?t else with_dir uid ?d n ?t)" by blast
  show ?thesis
  proof (cases "?d = 0 \<or> name_taken eq ?t ?d n")
    case True
    with run lv show ?thesis by (auto simp: Let_def)
  next
    case False
    have tok: "tables_ok ?t" using assms(2) by (simp add: ready_def)
    have refl: "\<And>s. eq s s" using srv by (simp add: sql_server_def)
    have d: "0 < ?d" "?d < t_next_file ?t" and u: "ulong ?d" "ulong uid"
      using False resolve_dir_range [OF tree, of path] resolve_below_next [OF tok, of uid path]
        dir_ulong [OF tree, of path] by auto
    have tabs': "tabs st w' = with_dir uid ?d n ?t" using lv False by (simp add: leaves_def)
    have tree': "user_tree uid (tabs st w')"
      unfolding tabs' using False by (intro user_tree_with_dir [where eq = eq, OF tree tok assms(7) _ refl d]) simp
    have "ready st w'"
      using ready_leaves [OF assms(2) lv] tables_ok_with_dir [OF tok assms(7) n(1) u(2,1)] False by simp
    from query_cd_spec [OF srv this _ tree', of "path @ CHR ''/'' # n"] obtain w'' where
      "query_cd M (path @ CHR ''/'' # n) uid w' = Inr (resolve_dir (tabs st w') uid (path @ CHR ''/'' # n), w'')"
      by auto
    moreover have "resolve_dir (tabs st w') uid (path @ CHR ''/'' # n) = t_next_file ?t"
      unfolding tabs' using False d assms(3) n
      by (intro resolve_with_dir [where eq = eq, OF tok]) (auto simp: refl)
    ultimately show ?thesis using run lv False tree' by (auto simp: Let_def)
  qed
qed

lemma mkdir_then_cd_witness:
  "\<exists>w' w''. query_mkdir table_server ''/ann/docs'' ''new'' 1 demo = Inr (2, w') \<and>
     query_cd table_server ''/ann/docs/new'' 1 w' = Inr (5, w'')"
  using mkdir_then_cd [OF table_server_ok demo_ready, of "''/ann/docs''" 1 "''new''"] demo_tree demo_dir(1)
    demo_room
  by (simp add: demo_eval Let_def) blast

text \<open>C18: \<^verbatim>\<open>query_puts\<close> on every branch. An illegal path gives -1. When the name is in use in the directory
  nothing changes, and the answer is 0 if the entry's content is another one, 1 if it is this content
  and unfinished, 2 if it is this content and complete. When the name is free it is registered: for
  stored content with this digest as a link to that file, with 1 while it is unfinished and 2 once
  it is complete; for new content with a new unfinished file, with 1. File and entry become durable
  together, and the pool and the commit modes are as they were. (The comment above the function
  differs: it checks the digest first and refuses a name in use even for the same content.)\<close>

theorem query_puts_correct:
  assumes "sql_server eq like M st" and "ready st w" and "path \<noteq> []" and "user_tree uid (tabs st w)"
    and "name_ok n" and "name_ok h" and "h \<noteq> []" and "room (tabs st w)" and "linked (tabs st w)"
  shows "\<exists>r w' t'. query_puts M path n h uid w = Inr (r, w') \<and>
    puts_post eq (tabs st w) uid (resolve_dir (tabs st w) uid path) n h r t' \<and> leaves st w w' t'"
  by (rule query_puts_spec [OF assms])

lemma query_puts_correct_witness:
  "(\<exists>w'. query_puts table_server ''/ann/docs'' ''c'' ''h3'' 1 demo = Inr (2, w') \<and>
      leaves (\<lambda>s. s) demo w' (with_link 1 2 ''c'' 3 demo_tables)) \<and>
   (\<exists>w'. query_puts table_server ''/ann/docs'' ''a'' ''zz'' 1 demo = Inr (0, w') \<and>
      leaves (\<lambda>s. s) demo w' demo_tables)"
proof
  have h: "name_ok ''h3''" "name_ok ''c''" "name_ok ''a''" "name_ok ''zz''" by (simp_all add: demo_eval)
  show "\<exists>w'. query_puts table_server ''/ann/docs'' ''c'' ''h3'' 1 demo = Inr (2, w') \<and>
      leaves (\<lambda>s. s) demo w' (with_link 1 2 ''c'' 3 demo_tables)"
    using query_puts_correct [OF table_server_ok demo_ready _ _ h(2) h(1), of "''/ann/docs''" 1]
      demo_tree demo_room demo_linked demo_dir
    by (auto simp: puts_post_def name_taken_def has_hash_def demo_tables_def new_file_def new_entry_def
        at_parent_def)
  show "\<exists>w'. query_puts table_server ''/ann/docs'' ''a'' ''zz'' 1 demo = Inr (0, w') \<and>
      leaves (\<lambda>s. s) demo w' demo_tables"
    using query_puts_correct [OF table_server_ok demo_ready _ _ h(3) h(4), of "''/ann/docs''" 1]
      demo_tree demo_room demo_linked demo_dir
    by (auto simp: puts_post_def name_taken_def has_hash_def demo_tables_def new_file_def new_entry_def
        at_parent_def)
qed

text \<open>C20: \<^verbatim>\<open>query_gets\<close> hands out a digest only for a complete regular file that the user has under this
  name in the directory the path leads to, and answers 0 otherwise; the world is unchanged.\<close>

theorem query_gets_correct:
  assumes "sql_server eq like M st" and "ready st w" and "path \<noteq> []" and "user_tree uid (tabs st w)"
    and "name_ok n"
  shows "\<exists>r h w'. query_gets M path n uid w = Inr (r, h, w') \<and> leaves st w w' (tabs st w) \<and>
    gets_post eq (tabs st w) uid (resolve_dir (tabs st w) uid path) n r h"
  using query_gets_spec [OF assms] by blast

lemma query_gets_correct_witness:
  "(\<exists>w'. query_gets table_server ''/ann/docs'' ''a'' 1 demo = Inr (1, ''h3'', w')) \<and>
   (\<exists>w'. query_gets table_server ''/ann/docs'' ''b'' 1 demo = Inr (0, [], w'))"
proof
  have n: "name_ok ''a''" "name_ok ''b''" by (simp_all add: demo_eval)
  show "\<exists>w'. query_gets table_server ''/ann/docs'' ''a'' 1 demo = Inr (1, ''h3'', w')"
    using query_gets_correct [OF table_server_ok demo_ready _ _ n(1), of "''/ann/docs''" 1] demo_tree demo_dir
    by (auto simp: demo_gets)
  show "\<exists>w'. query_gets table_server ''/ann/docs'' ''b'' 1 demo = Inr (0, [], w')"
    using query_gets_correct [OF table_server_ok demo_ready _ _ n(2), of "''/ann/docs''" 1] demo_tree demo_dir
    by (auto simp: demo_gets)
qed

text \<open>C19: \<^verbatim>\<open>query_remove\<close>: 1 when the directory holds no match, 2 for a directory that still has
  children, both without effect; otherwise 0, and every entry of this user for the matched file
  is gone, in whatever directory it was, while all other entries stay. An illegal path gives 0
  as well, with nothing removed.\<close>

theorem query_remove_correct:
  assumes "sql_server eq like M st" and "ready st w" and "path \<noteq> []" and "user_tree uid (tabs st w)"
    and "name_ok n" and "linked (tabs st w)"
  shows "\<exists>r w' t'. query_remove M path n uid w = Inr (r, w') \<and> leaves st w w' t' \<and>
    remove_post like (tabs st w) uid (resolve_dir (tabs st w) uid path) n r t'"
  using query_remove_spec [OF assms] by blast

lemma query_remove_correct_witness:
  "(\<exists>w'. query_remove table_server ''/ann/docs'' ''a'' 1 demo = Inr (0, w') \<and>
      leaves (\<lambda>s. s) demo w' (without 3 1 demo_tables)) \<and>
   (\<exists>w'. query_remove table_server ''/ann/x'' ''a'' 1 demo = Inr (0, w') \<and>
      leaves (\<lambda>s. s) demo w' demo_tables)"
proof
  have n: "name_ok ''a''" by (simp add: demo_eval)
  note q = query_remove_correct [OF table_server_ok demo_ready _ _ n, of _ 1]
  show "\<exists>w'. query_remove table_server ''/ann/docs'' ''a'' 1 demo = Inr (0, w') \<and>
      leaves (\<lambda>s. s) demo w' (without 3 1 demo_tables)"
    using q [of "''/ann/docs''"] demo_tree demo_dir demo_linked
    by (auto simp: demo_remove)
  show "\<exists>w'. query_remove table_server ''/ann/x'' ''a'' 1 demo = Inr (0, w') \<and>
      leaves (\<lambda>s. s) demo w' demo_tables"
    using q [of "''/ann/x''"] demo_tree demo_dir demo_linked by (auto simp: remove_post_def)
qed

text \<open>C21: registering a free account name returns the new user's identifier and adds the user with the
  encrypted password, a directory and its root entry in one transaction: the tables with all three
  are the only state that becomes durable. The user's tree is in order, and changing to the
  directory named like the account then succeeds, with the new directory's identifier.\<close>

theorem register_new_account:
  assumes srv: "sql_server eq like M st" and "ready st w" and "name_ok n" and "length n < 30"
    and "CHR ''/'' \<notin> set n" and "plain (encrypt pw)" and "length (encrypt pw) < 62" and "room (tabs st w)"
    and "\<not> account_taken eq (tabs st w) n" and "user_entries (t_next_user (tabs st w)) (tabs st w) = []"
  shows "\<exists>w'. user_register M encrypt n pw w = Inr (t_next_user (tabs st w), w') \<and>
    leaves st w w' (with_account n (encrypt pw) (tabs st w)) \<and>
    durable st w' = with_account n (encrypt pw) (tabs st w) # durable st w \<and>
    user_tree (t_next_user (tabs st w)) (tabs st w') \<and>
    (\<exists>w''. query_cd M (CHR ''/'' # n) (t_next_user (tabs st w)) w' = Inr (t_next_file (tabs st w), w''))"
proof -
  let ?t = "tabs st w" and ?i = "t_next_user (tabs st w)"
  have tok: "tables_ok ?t" and man: "manual st w = (\<lambda>c. False)" using assms(2) by (simp_all add: ready_def)
  from user_register_spec [where encrypt = encrypt, OF srv assms(2,3,4,6,7,8)] assms(9) obtain w' where
    run: "user_register M encrypt n pw w = Inr (?i, w')" and lv: "leaves st w w' (with_account n (encrypt pw) ?t)"
    using man by (auto simp: leaves_def)
  have "user_entries ?i (with_account n (encrypt pw) ?t) =
      [new_entry (t_next_entry ?t) n ?i (t_next_file ?t) 0]"
    using assms(10) by (simp add: user_entries_def with_account_def add_entry_def add_file_def new_entry_def)
  moreover have "0 < t_next_file ?t" "t_next_file ?t < 2 ^ 31" "ulong ?i"
    using tok assms(8) by (auto simp: tables_ok_def room_def ulong_def)
  ultimately have tree: "user_tree ?i (with_account n (encrypt pw) ?t)"
    and dir: "resolve_dir (with_account n (encrypt pw) ?t) ?i (CHR ''/'' # n) = t_next_file ?t"
    using split_on_no_sep [OF assms(5)]
    by (simp_all add: user_tree_def entries_ok_def rooted_def new_entry_def resolve_dir_def child_def)
  have "ready st w'"
    using ready_leaves [OF assms(2) lv tables_ok_with_account [OF tok assms(8,3,4)]] assms(7) by simp
  from query_cd_spec [OF srv this, of "CHR ''/'' # n" ?i] tree dir lv obtain w'' where
    "query_cd M (CHR ''/'' # n) ?i w' = Inr (t_next_file ?t, w'')" by (auto simp: leaves_def)
  with run lv tree show ?thesis by (auto simp: leaves_def)
qed

lemma register_new_account_witness:
  "\<exists>w' w''. user_register table_server (\<lambda>p. ''hash'') ''bob'' ''pw'' demo = Inr (2, w') \<and>
     length (durable (\<lambda>s. s) w') = 2 \<and> query_cd table_server ''/bob'' 2 w' = Inr (5, w'')"
proof -
  have "durable (\<lambda>s. s) demo = [demo_tables]" by (simp add: durable_def demo_def)
  then show ?thesis
    using register_new_account [OF table_server_ok demo_ready, of "''bob''" "\<lambda>p. ''hash''" "''pw''"]
    by (auto simp: demo_eval room_def account_taken_def user_entries_def)
qed

text \<open>Registering a name that is taken changes no table and returns 0, but the connection goes back to
  the pool in manual-commit mode: the early return skips the \<^verbatim>\<open>mysql_autocommit(connect,1)\<close> that
  the other path has.\<close>

theorem register_taken_stays_manual:
  assumes "sql_server eq like M st" and "ready st w" and "name_ok n" and "length n < 30"
    and "plain (encrypt pw)" and "length (encrypt pw) < 62" and "room (tabs st w)"
    and "account_taken eq (tabs st w) n"
  shows "\<exists>w' c. user_register M encrypt n pw w = Inr (0, w') \<and> tabs st w' = tabs st w \<and>
    w_pool w' = w_pool w \<and> manual st w' c"
  using user_register_spec [where encrypt = encrypt, OF assms(1-7)] assms(8) by (auto simp: fun_eq_iff)

lemma register_taken_stays_manual_witness:
  "\<exists>w' c. user_register table_server (\<lambda>p. ''hash'') ''ann'' ''pw'' demo = Inr (0, w') \<and>
     manual (\<lambda>s. s) w' c"
  using register_taken_stays_manual [OF table_server_ok demo_ready, of "''ann''" "\<lambda>p. ''hash''" "''pw''"]
  by (auto simp: demo_eval room_def account_taken_def)

end
