(* ===== verification/HandlerProps.thy ===== *)
theory HandlerProps
  imports Handlers DirectoryProps
begin

text \<open>
  Properties of the handlers of \<open>Handlers\<close> as a client sees them: which message it gets, what
  its token says afterwards, and what has happened to the tables.
\<close>

subsection \<open>Paths below the work path\<close>

lemma normalise_clean_list: "\<forall>c\<in>set cs. clean_comp c \<Longrightarrow> normalise cs = cs"
  using foldl_norm_id [of cs "[]"] by (simp add: normalise_def)

lemma split_render:
  assumes "cs \<noteq> []" and "list_all clean_comp cs"
  shows "split_slash (tl (render_path cs)) = cs"
proof -
  from assms(1) obtain c ds where cs: "cs = c # ds" by (cases cs) auto
  with assms(2) have "c \<noteq> []" "CHR ''/'' \<notin> set c" "\<forall>d\<in>set ds. clean_comp d"
    by (auto simp: clean_comp_def list_all_iff)
  from split_render_tail [OF this] show ?thesis by (simp add: cs render_path_def)
qed

text \<open>A work path the server has put into a token, and a name typed relative to it.\<close>

definition work_dir :: "token_info \<Rightarrow> string list \<Rightarrow> bool" where
  "work_dir tok cs \<longleftrightarrow> tk_workpath tok = render_path cs \<and> cs \<noteq> [] \<and> list_all clean_comp cs \<and>
     cstr_ok (render_path cs)"

definition child_name :: "token_info \<Rightarrow> string \<Rightarrow> bool" where
  "child_name tok n \<longleftrightarrow> name_ok n \<and> clean_comp n \<and> length (tk_workpath tok) + length n < 1023"

lemma render_ne: "cs \<noteq> [] \<Longrightarrow> render_path cs \<noteq> []"
  by (cases cs) (simp_all add: render_path_def)

lemma get_user_path_child:
  assumes wd: "work_dir tok cs" and n: "child_name tok n"
  shows "get_user_path n tok = Inr (render_path (cs @ [n]))"
proof -
  have cs: "cs \<noteq> []" "list_all clean_comp cs" and wp: "tk_workpath tok = render_path cs"
    using wd by (simp_all add: work_dir_def)
  have nn: "n \<noteq> []" "CHR ''/'' \<notin> set n" "cstr_ok n" "clean_comp n"
    using n by (auto simp: child_name_def clean_comp_def name_ok_def plain_def)
  then have "n ! 0 \<noteq> CHR ''/''" by (cases n) auto
  then have res: "resolve n (tk_workpath tok) = render_path cs @ CHR ''/'' # n"
    by (simp add: resolve_def wp)
  have "tl (render_path cs @ CHR ''/'' # n) = tl (render_path cs) @ CHR ''/'' # n"
    using render_ne [OF cs(1)] by simp
  then have "split_slash (tl (resolve n (tk_workpath tok))) = cs @ [n]"
    using split_render [OF cs] split_on_no_sep [OF nn(2)] by (simp add: res split_on_append)
  then have "path_spec (resolve n (tk_workpath tok)) = render_path (cs @ [n])"
    using cs nn normalise_clean_list [of "cs @ [n]"] by (simp add: path_spec_def list_all_iff)
  moreover have "length (resolve n (tk_workpath tok)) < PATH_CAP"
    unfolding res using n wp by (simp add: child_name_def)
  ultimately show ?thesis
    using get_user_path_spec [OF nn(1,3)] wd render_ne [OF cs(1)] by (simp add: work_dir_def)
qed

lemma get_file_name_child: "child_name tok n \<Longrightarrow> get_file_name n = Inr n"
  using get_file_name_base [of n] split_on_no_sep [of "CHR ''/''" n]
  by (simp add: child_name_def clean_comp_def base_name_def name_ok_def)

text \<open>What the commands \<^verbatim>\<open>mkdir n\<close> and \<^verbatim>\<open>cd n\<close> look up.\<close>

lemma child_paths:
  assumes "work_dir tok cs" and "child_name tok n"
  shows "cut_last (render_path (cs @ [n])) = render_path cs"
    and "render_path (cs @ [n]) = render_path cs @ CHR ''/'' # n"
    and "render_path cs \<noteq> []" and "CHR ''/'' \<notin> set n" and "name_ok n"
    and "length (render_path (cs @ [n])) < 1024"
  using assms cut_last_render [of cs n] render_snoc [of cs n] render_ne [of cs]
  by (auto simp: work_dir_def child_name_def clean_comp_def)

subsection \<open>Listing a directory\<close>

lemma query_ls_spec:
  assumes srv: "sql_server eq like M st" and rdy: "ready st w" and path: "path \<noteq> []"
    and tree: "user_tree uid (tabs st w)"
  defines "t \<equiv> tabs st w" and "d \<equiv> resolve_dir (tabs st w) uid path"
  shows "\<exists>w' res. query_ls M path uid w = Inr (res, w') \<and> leaves st w w' t \<and>
    (if d = 0 then res = None
     else \<exists>ys. res = Some ys \<and> sorted (map uf_file_id ys) \<and>
       mset ys = mset (filter (\<lambda>e. uf_file_id e \<in> complete_ids t \<and> at_parent d e) (t_entries t)))"
proof -
  from enter_dir [OF srv rdy path tree, folded d_def, folded t_def] obtain w' c v where
    cd: "query_cd M path uid w = Inr (d, w')" "leaves st w w' t" and "connect_unchecked w' = Inr (c, v)"
    and con: "connect w' = Inr (Some c, v)"
    and ins: "inside st w c v" and v: "tabs st v = t" "modes st v = modes st w" .
  have d: "0 \<le> d" "ulong d" and tok: "tables_ok t" and none: "manual st w = (\<lambda>c. False)"
    using resolve_dir_range [OF tree] dir_ulong [OF tree, of path] rdy by (simp_all add: d_def ready_def t_def)
  let ?q = "ListDir d"
  have ok: "stmt_ok ?q" using d by (intro stmt_okI) (simp_all add: arg_ok_def arg_len_def)
  obtain rows where a: "answers eq like ?q t rows"
    and f: "fetch M c convert_to_userfile (send_stmt M c ?q v) = get_result_set (Some rows) convert_to_userfile"
    and l: "tabs st (send_stmt M c ?q v) = t" "modes st (send_stmt M c ?q v) = modes st w"
    using select_rows [OF srv ok, of v c convert_to_userfile] v none by auto
  then obtain ys where ys: "mset ys = mset (filter (\<lambda>e. uf_file_id e \<in> complete_ids t \<and> at_parent d e) (t_entries t))"
    "sorted (map uf_file_id ys)" "rows = map row_of_userfile ys" by (auto simp: order_by_def)
  have "set ys \<subseteq> set (t_entries t)" using set_mset_filter [OF ys(1)] by auto
  then have "get_result_set (Some rows) convert_to_userfile = Inr ys"
    using tables_entries_ok [OF tok] by (simp add: ys(3) get_userfiles)
  with cd con f d(1) ins l ys show ?thesis
    by (cases "d = 0") (auto simp: query_ls_def inside_def leaves_def simp flip: t_def)
qed

lemma send_all_ok:
  "list_all (\<lambda>s. length s \<le> 1024) ss \<Longrightarrow>
   \<exists>ms. send_all gen ss tok = Inr ms \<and> map tr_data ms = ss \<and> list_all tr_flag ms"
  by (induction ss) (auto simp: send_message_def)

subsection \<open>Properties\<close>

text \<open>Making a directory and entering it: when the client's work directory exists and holds no entry of
  the name, \<^verbatim>\<open>mkdir n\<close> is answered with the creation notice, and \<^verbatim>\<open>cd n\<close> afterwards with the change
  notice and a token whose work path is the old one extended by n.\<close>

theorem mkdir_cd_session:
  assumes srv: "sql_server eq like M st" and "ready st w" and wd: "work_dir tok cs" and n: "child_name tok n"
    and tree: "user_tree (tk_user_id tok) (tabs st w)" and "room (tabs st w)"
    and d: "resolve_dir (tabs st w) (tk_user_id tok) (tk_workpath tok) \<noteq> 0"
    and free: "\<not> name_taken eq (tabs st w) (resolve_dir (tabs st w) (tk_user_id tok) (tk_workpath tok)) n"
  shows "\<exists>w' w''. add_dir M gen n tok w = Inr (answer gen CreateDone False 0 tok w') \<and>
    change_dir M gen n tok w' =
      Inr (answer gen ChangeDone False 0 (tok\<lparr>tk_workpath := render_path (cs @ [n])\<rparr>) w'')"
proof -
  let ?t = "tabs st w" and ?uid = "tk_user_id tok" and ?p = "render_path cs"
  note paths = child_paths [OF wd n]
  have wp: "tk_workpath tok = ?p" using wd by (simp add: work_dir_def)
  let ?d = "resolve_dir ?t ?uid ?p"
  have tok: "tables_ok ?t" and refl: "\<And>s. eq s s" using assms(2) srv by (simp_all add: ready_def sql_server_def)
  have dpos: "0 < ?d" "?d < t_next_file ?t" and u: "ulong ?d" "ulong ?uid"
    using d wp resolve_dir_range [OF tree, of ?p] resolve_below_next [OF tok, of ?uid ?p]
      dir_ulong [OF tree, of ?p] by auto
  from query_mkdir_spec [OF srv assms(2) paths(3) tree paths(5) assms(6)] obtain w' where
    run: "query_mkdir M ?p n ?uid w = Inr (2, w')" and lv: "leaves st w w' (with_dir ?uid ?d n ?t)"
    using d free wp by auto
  have tabs': "tabs st w' = with_dir ?uid ?d n ?t" using lv by (simp add: leaves_def)
  have tree': "user_tree ?uid (tabs st w')"
    unfolding tabs' using free wp
    by (intro user_tree_with_dir [where eq = eq, OF tree tok assms(6) _ refl dpos]) simp
  have rdy': "ready st w'"
    using ready_leaves [OF assms(2) lv tables_ok_with_dir [OF tok assms(6) paths(5) u(2,1)]] .
  have "resolve_dir (tabs st w') ?uid (?p @ CHR ''/'' # n) = t_next_file ?t"
    unfolding tabs' using free wp dpos paths
    by (intro resolve_with_dir [where eq = eq, OF tok]) (auto simp: refl)
  moreover have "0 < t_next_file ?t" using dpos by simp
  ultimately obtain w'' where
    "query_cd M (render_path (cs @ [n])) ?uid w' = Inr (t_next_file ?t, w'')" "0 < t_next_file ?t"
    using query_cd_spec [OF srv rdy' _ tree', of "?p @ CHR ''/'' # n"] paths(2) by auto
  then have "change_dir M gen n tok w' =
      Inr (answer gen ChangeDone False 0 (tok\<lparr>tk_workpath := render_path (cs @ [n])\<rparr>) w'')"
    using get_user_path_child [OF wd n] paths(6) by (simp add: change_dir_def strcpyR_def)
  moreover have "add_dir M gen n tok w = Inr (answer gen CreateDone False 0 tok w')"
    using run get_user_path_child [OF wd n] get_file_name_child [OF n] paths(1) by (simp add: add_dir_def)
  ultimately show ?thesis by blast
qed

lemma mkdir_cd_session_witness:
  "\<exists>w' w''. add_dir table_server (\<lambda>t. None) ''new'' \<lparr>tk_user_id = 1, tk_workpath = ''/ann/docs''\<rparr> demo =
      Inr (answer (\<lambda>t. None) CreateDone False 0 \<lparr>tk_user_id = 1, tk_workpath = ''/ann/docs''\<rparr> w') \<and>
    change_dir table_server (\<lambda>t. None) ''new'' \<lparr>tk_user_id = 1, tk_workpath = ''/ann/docs''\<rparr> w' =
      Inr (answer (\<lambda>t. None) ChangeDone False 0 \<lparr>tk_user_id = 1, tk_workpath = ''/ann/docs/new''\<rparr> w'')"
  using mkdir_cd_session [OF table_server_ok demo_ready, of "\<lparr>tk_user_id = 1, tk_workpath = ''/ann/docs''\<rparr>"
      "[''ann'', ''docs'']" "''new''" "\<lambda>t. None"] demo_tree demo_room demo_dir(1)
  by (simp add: work_dir_def child_name_def clean_comp_def render_path_def demo_eval)

text \<open>A directory listing: for a directory that exists the client receives one message per complete file
  or directory in it, each entry's name once and in the order of file identifiers, then the
  closing notice; the token and the tables are unchanged.\<close>

theorem show_dir_lists:
  assumes srv: "sql_server eq like M st" and "ready st w" and "get_user_path argument tok = Inr path"
    and "path \<noteq> []" and "user_tree (tk_user_id tok) (tabs st w)"
    and d: "resolve_dir (tabs st w) (tk_user_id tok) path \<noteq> 0"
  shows "\<exists>ys ms w'. show_dir M gen argument tok w =
      Inr \<lparr>oc_sent = ms @ [notice_msg gen ListingDone False tok], oc_ret = 0, oc_token = tok, oc_world = w'\<rparr> \<and>
    map tr_data ms = map uf_name ys \<and> list_all tr_flag ms \<and> sorted (map uf_file_id ys) \<and>
    mset ys = mset (filter (\<lambda>e. uf_file_id e \<in> complete_ids (tabs st w) \<and>
      at_parent (resolve_dir (tabs st w) (tk_user_id tok) path) e) (t_entries (tabs st w))) \<and>
    leaves st w w' (tabs st w)"
proof -
  from query_ls_spec [OF srv assms(2,4,5)] d obtain w' ys where
    ls: "query_ls M path (tk_user_id tok) w = Inr (Some ys, w')" "leaves st w w' (tabs st w)"
      "sorted (map uf_file_id ys)"
      "mset ys = mset (filter (\<lambda>e. uf_file_id e \<in> complete_ids (tabs st w) \<and>
        at_parent (resolve_dir (tabs st w) (tk_user_id tok) path) e) (t_entries (tabs st w)))" by auto
  have "set ys \<subseteq> set (t_entries (tabs st w))" using set_mset_filter [OF ls(4)] by auto
  then have "\<forall>e\<in>set ys. userfile_ok e" using tables_entries_ok [of "tabs st w" ys] assms(2) by (simp add: ready_def)
  then have "list_all (\<lambda>s. length s \<le> 1024) (map uf_name ys)"
    by (auto simp: list_all_iff userfile_ok_def)
  from send_all_ok [OF this, of gen tok] ls assms(3) show ?thesis
    by (auto simp: show_dir_def)
qed

lemma show_dir_lists_witness:
  "\<exists>ys ms w'. show_dir table_server (\<lambda>t. None) ''docs'' \<lparr>tk_user_id = 1, tk_workpath = ''/ann''\<rparr> demo =
      Inr \<lparr>oc_sent = ms @ [notice_msg (\<lambda>t. None) ListingDone False \<lparr>tk_user_id = 1, tk_workpath = ''/ann''\<rparr>],
           oc_ret = 0, oc_token = \<lparr>tk_user_id = 1, tk_workpath = ''/ann''\<rparr>, oc_world = w'\<rparr> \<and>
    map tr_data ms = map uf_name ys \<and> mset ys = {#new_entry 3 ''a'' 1 3 2#}"
proof -
  let ?tok = "\<lparr>tk_user_id = 1, tk_workpath = ''/ann''\<rparr>"
  have "get_user_path ''docs'' ?tok = Inr ''/ann/docs''"
    using get_user_path_child [of ?tok "[''ann'']" "''docs''"]
    by (simp add: work_dir_def child_name_def clean_comp_def render_path_def demo_eval)
  moreover have "filter (\<lambda>e. uf_file_id e \<in> complete_ids demo_tables \<and> at_parent 2 e) (t_entries demo_tables)
    = [new_entry 3 ''a'' 1 3 2]"
  proof -
    have "complete_ids demo_tables = set (map f_id (filter f_complete (t_files demo_tables)))"
      by (auto simp: complete_ids_def)
    also have "map f_id (filter f_complete (t_files demo_tables)) = [1, 2, 3]"
      by (simp add: demo_tables_def new_file_def)
    finally have "complete_ids demo_tables = {1, 2, 3}" by simp
    then show ?thesis by (simp add: demo_tables_def new_entry_def at_parent_def)
  qed
  ultimately show ?thesis
    using show_dir_lists [OF table_server_ok demo_ready, of "''docs''" ?tok "''/ann/docs''" "\<lambda>t. None"]
      demo_tree demo_dir(1) by auto
qed

text \<open>A listing of a path that does not exist ends the server: \<^verbatim>\<open>show_dir\<close> reads through the null result
  set before it tests it.\<close>

theorem show_dir_null:
  assumes "sql_server eq like M st" and "ready st w" and "get_user_path argument tok = Inr path"
    and "path \<noteq> []" and "user_tree (tk_user_id tok) (tabs st w)"
    and "resolve_dir (tabs st w) (tk_user_id tok) path = 0"
  shows "show_dir M gen argument tok w = Inl NullDeref"
  using query_ls_spec [OF assms(1,2,4,5)] assms(3,6) by (auto simp: show_dir_def)

lemma show_dir_null_witness:
  "show_dir table_server (\<lambda>t. None) ''x'' \<lparr>tk_user_id = 1, tk_workpath = ''/ann''\<rparr> demo = Inl NullDeref"
proof -
  let ?tok = "\<lparr>tk_user_id = 1, tk_workpath = ''/ann''\<rparr>"
  have "get_user_path ''x'' ?tok = Inr ''/ann/x''"
    using get_user_path_child [of ?tok "[''ann'']" "''x''"]
    by (simp add: work_dir_def child_name_def clean_comp_def render_path_def demo_eval)
  from show_dir_null [OF table_server_ok demo_ready this] demo_tree demo_dir(2) show ?thesis by simp
qed

text \<open>Removing something under a path that does not exist is answered with the notice of a successful
  deletion, although nothing was deleted.\<close>

theorem remove_illegal_path_reported_done:
  assumes "sql_server eq like M st" and "ready st w" and "get_user_path argument tok = Inr path"
    and "cut_last path \<noteq> []" and "user_tree (tk_user_id tok) (tabs st w)" and "get_file_name argument = Inr n"
    and "resolve_dir (tabs st w) (tk_user_id tok) (cut_last path) = 0" and "length cwd < 1000"
  shows "\<exists>w'. remove_file M gen cwd argument tok w = Inr (answer gen DeleteDone False 0 tok w') \<and>
    tabs st w' = tabs st w"
  using query_cd_spec [OF assms(1,2,4,5)] assms(3,6-8)
  by (auto simp: remove_file_def query_remove_def leaves_def)

lemma remove_illegal_path_reported_done_witness:
  "\<exists>w'. remove_file table_server (\<lambda>t. None) ''/srv'' ''x/f'' \<lparr>tk_user_id = 1, tk_workpath = ''/ann''\<rparr> demo =
     Inr (answer (\<lambda>t. None) DeleteDone False 0 \<lparr>tk_user_id = 1, tk_workpath = ''/ann''\<rparr> w') \<and>
     tabs (\<lambda>s. s) w' = demo_tables"
proof -
  let ?tok = "\<lparr>tk_user_id = 1, tk_workpath = ''/ann''\<rparr>"
  have "get_user_path ''x/f'' ?tok = Inr ''/ann/x/f''"
    using get_user_path_spec [of "''x/f''" ?tok]
    by (simp add: resolve_def cstr_ok_def path_spec_def normalise_def norm_comp_def render_path_def)
  moreover have "cut_last ''/ann/x/f'' = ''/ann/x''"
    using cut_last_append [of "''/ann/x''" "''f''"] by simp
  moreover have "get_file_name ''x/f'' = Inr ''f''"
    using get_file_name_base [of "''x/f''"] by (simp add: base_name_def)
  ultimately show ?thesis
    using remove_illegal_path_reported_done [OF table_server_ok demo_ready, of "''x/f''" ?tok]
      demo_tree demo_dir(2) by simp
qed

end
