(* ===== verification/TransferProps.thy ===== *)
theory TransferProps
  imports FileTransfer HandlerProps
begin

text \<open>
  Properties of the file transfer, end to end over the handlers, the tables and the data directory:
  what a finished, a short and an interrupted upload leave behind, and what a download returns.
\<close>

subsection \<open>\<^verbatim>\<open>query_update\<close>\<close>

definition completed :: "(string \<Rightarrow> string \<Rightarrow> bool) \<Rightarrow> string \<Rightarrow> tables \<Rightarrow> tables" where
  "completed eq h t = t\<lparr>t_files := map (\<lambda>f. if has_hash eq h f then f\<lparr>f_complete := True\<rparr> else f) (t_files t)\<rparr>"

lemma query_update_spec:
  assumes srv: "sql_server eq like M st" and rdy: "ready st w" and h: "name_ok h" "h \<noteq> []"
  shows "\<exists>w'. query_update M h w = Inr (0, w') \<and> leaves st w w' (completed eq h (tabs st w))"
proof -
  have none: "manual st w = (\<lambda>c. False)" and "pool_ok (w_pool w)" "0 < dp_available (w_pool w)"
    using rdy by (simp_all add: ready_def)
  from connect_ready [OF this(2,3)] obtain c p where
    con: "connect w = Inr (Some c, w\<lparr>w_pool := p\<rparr>)" and rel: "release_connection c p = w_pool w" by metis
  have "stmt_ok (MarkComplete h)" using h by (intro stmt_okI) (simp_all add: arg_ok_def arg_len_def name_ok_def)
  from update_ok(1-3) [OF srv this, of "w\<lparr>w_pool := p\<rparr>" c] none h con rel
  show ?thesis by (simp add: query_update_def leaves_def completed_def)
qed

text \<open>
  After a registration that was refused, the connection it used commits by hand and nobody commits:
  the completion mark that the next request sets over it is seen but not durable.
\<close>

theorem refused_registration_loses_update:
  assumes srv: "sql_server eq like M st" and rdy: "ready st w" and n: "name_ok n" "length n < 30"
    and p: "plain (encrypt pw)" "length (encrypt pw) < 62" and rm: "room (tabs st w)"
    and taken: "account_taken eq (tabs st w) n" and h: "name_ok h" "h \<noteq> []"
  shows "\<exists>w1 w2. user_register M encrypt n pw w = Inr (0, w1) \<and> query_update M h w1 = Inr (0, w2) \<and>
    tabs st w2 = completed eq h (tabs st w) \<and> durable st w2 = durable st w \<and> w_pool w2 = w_pool w"
proof -
  from user_register_spec [where encrypt = encrypt, OF srv rdy n p rm] taken obtain w1 c q where
    w1: "user_register M encrypt n pw w = Inr (0, w1)" "w_pool w1 = w_pool w" "tabs st w1 = tabs st w"
      "durable st w1 = durable st w"
    and c: "connect w = Inr (Some c, w\<lparr>w_pool := q\<rparr>)" "manual st w1 = (\<lambda>c'. c' = c)" by auto
  have g: "get_connection (w_pool w) = Inr (Some c, q)"
    using c(1) by (auto simp: connect_def bindR_eq_Inr dest!: arg_cong [of _ _ w_pool])
  have rel: "release_connection c q = w_pool w" using db.bracket [OF _ g] rdy by (simp add: ready_def)
  have con: "connect w1 = Inr (Some c, w1\<lparr>w_pool := q\<rparr>)" by (simp add: connect_def g w1(2))
  have "stmt_ok (MarkComplete h)" using h by (intro stmt_okI) (simp_all add: arg_ok_def arg_len_def name_ok_def)
  from update_ok(1-3) [OF srv this, of "w1\<lparr>w_pool := q\<rparr>" c] c(2) w1 h con rel
  show ?thesis by (auto simp: query_update_def completed_def)
qed

lemma refused_registration_loses_update_witness:
  "\<exists>w1 w2. user_register table_server (\<lambda>p. ''hash'') ''ann'' ''pw'' demo = Inr (0, w1) \<and>
     query_update table_server ''h4'' w1 = Inr (0, w2) \<and> durable (\<lambda>s. s) w2 = [demo_tables] \<and>
     tabs (\<lambda>s. s) w2 = completed (=) ''h4'' demo_tables"
proof -
  have "durable (\<lambda>s. s) demo = [demo_tables]" by (simp add: durable_def demo_def)
  then show ?thesis
    using refused_registration_loses_update [OF table_server_ok demo_ready, of "''ann''" "\<lambda>p. ''hash''" "''pw''" "''h4''"]
    by (auto simp: demo_eval room_def account_taken_def)
qed

subsection \<open>The tables after a new file's registration\<close>

lemma user_entries_with_file:
  "user_entries uid (with_file uid d n h t) = user_entries uid (with_dir uid d n t)"
  by (simp add: user_entries_def with_file_def with_link_def with_dir_def add_entry_def add_file_def)

lemma user_entries_completed [simp]: "user_entries uid (completed eq h t) = user_entries uid t"
  by (simp add: user_entries_def completed_def)

lemma resolve_entries: "user_entries uid t' = user_entries uid t \<Longrightarrow> resolve_dir t' uid p = resolve_dir t uid p"
  by (simp add: resolve_dir_def)

lemma resolve_with_file:
  assumes "d = resolve_dir t uid path" and "d \<noteq> 0"
  shows "resolve_dir (with_file uid d n h t) uid path = d"
proof -
  have "walk (user_entries uid t) 0 (split_slash (tl path)) = Some d"
    using assms by (auto simp: resolve_dir_def split: option.splits)
  from walk_snoc [OF this] show ?thesis
    by (simp add: resolve_dir_def user_entries_with_file user_entries_with_dir)
qed

lemma tables_ok_with_file:
  assumes "tables_ok t" and "room t" and "name_ok n" and "name_ok h"
    and "ulong uid" and "ulong d"
  shows "tables_ok (with_file uid d n h t)"
  using assms
  by (auto simp: tables_ok_def with_file_def with_link_def add_entry_def add_file_def new_file_def new_entry_def
      file_ok_def userfile_ok_def name_ok_def room_def ulong_def list_all_iff)

lemma tables_ok_completed: "tables_ok t \<Longrightarrow> tables_ok (completed eq h t)"
  by (auto simp: tables_ok_def completed_def list_all_iff file_ok_def)

lemma user_tree_with_file:
  assumes "user_tree uid t" and "tables_ok t" and "room t"
    and "\<not> name_taken eq t d n" "\<And>s. eq s s" and "0 < d" "d < t_next_file t"
  shows "user_tree uid (with_file uid d n h t)"
  using user_tree_with_dir [OF assms] by (simp add: user_tree_def user_entries_with_file)

lemma linked_with_file: "linked t \<Longrightarrow> linked (with_file uid d n h t)"
  by (auto simp: linked_def with_file_def with_link_def add_entry_def add_file_def new_file_def new_entry_def)

subsection \<open>An upload the server accepts\<close>

text \<open>The parts of a request \<^verbatim>\<open>puts\<close>: its arguments, the name and digest, where the content goes.\<close>

definition upload_request :: "string \<Rightarrow> string \<Rightarrow> token_info \<Rightarrow> string \<Rightarrow> string \<Rightarrow> string \<Rightarrow> string \<Rightarrow> bool" where
  "upload_request cwd argument tok path n h p \<longleftrightarrow>
     (\<exists>a1 a2. split2 argument = Inr (a1, a2) \<and> get_file_name a1 = Inr n \<and> get_user_path a2 tok = Inr path) \<and>
     path \<noteq> [] \<and> name_ok n \<and> name_ok h \<and> h \<noteq> [] \<and> data_path cwd h = Inr p"

lemma recv_file_accepts:
  assumes rq: "upload_request cwd argument tok path n h p"
    and puts: "query_puts M path n h (tk_user_id tok) w = Inr (1, w1)"
    and op: "open_error p = None" and tr: "tr_data train = h" "tr_length train = int len"
    and rc: "receive page (case files p of None \<Rightarrow> [] | Some c \<Rightarrow> c) len bufs = (off0, c, off)"
    and upd: "query_update M h w1 = Inr (r, w2)"
  shows "recv_file M gen open_error page cwd argument tok train bufs files w =
    Inr \<lparr>tf_sent = [train\<lparr>tr_flag := True, tr_length := c_int (int off0)\<rparr>, empty_message], tf_bytes = [],
         tf_ret = 0, tf_closed = True, tf_files = files(p \<mapsto> c), tf_world = (if off = len then w2 else w1)\<rparr>"
proof -
  from rq obtain a1 a2 where "split2 argument = Inr (a1, a2)" "get_file_name a1 = Inr n"
    "get_user_path a2 tok = Inr path" "data_path cwd h = Inr p" by (auto simp: upload_request_def)
  with puts op tr rc upd show ?thesis by (simp add: recv_file_def Let_def)
qed

text \<open>A new file: its name is free and its content not yet on the server.\<close>

definition new_upload :: "(string \<Rightarrow> string \<Rightarrow> bool) \<Rightarrow> tables \<Rightarrow> int \<Rightarrow> string \<Rightarrow> string \<Rightarrow> string \<Rightarrow> bool" where
  "new_upload eq t uid path n h \<longleftrightarrow> user_tree uid t \<and> room t \<and> linked t \<and> resolve_dir t uid path \<noteq> 0 \<and>
     \<not> name_taken eq t (resolve_dir t uid path) n \<and> (\<forall>f\<in>set (t_files t). \<not> has_hash eq h f)"

lemma query_puts_new:
  assumes srv: "sql_server eq like M st" and rdy: "ready st w" and new: "new_upload eq (tabs st w) uid path n h"
    and args: "path \<noteq> []" "name_ok n" "name_ok h" "h \<noteq> []"
  defines "t \<equiv> tabs st w" and "t1 \<equiv> with_file uid (resolve_dir (tabs st w) uid path) n h (tabs st w)"
  obtains w1 where "query_puts M path n h uid w = Inr (1, w1)" and "ready st w1" and "tabs st w1 = t1"
    and "user_tree uid t1" and "linked t1" and "resolve_dir t1 uid path = resolve_dir t uid path"
proof -
  have n: "user_tree uid t" "room t" "linked t" "resolve_dir t uid path \<noteq> 0"
    "\<not> name_taken eq t (resolve_dir t uid path) n" "\<not> (\<exists>f\<in>set (t_files t). has_hash eq h f)"
    using new by (auto simp: new_upload_def t_def)
  have tok: "tables_ok t" and refl: "\<And>s. eq s s"
    using rdy srv by (simp_all add: ready_def sql_server_def t_def)
  from query_puts_spec [OF srv rdy args(1) n(1) [unfolded t_def] args(2-4) n(2,3) [unfolded t_def]]
  obtain w1 where w1: "query_puts M path n h uid w = Inr (1, w1)" "leaves st w w1 t1"
    using n(4-6) by (auto simp: puts_post_def t1_def t_def)
  have d: "0 < resolve_dir t uid path" "resolve_dir t uid path < t_next_file t" and
    u: "ulong uid" "ulong (resolve_dir t uid path)"
    using n(4) resolve_dir_range [OF n(1), of path] resolve_below_next [OF tok n(4)] dir_ulong [OF n(1), of path]
    by auto
  have tok1: "tables_ok t1"
    unfolding t1_def using tables_ok_with_file [OF tok n(2) args(2,3) u] by (simp add: t_def)
  show ?thesis
  proof (rule that [OF w1(1)])
    show "ready st w1" by (rule ready_leaves [OF rdy w1(2) tok1])
    show "tabs st w1 = t1" using w1(2) by (simp add: leaves_def)
    show "user_tree uid t1"
      using user_tree_with_file [where eq = eq, OF n(1) tok n(2,5) refl d] by (simp add: t1_def t_def)
    show "linked t1" using linked_with_file [OF n(3)] by (simp add: t1_def t_def)
    show "resolve_dir t1 uid path = resolve_dir t uid path"
      using resolve_with_file [OF HOL.refl n(4)] by (simp add: t1_def t_def)
  qed
qed

lemma tables_file_below: "tables_ok t \<Longrightarrow> f \<in> set (t_files t) \<Longrightarrow> f_id f < t_next_file t"
  by (simp add: tables_ok_def list_all_iff)

lemma completed_offers:
  assumes tok: "tables_ok t" and free: "\<not> name_taken eq t d n" "\<And>s. eq s s" and "d \<noteq> 0" and "h \<noteq> []"
  shows "offers eq (completed eq h (with_file uid d n h t)) uid d n f \<longleftrightarrow> f = new_file (t_next_file t) 1 h True"
proof -
  have "set (t_files (completed eq h (with_file uid d n h t))) =
      insert (new_file (t_next_file t) 1 h True) (set (t_files (completed eq h t)))"
    using assms(5) free(2)
    by (simp add: completed_def with_file_def with_link_def add_entry_def add_file_def new_file_def has_hash_def)
  moreover have "f_id f \<noteq> t_next_file t" if "f \<in> set (t_files (completed eq h t))" for f
    using that tables_file_below [OF tok] by (fastforce simp: completed_def)
  moreover have "(\<exists>e\<in>set (t_entries (completed eq h (with_file uid d n h t))).
      uf_file_id e = i \<and> uf_user_id e = uid \<and> at_parent d e \<and> eq (uf_name e) n) \<longleftrightarrow> i = t_next_file t" for i
    using free assms(4)
    by (auto simp: completed_def with_file_def with_link_def add_entry_def add_file_def new_entry_def
        name_taken_def at_parent_def)
  ultimately show ?thesis by (auto simp: offers_def new_file_def)
qed

lemma puts_again:
  assumes tok: "tables_ok t" and free: "\<not> name_taken eq t d n" "\<And>s. eq s s" and "d \<noteq> 0"
    and "puts_post eq (with_file uid d n h t) uid d n h r t'"
  shows "r = 1 \<and> t' = with_file uid d n h t"
proof -
  have "name_taken eq (with_file uid d n h t) d n"
    using free(2) assms(4)
    by (auto simp: name_taken_def with_file_def with_link_def add_entry_def add_file_def new_entry_def at_parent_def)
  with assms(4,5) obtain e f where e: "e \<in> set (t_entries (with_file uid d n h t))" "at_parent d e" "eq (uf_name e) n"
    and f: "f \<in> set (t_files (with_file uid d n h t))" "f_id f = uf_file_id e"
    and r: "r = (if h = f_hash_value f then if f_complete f then 2 else 1 else 0)" and t': "t' = with_file uid d n h t"
    by (auto simp: puts_post_def)
  from e free(1) have "uf_file_id e = t_next_file t"
    by (auto simp: name_taken_def with_file_def with_link_def add_entry_def add_file_def new_entry_def)
  with f tables_file_below [OF tok, of f] have "f = new_file (t_next_file t) 1 h False"
    by (auto simp: with_file_def with_link_def add_entry_def add_file_def)
  with r t' show ?thesis by (simp add: new_file_def)
qed

subsection \<open>Properties\<close>

text \<open>C2: upload, then download: a new file that arrives in chunks of whole pages, the last of any length, is stored
  under its digest byte for byte and marked complete; a \<^verbatim>\<open>gets\<close> of its name, from whatever the client
  resolves to the same path, then sends exactly the content, and the client's loop writes the content again.\<close>

theorem upload_then_download:
  assumes srv: "sql_server eq like M st" and rdy: "ready st w"
    and rq: "upload_request cwd argument tok path n h p" and slash: "CHR ''/'' \<notin> set n" "n \<noteq> []"
    and new: "new_upload eq (tabs st w) (tk_user_id tok) path n h"
    and op: "open_error p = None" and fresh: "files p = None"
    and bytes: "page_chunks page bufs" "concat bufs = content" "length content < 2 ^ 31"
    and train: "digest content = h"
    and get: "split2 argument' = Inr (source, target)" "get_user_path source tok = Inr (path @ CHR ''/'' # n)"
    and again: "page_chunks page bufs'" "concat bufs' = content"
  shows "\<exists>up down. recv_file M gen open_error page cwd argument tok (puts_first digest content) bufs files w = Inr up \<and>
    tf_files up = files(p \<mapsto> content) \<and>
    puts_bytes content (hd (tf_sent up)) = concat bufs \<and>
    send_file M gen cwd argument' tok (gets_reply page [] (hd (tf_sent down))) (tf_files up) (tf_world up) = Inr down \<and>
    tf_bytes down = concat bufs' \<and> gets_File page [] (hd (tf_sent down)) bufs' = content"
proof -
  let ?t = "tabs st w" and ?uid = "tk_user_id tok" and ?d = "resolve_dir (tabs st w) (tk_user_id tok) path"
  let ?t1 = "with_file ?uid ?d n h ?t" and ?len = "length content"
  have args: "path \<noteq> []" "name_ok n" "name_ok h" "h \<noteq> []" "data_path cwd h = Inr p"
    using rq by (auto simp: upload_request_def)
  have tok: "tables_ok ?t" and refl: "\<And>s. eq s s" using rdy srv by (simp_all add: ready_def sql_server_def)
  have d: "?d \<noteq> 0" "\<not> name_taken eq ?t ?d n" using new by (simp_all add: new_upload_def)
  from query_puts_new [OF srv rdy new args(1-4)] obtain w1 where
    w1: "query_puts M path n h ?uid w = Inr (1, w1)" "ready st w1" "tabs st w1 = ?t1"
    and t1: "user_tree ?uid ?t1" "resolve_dir ?t1 ?uid path = ?d" .
  from query_update_spec [OF srv w1(2) args(3,4)] obtain w2 where
    w2: "query_update M h w1 = Inr (0, w2)" "leaves st w1 w2 (completed eq h ?t1)" using w1(3) by auto
  have rdy2: "ready st w2" and t2: "tabs st w2 = completed eq h ?t1"
    using ready_leaves [OF w1(2) w2(2)] w1(2,3) w2(2) tables_ok_completed
    by (simp_all add: leaves_def ready_def)
  have c31: "c_int (int ?len) = int ?len" using bytes(3) by (intro c_int_id) simp_all
  have up: "recv_file M gen open_error page cwd argument tok (puts_first digest content) bufs files w =
    Inr \<lparr>tf_sent = [(puts_first digest content)\<lparr>tr_flag := True, tr_length := 0\<rparr>, empty_message], tf_bytes = [],
         tf_ret = 0, tf_closed = True, tf_files = files(p \<mapsto> content), tf_world = w2\<rparr>"
    using recv_file_accepts [where open_error = open_error, OF rq w1(1) op, of "puts_first digest content" ?len]
      receive_fresh [OF bytes(1,2)] fresh w2(1) train c31 by (simp add: puts_first_def c_int_def)
  have tree2: "user_tree ?uid (tabs st w2)" "resolve_dir (tabs st w2) ?uid path = ?d"
    using t1 by (simp_all add: t2 user_tree_def resolve_dir_def)
  from query_gets_spec [OF srv rdy2 args(1) tree2(1) args(2)] obtain w3 where
    gets: "query_gets M path n ?uid w2 = Inr (1, h, w3)"
    unfolding tree2(2) unfolding t2 gets_post_def completed_offers [OF tok d(2) refl d(1) args(4)]
    using d(1) by (auto simp: new_file_def)
  have names: "get_file_name (path @ CHR ''/'' # n) = Inr n" "cut_last (path @ CHR ''/'' # n) = path"
    using get_file_name_base [of "path @ CHR ''/'' # n"] slash args(1,2) cut_last_append
    by (auto simp: name_ok_def base_name_def split_on_append split_on_no_sep)
  let ?down = "\<lparr>tf_sent = [empty_message\<lparr>tr_length := int ?len, tr_flag := True\<rparr>], tf_bytes = content, tf_ret = 0,
    tf_closed = True, tf_files = files(p \<mapsto> content), tf_world = w3\<rparr>"
  have "send_file M gen cwd argument' tok (gets_reply page [] (hd (tf_sent ?down))) (files(p \<mapsto> content)) w2 = Inr ?down"
    using get names gets args(5) c31
    by (simp add: send_file_def gets_reply_def round_down_def c_int_def)
  moreover have "gets_File page [] (hd (tf_sent ?down)) bufs' = content"
    using receive_fresh [OF again] by (simp add: gets_File_def)
  ultimately show ?thesis
    using up bytes(2) again(2) by (intro exI [of _ ?down] exI) (auto simp: puts_bytes_def)
qed

lemma demo_request:
  "upload_request ''/srv'' ''c docs'' \<lparr>tk_user_id = 1, tk_workpath = ''/ann''\<rparr> ''/ann/docs'' ''c'' ''h5'' ''/srv/data/h5''"
proof -
  have "get_user_path ''docs'' \<lparr>tk_user_id = 1, tk_workpath = ''/ann''\<rparr> = Inr ''/ann/docs''"
    using get_user_path_child [of "\<lparr>tk_user_id = 1, tk_workpath = ''/ann''\<rparr>" "[''ann'']" "''docs''"]
    by (simp add: work_dir_def child_name_def clean_comp_def render_path_def demo_eval)
  moreover have "get_file_name ''c'' = Inr ''c''" using get_file_name_base [of "''c''"] by (simp add: base_name_def)
  ultimately show ?thesis
    by (simp add: upload_request_def split2_def splite_argument_def Let_def data_path_def demo_eval)
qed

lemma demo_new: "new_upload (=) demo_tables 1 ''/ann/docs'' ''c'' ''h5''"
  using demo_tree demo_room demo_linked demo_dir(1) unfolding new_upload_def by (simp add: demo_eval)

lemma upload_then_download_witness:
  "\<exists>up down. recv_file table_server (\<lambda>t. None) (\<lambda>p. None) 2 ''/srv'' ''c docs''
      \<lparr>tk_user_id = 1, tk_workpath = ''/ann''\<rparr> (puts_first (\<lambda>f. ''h5'') ''hello'') [''he'', ''ll'', ''o'']
      Map.empty demo = Inr up \<and>
    send_file table_server (\<lambda>t. None) ''/srv'' ''docs/c x'' \<lparr>tk_user_id = 1, tk_workpath = ''/ann''\<rparr>
      (gets_reply 2 [] (hd (tf_sent down))) (tf_files up) (tf_world up) = Inr down \<and>
    tf_bytes down = ''hello''"
proof -
  let ?tok = "\<lparr>tk_user_id = 1, tk_workpath = ''/ann''\<rparr>"
  have "get_user_path ''docs/c'' ?tok = Inr ''/ann/docs/c''"
    using get_user_path_spec [of "''docs/c''" ?tok]
    by (simp add: resolve_def cstr_ok_def path_spec_def normalise_def norm_comp_def render_path_def)
  then show ?thesis
    using upload_then_download [OF table_server_ok demo_ready demo_request, where open_error = "\<lambda>p. None" and
        content = "''hello''" and source = "''docs/c''" and files = Map.empty and page = 2 and bufs = "[''he'', ''ll'', ''o'']" and bufs' = "[''he'', ''ll'', ''o'']" and
        digest = "\<lambda>f. ''h5''" and argument' = "''docs/c x''" and gen = "\<lambda>t. None"] demo_new
    by (simp add: split2_def splite_argument_def Let_def) blast
qed

text \<open>A \<^verbatim>\<open>recv\<close> that returns less than a page ends the upload unless it completes the content: the next offset is
  no multiple of the page size, \<^verbatim>\<open>mmap\<close> fails and the handler closes the connection as after a full
  transfer; the content keeps its full length, with zeros after the first chunk, and stays incomplete.\<close>

theorem short_chunk_aborts_upload:
  assumes "sql_server eq like M st" and "ready st w"
    and rq: "upload_request cwd argument tok path n h p"
    and new: "new_upload eq (tabs st w) (tk_user_id tok) path n h"
    and "open_error p = None" and "files p = None" and "digest content = h" and "length content < 2 ^ 31"
    and "0 < k" and "k mod page \<noteq> 0" and "k < length content"
  shows "\<exists>up. recv_file M gen open_error page cwd argument tok (puts_first digest content) (take k content # bufs) files w =
      Inr up \<and> tf_ret up = 0 \<and> tf_closed up \<and>
    tf_files up = files(p \<mapsto> take k content @ replicate (length content - k) NUL) \<and>
    tabs st (tf_world up) = with_file (tk_user_id tok) (resolve_dir (tabs st w) (tk_user_id tok) path) n h (tabs st w)"
proof -
  have args: "path \<noteq> []" "name_ok n" "name_ok h" "h \<noteq> []" using rq by (auto simp: upload_request_def)
  from query_puts_new [OF assms(1,2) new args] obtain w1 where
    w1: "query_puts M path n h (tk_user_id tok) w = Inr (1, w1)" "ready st w1"
      "tabs st w1 = with_file (tk_user_id tok) (resolve_dir (tabs st w) (tk_user_id tok) path) n h (tabs st w)" .
  from query_update_spec [OF assms(1) w1(2) args(3,4)] obtain w2 where w2: "query_update M h w1 = Inr (0, w2)" by blast
  have "c_int (int (length content)) = int (length content)" using assms(8) by (intro c_int_id) simp_all
  then show ?thesis
    using recv_file_accepts [where open_error = open_error, OF rq w1(1) assms(5),
        of "puts_first digest content" "length content" page files "take k content # bufs"]
      receive_short [of "take k content" page "length content" bufs] assms(6-11) w1(3) w2
    by (simp add: puts_first_def)
qed

lemma short_chunk_aborts_upload_witness:
  "\<exists>up. recv_file table_server (\<lambda>t. None) (\<lambda>p. None) 4 ''/srv'' ''c docs''
      \<lparr>tk_user_id = 1, tk_workpath = ''/ann''\<rparr> (puts_first (\<lambda>f. ''h5'') ''hello'') [''he'', ''llo'']
      Map.empty demo = Inr up \<and> tf_files up ''/srv/data/h5'' = Some (''he'' @ [NUL, NUL, NUL])"
proof -
  have "replicate 3 NUL = [NUL, NUL, NUL]" by (simp add: numeral_eq_Suc)
  then show ?thesis
    using short_chunk_aborts_upload [OF table_server_ok demo_ready demo_request, where open_error = "\<lambda>p. None" and
        files = Map.empty and page = 4 and content = "''hello''" and k = 2 and bufs = "[''llo'']" and
        digest = "\<lambda>f. ''h5''" and gen = "\<lambda>t. None"] demo_new
    by auto
qed

text \<open>The two attempts of an interrupted upload, in the database and on the bytes.\<close>

lemma puts_twice:
  assumes srv: "sql_server eq like M st" and rdy: "ready st w" and new: "new_upload eq (tabs st w) uid path n h"
    and args: "path \<noteq> []" "name_ok n" "name_ok h" "h \<noteq> []"
  defines "t1 \<equiv> with_file uid (resolve_dir (tabs st w) uid path) n h (tabs st w)"
  assumes room: "room t1"
  obtains w1 w1u w2 w3 where "query_puts M path n h uid w = Inr (1, w1)" and "query_update M h w1 = Inr (0, w1u)"
    and "query_puts M path n h uid w1 = Inr (1, w2)" and "query_update M h w2 = Inr (0, w3)"
    and "tabs st w3 = completed eq h t1"
proof -
  let ?t = "tabs st w" and ?d = "resolve_dir (tabs st w) uid path"
  from query_puts_new [OF srv rdy new args] obtain w1 where
    w1: "query_puts M path n h uid w = Inr (1, w1)" "ready st w1" "tabs st w1 = t1"
    and t1: "user_tree uid t1" "linked t1" "resolve_dir t1 uid path = ?d" unfolding t1_def .
  from query_update_spec [OF srv w1(2) args(3,4)] obtain w1u where w1u: "query_update M h w1 = Inr (0, w1u)" by blast
  from query_puts_spec [OF srv w1(2) args(1) _ args(2-4), of uid] t1 w1(3) room obtain r w2 t2 where
    w2: "query_puts M path n h uid w1 = Inr (r, w2)" "puts_post eq t1 uid ?d n h r t2" "leaves st w1 w2 t2" by auto
  have "tables_ok ?t" and "\<And>s. eq s s" using rdy srv by (simp_all add: ready_def sql_server_def)
  then have again: "r = 1" "t2 = t1"
    using puts_again [of ?t eq ?d n uid h r t2] new w2(2) by (simp_all add: new_upload_def t1_def)
  then have lv2: "ready st w2" "tabs st w2 = t1" using w2(3) w1(2,3) by (simp_all add: leaves_def ready_def synced_iff)
  from query_update_spec [OF srv lv2(1) args(3,4)] obtain w3 where
    w3: "query_update M h w2 = Inr (0, w3)" "tabs st w3 = completed eq h t1" using lv2(2) by (auto simp: leaves_def)
  show thesis using that [OF w1(1) w1u _ w3] w2(1) again(1) by simp
qed

lemma received_twice:
  assumes part: "\<forall>b\<in>set bufs. b \<noteq> [] \<and> length b mod page = 0" "concat bufs = take k content" "k < length content"
    and "0 < page"
  defines "c \<equiv> take k content @ replicate (length content - k) NUL" and "off \<equiv> round_down page (length content)"
  shows "receive page [] (length content) bufs = (0, c, k)"
    and "receive page c (length content) (if off = length content then [] else [drop off content]) =
      (off, take off c @ drop off content, length content)"
proof -
  have "length (concat bufs) = k" using part(2,3) by simp
  then show "receive page [] (length content) bufs = (0, c, k)"
    using receive_interrupted [OF part(1), of "length content"] part(2,3) by (simp add: c_def)
  have "off \<le> length content" by (simp add: off_def round_down_def)
  then have empty: "drop off content = [] \<longleftrightarrow> off = length content" by auto
  have len: "length c = length content" using part(3) by (simp add: c_def)
  show "receive page c (length content) (if off = length content then [] else [drop off content]) =
      (off, take off c @ drop off content, length content)"
    using receive_resumed [OF len assms(4)] unfolding off_def [symmetric] empty .
qed

text \<open>C17: an interrupted upload that is resumed corrupts the file and is marked complete: \<^verbatim>\<open>ftruncate\<close> gives the content its
  full length before any data arrives, so the second attempt takes that length for the progress and
  asks only for the last page; the pages in between stay zero, yet the digest is recorded as
  complete, so that later uploads of the content are answered at once and downloads get the zeros.\<close>

theorem resumed_upload_corrupts:
  assumes srv: "sql_server eq like M st" and rdy: "ready st w"
    and rq: "upload_request cwd argument tok path n h p"
    and new: "new_upload eq (tabs st w) (tk_user_id tok) path n h"
    and op: "open_error p = None" and fresh: "files p = None" and train: "digest content = h"
    and len: "length content < 2 ^ 31" "0 < page"
    and part: "\<forall>b\<in>set bufs. b \<noteq> [] \<and> length b mod page = 0" "concat bufs = take k content" "k < length content"
    and room: "room (with_file (tk_user_id tok) (resolve_dir (tabs st w) (tk_user_id tok) path) n h (tabs st w))"
    and rest: "bufs' = (if round_down page (length content) = length content then []
      else [drop (round_down page (length content)) content])"
  shows "\<exists>up up'. let stored = take (round_down page (length content)) (take k content @ replicate (length content - k) NUL) @
        drop (round_down page (length content)) content in
    recv_file M gen open_error page cwd argument tok (puts_first digest content) bufs files w = Inr up \<and>
    recv_file M gen open_error page cwd argument tok (puts_first digest content) bufs' (tf_files up) (tf_world up) =
      Inr up' \<and>
    puts_bytes content (hd (tf_sent up')) = concat bufs' \<and>
    tf_files up' p = Some stored \<and>
    offers eq (tabs st (tf_world up')) (tk_user_id tok) (resolve_dir (tabs st w) (tk_user_id tok) path) n
      (new_file (t_next_file (tabs st w)) 1 h True)"
proof -
  let ?t = "tabs st w" and ?uid = "tk_user_id tok" and ?d = "resolve_dir (tabs st w) (tk_user_id tok) path"
  let ?len = "length content" and ?off = "round_down page (length content)"
  let ?c = "take k content @ replicate (length content - k) NUL"
  have args: "path \<noteq> []" "name_ok n" "name_ok h" "h \<noteq> []" using rq by (auto simp: upload_request_def)
  from puts_twice [OF srv rdy new args room] obtain w1 w1u w2 w3 where
    w1: "query_puts M path n h ?uid w = Inr (1, w1)" "query_update M h w1 = Inr (0, w1u)"
    and w2: "query_puts M path n h ?uid w1 = Inr (1, w2)" "query_update M h w2 = Inr (0, w3)"
    and w3: "tabs st w3 = completed eq h (with_file ?uid ?d n h ?t)" .
  note bytes = received_twice [OF part len(2), folded rest]
  have "?off \<le> ?len" by (simp add: round_down_def)
  then have small: "c_int (int ?len) = int ?len" "c_int (int ?off) = int ?off"
    using len(1) by (auto intro!: c_int_id)
  have tr: "tr_data (puts_first digest content) = h" "tr_length (puts_first digest content) = int ?len"
    using train small(1) by (simp_all add: puts_first_def)
  note accept = recv_file_accepts [where open_error = open_error, OF rq _ op tr]
  let ?sent = "\<lambda>o0. [(puts_first digest content)\<lparr>tr_flag := True, tr_length := o0\<rparr>, empty_message]"
  let ?up = "\<lparr>tf_sent = ?sent 0, tf_bytes = [], tf_ret = 0, tf_closed = True, tf_files = files(p \<mapsto> ?c),
    tf_world = w1\<rparr>"
  let ?up' = "\<lparr>tf_sent = ?sent (int ?off), tf_bytes = [], tf_ret = 0, tf_closed = True,
    tf_files = (files(p \<mapsto> ?c))(p \<mapsto> take ?off ?c @ drop ?off content), tf_world = w3\<rparr>"
  have "recv_file M gen open_error page cwd argument tok (puts_first digest content) bufs files w = Inr ?up"
    using accept [OF w1(1) _ w1(2), of page files bufs 0 ?c k] bytes(1) fresh part(3) by (simp add: c_int_def)
  moreover have "recv_file M gen open_error page cwd argument tok (puts_first digest content) bufs'
      (tf_files ?up) (tf_world ?up) = Inr ?up'"
    using accept [OF w2(1) _ w2(2), of page "files(p \<mapsto> ?c)" bufs' ?off "take ?off ?c @ drop ?off content" ?len]
      bytes(2) small(2) by simp
  moreover have "puts_bytes content (hd (tf_sent ?up')) = concat bufs'" using rest by (simp add: puts_bytes_def)
  moreover have "offers eq (tabs st (tf_world ?up')) ?uid ?d n (new_file (t_next_file ?t) 1 h True)"
  proof -
    have "tables_ok ?t" "\<not> name_taken eq ?t ?d n" "\<And>s. eq s s" "?d \<noteq> 0"
      using rdy srv new by (simp_all add: ready_def sql_server_def new_upload_def)
    then show ?thesis using completed_offers args(4) by (simp add: w3)
  qed
  moreover have "tf_files ?up' p = Some (take ?off ?c @ drop ?off content)" by simp
  ultimately show ?thesis unfolding Let_def by blast
qed

lemma resumed_upload_corrupts_witness:
  "\<exists>up up'. recv_file table_server (\<lambda>t. None) (\<lambda>p. None) 2 ''/srv'' ''c docs''
      \<lparr>tk_user_id = 1, tk_workpath = ''/ann''\<rparr> (puts_first (\<lambda>f. ''h5'') ''hello'') [''he'']
      Map.empty demo = Inr up \<and>
    recv_file table_server (\<lambda>t. None) (\<lambda>p. None) 2 ''/srv'' ''c docs''
      \<lparr>tk_user_id = 1, tk_workpath = ''/ann''\<rparr> (puts_first (\<lambda>f. ''h5'') ''hello'') [''o'']
      (tf_files up) (tf_world up) = Inr up' \<and>
    tf_files up' ''/srv/data/h5'' = Some (''he'' @ [NUL, NUL] @ ''o'') \<and>
    offers (=) (tabs (\<lambda>s. s) (tf_world up')) 1 2 ''c'' (new_file 5 1 ''h5'' True)"
proof -
  have "room (with_file 1 2 ''c'' ''h5'' demo_tables)"
    by (simp add: room_def demo_eval with_file_def with_link_def add_file_def add_entry_def)
  moreover have "replicate 3 NUL = [NUL, NUL, NUL]" by (simp add: numeral_eq_Suc)
  moreover have "t_next_file demo_tables = 5" by (simp add: demo_tables_def)
  ultimately show ?thesis
    using resumed_upload_corrupts [OF table_server_ok demo_ready demo_request, where open_error = "\<lambda>p. None" and
        files = Map.empty and page = 2 and content = "''hello''" and k = 2 and bufs = "[''he'']" and
        bufs' = "[''o'']" and digest = "\<lambda>f. ''h5''" and gen = "\<lambda>t. None"] demo_new demo_dir(1)
    by (simp add: round_down_def Let_def) blast
qed

end
