(* ===== verification/SessionProps.thy ===== *)
theory SessionProps
  imports Sessions TransferProps
begin

text \<open>
  Properties of whole requests: registration and login, the token a client carries from one
  request to the next, and what a request with a bad token gets.
\<close>

subsection \<open>The parts of a request\<close>

text \<open>A text of one line whose words are the given ones.\<close>

definition line_of :: "string list \<Rightarrow> string \<Rightarrow> bool" where
  "line_of ws s \<longleftrightarrow> CHR 0x0A \<notin> set s \<and> words_of s = ws"

lemma line_parsed:
  assumes "line_of (w # ws) s" and "ws \<noteq> []"
  shows "remove_space s = Inr (join_words (w # ws))"
    and "splite_argument (join_words (w # ws)) = Some (w, join_words ws)"
proof -
  from assms(1) have s: "CHR 0x0A \<notin> set s" "words_of s = w # ws" by (simp_all add: line_of_def)
  then show "remove_space s = Inr (join_words (w # ws))" using remove_space_words by simp
  have "v \<noteq> [] \<and> CHR '' '' \<notin> set v" if "v \<in> set (w # ws)" for v
    using that words_of_parts [of v s] s(2) by simp
  then show "splite_argument (join_words (w # ws)) = Some (w, join_words ws)"
    using splite_argument_words [of w ws] assms(2) by simp
qed

lemma log_info_line:
  assumes "line_of [n, p] (tr_data train)" and "length n < 100" and "length p < 100"
  shows "log_info train = Inr (n, p)"
  using line_parsed [OF assms(1)] assms(2,3) by (simp add: log_info_def split2_def strcpyR_def)

lemma connect_line:
  assumes "line_of (c # ws) (tr_data train)" and "ws \<noteq> []" and "length c < 10"
    and "int (length (join_words ws)) < tr_length train"
  shows "connect_with_client M gen su train tok files w =
    (if find_command c 0 command = length command
     then Inr (0, from_outcome files (answer gen InvalidCommand False 0 tok w))
     else bindR (deal_command M gen su (find_command c 0 command) (join_words ws) tok files w)
       (\<lambda>r. Inr (0, r)))"
proof -
  have "0 < tr_length train" "length (join_words ws) < nat (tr_length train)" using assms(4) by linarith+
  then show ?thesis
    using line_parsed [OF assms(1,2)] assms(3) by (simp add: connect_with_client_def strcpyR_def)
qed

lemma first_of_Cons: "xs \<noteq> [] \<Longrightarrow> \<exists>x\<in>set xs. first_of xs = Inr x"
  by (cases xs) (simp_all add: first_of_def)

subsection \<open>Accounts\<close>

lemma get_user_spec:
  assumes srv: "sql_server eq like M st" and rdy: "ready st w" and n: "name_ok n"
  shows "\<exists>w' res. get_user M n w = Inr (res, w') \<and> leaves st w w' (tabs st w) \<and>
    (case res of
       None \<Rightarrow> \<not> account_taken eq (tabs st w) n
     | Some us \<Rightarrow> us \<noteq> [] \<and> set us = {u \<in> set (t_users (tabs st w)). eq (u_name u) n})"
proof -
  from rdy obtain c p where con: "connect w = Inr (Some c, w\<lparr>w_pool := p\<rparr>)"
    and rel: "release_connection c p = w_pool w"
    using connect_ready unfolding ready_def by metis
  let ?v = "w\<lparr>w_pool := p\<rparr>" and ?q = "UserNamed n"
  have tok: "tables_ok (tabs st w)" and none: "manual st w = (\<lambda>c. False)" using rdy by (simp_all add: ready_def)
  obtain ys where ys: "set ys = {u \<in> set (t_users (tabs st w)). eq (u_name u) n}"
    and f: "fetch M c convert_to_user (send_stmt M c ?q ?v) = Inr ys"
    and l: "tabs st (send_stmt M c ?q ?v) = tabs st w" "modes st (send_stmt M c ?q ?v) = modes st w"
    using select_users [OF srv n, of c ?v] tok none by auto
  have "leaves st w (release c (send_stmt M c ?q ?v)) (tabs st w)" using l rel by (simp add: leaves_def)
  moreover have "ys = [] \<longleftrightarrow> \<not> account_taken eq (tabs st w) n"
    unfolding account_taken_def set_empty [symmetric] ys by auto
  ultimately show ?thesis using con f ys by (auto simp: get_user_def)
qed

lemma login_spec:
  assumes srv: "sql_server eq like M st" and rdy: "ready st w" and n: "name_ok n" "length n < 100" "length p < 100"
    and train: "line_of [n, p] (tr_data train)" "tr_command train = 1"
  shows "\<exists>w'. leaves st w w' (tabs st w) \<and>
    (if account_taken eq (tabs st w) n then
       \<exists>u\<in>set (t_users (tabs st w)). eq (u_name u) n \<and>
         check_user_login M gen rnd train tok w =
           Inr (if match_password p (u_password u)
                then answer gen Welcome True 0 \<lparr>tk_user_id = u_id u, tk_workpath = CHR ''/'' # n\<rparr> w'
                else answer gen WrongPassword False 1 no_token w')
     else check_user_login M gen rnd train tok w = Inr (answer gen ServerBusyRetry False 1 no_token w'))"
proof -
  from get_user_spec [OF srv rdy n(1)] obtain w' res where run: "get_user M n w = Inr (res, w')"
    and lv: "leaves st w w' (tabs st w)"
    and res: "case res of None \<Rightarrow> \<not> account_taken eq (tabs st w) n
      | Some us \<Rightarrow> us \<noteq> [] \<and> set us = {u \<in> set (t_users (tabs st w)). eq (u_name u) n}" by auto
  note info = log_info_line [OF train(1) n(2,3)]
  show ?thesis
  proof (cases res)
    case None
    with run lv res info train(2) show ?thesis by (auto simp: check_user_login_def)
  next
    case (Some us)
    with res obtain u where u: "u \<in> set us" "first_of us = Inr u" using first_of_Cons [of us] by auto
    with res Some have u': "u \<in> set (t_users (tabs st w))" "eq (u_name u) n" by auto
    then have "c_ulong (u_id u) = u_id u"
      using rdy by (auto simp: ready_def tables_ok_def list_all_iff user_ok_def ulong_def c_ulong_id)
    moreover have "account_taken eq (tabs st w) n" using u' by (auto simp: account_taken_def)
    ultimately show ?thesis using run lv info train(2) Some u u'
      by (intro exI [of _ w']) (auto simp: check_user_login_def user_token_def intro!: bexI [of _ u])
  qed
qed

subsection \<open>Stored passwords\<close>

lemma gensalt_form:
  "\<exists>bs. crypt_gensalt_rn ''$2b$'' 11 (Some (generate_random_string rnd 24 [])) 24 61 =
     Inr (''$2b$11$'' @ BF_encode bs)"
proof -
  let ?r = "generate_random_string rnd 24 []"
  have "length ?r = 24" using random_string [of 24 rnd] by simp
  moreover have "char_of (49 :: nat) = CHR ''1''" by (simp add: char_of_eq_iff take_bit_eq_mod)
  ultimately show ?thesis
    by (auto simp: crypt_gensalt_rn_def crypt_gensalt_blowfish_rn_def at_def intro!: exI)
qed

lemma hash_of_plain: "plain (hash_of rnd pw) \<and> length (hash_of rnd pw) < 62"
proof -
  have itoa: "plain BF_itoa64" by (simp add: plain_def BF_itoa64_def quote_char_def)
  have plain_sub: "plain s" if "set s \<subseteq> set BF_itoa64 \<union> set ''$2b1*0''" for s
    using that itoa by (auto simp: plain_def quote_char_def cstr_ok_def)
  obtain bs s where s: "crypt_gensalt_rn ''$2b$'' 11 (Some (generate_random_string rnd 24 [])) 24 61 = Inr s"
    and form: "s = ''$2b$11$'' @ BF_encode bs" using gensalt_form by blast
  have len: "length (generate_random_string rnd 24 []) = 24" using random_string [of 24 rnd] by simp
  have magic: "snd (crypt_output_magic s [] 61) = ''*0''" by (simp add: crypt_output_magic_def at_def form)
  have salt: "set s \<subseteq> set BF_itoa64 \<union> set ''$2b1*0''" using encode_alphabet [of bs] by (auto simp: form)
  show ?thesis
  proof (cases "BF_crypt pw s 61 16")
    case (Inl e)
    then have "hash_of rnd pw = ''*0''" using s len magic by (simp add: hash_of_def encrypt_password_def crypt_r_refused)
    then show ?thesis by (auto intro: plain_sub)
  next
    case (Inr h)
    from Inr have "set h \<subseteq> set BF_itoa64 \<union> set ''$2b1*0''"
      by (rule BF_crypt_decodes)
        (use salt in \<open>auto dest!: in_set_takeD subsetD [OF encode_alphabet] intro: itoa_alphabet upper_bits\<close>)
    with BF_crypt_length [OF Inr] plain_sub [of h] plain_sub [of "''*0''"] s len magic show ?thesis
      by (auto simp: hash_of_def encrypt_password_def crypt_r_hash [OF Inr])
  qed
qed

lemma hash_matches: "match_password pw (hash_of rnd pw) \<longleftrightarrow> crypt_self_test (CHR ''b'') 0"
  using encrypt_password_spec [of rnd pw] by (auto simp: hash_of_def)

lemma register_spec:
  assumes srv: "sql_server eq like M st" and rdy: "ready st w" and n: "name_ok n" "length n < 30" "length p < 100"
    and rm: "room (tabs st w)" and free: "\<not> account_taken eq (tabs st w) n"
    and train: "line_of [n, p] (tr_data train)" "tr_command train = 0"
  defines "i \<equiv> t_next_user (tabs st w)"
  shows "\<exists>w'. check_user_login M gen rnd train tok w =
      Inr (answer gen RegisterDone True 0 \<lparr>tk_user_id = i, tk_workpath = CHR ''/'' # n\<rparr> w') \<and>
    leaves st w w' (with_account n (hash_of rnd p) (tabs st w)) \<and> ready st w'"
proof -
  have h: "plain (hash_of rnd p)" "length (hash_of rnd p) < 62" using hash_of_plain by simp_all
  have tok: "tables_ok (tabs st w)" "manual st w = (\<lambda>c. False)" using rdy by (simp_all add: ready_def)
  from user_register_spec [where encrypt = "hash_of rnd", OF srv rdy n(1,2) h rm] free obtain w' where
    run: "user_register M (hash_of rnd) n p w = Inr (i, w')"
    and lv: "leaves st w w' (with_account n (hash_of rnd p) (tabs st w))"
    using tok(2) by (auto simp: leaves_def i_def)
  have "0 < i" "i < 2 ^ 31" using tok rm by (simp_all add: i_def tables_ok_def room_def)
  moreover from this have "c_ulong i = i" by (simp add: c_ulong_id)
  moreover have "ready st w'"
    using ready_leaves [OF rdy lv tables_ok_with_account [OF tok(1) rm n(1,2)]] h(2) by simp
  ultimately show ?thesis
    using run lv log_info_line [OF train(1)] n train(2)
    by (auto simp: check_user_login_def user_token_def)
qed

subsection \<open>The key of a request\<close>

lemma generate_key:
  "generate_token enc now conf rnd key info = Inr (j, key') \<Longrightarrow> \<exists>k. get_token_key conf rnd key = Inr (k, key')"
  by (auto simp: generate_token_def Let_def bindR_eq_Inr split: option.splits if_splits)

lemma token_key_kept:
  assumes "generate_token enc now conf rnd key info = Inr (j, key')"
    and "generate_token enc' now' conf rnd' key' info' = Inr (j', key'')"
  shows "key'' = key'"
proof -
  obtain k where "get_token_key conf rnd key = Inr (k, key')" using generate_key [OF assms(1)] by blast
  from token_key_stable(2) [OF this] generate_key [OF assms(2)] show ?thesis by simp
qed

lemma verify_failed:
  assumes "verify_token dec now conf rnd key jwt tok = Inr (ret, tok', key')" and "ret \<noteq> Some L8W8JWT_VALID"
  shows "tok' = tok" and "get_token_key conf rnd key = Inr (key', key')"
proof -
  from assms obtain k where k: "get_token_key conf rnd key = Inr (k, key')" and "tok' = tok"
    by (auto simp: verify_token_def bindR_eq_Inr split: option.splits if_splits)
  then show "tok' = tok" and "get_token_key conf rnd key = Inr (key', key')"
    using token_key_stable(1) [OF k] by simp_all
qed

subsection \<open>A library that refuses\<close>

text \<open>The encoding of \<open>Tokens\<close>, whose texts start with a mark, and a decoder that asks for it.\<close>

definition strict_decode :: jwt_decode where
  "strict_decode key jwt t = (if jwt \<noteq> [] \<and> hd jwt = CHR ''f'' then None else demo_decode key jwt t)"

lemma strict_library: "jwt_library demo_encode strict_decode"
proof -
  have "hd (put s @ r) \<noteq> CHR ''f''" for s r by (cases "length s") (simp_all add: put_def)
  then have "strict_decode key jwt t = demo_decode key jwt t" if "demo_encode key' p = Some jwt" for key key' p jwt t
    using that by (auto simp: strict_decode_def demo_encode_def)
  with demo_library show ?thesis unfolding jwt_library_def by metis
qed

definition demo_su :: surroundings where
  "demo_su = \<lparr>su_stat = (\<lambda>p. None), su_cwd = ''/srv'', su_open_error = (\<lambda>p. None), su_page = 4096,
     su_message = empty_message, su_bufs = []\<rparr>"

definition demo_token :: "string \<Rightarrow> string" where
  "demo_token wp = put (num_str 1) @ put ''workpath'' @ wp"

lemma demo_token_ne: "demo_token wp \<noteq> []"
  by (simp add: demo_token_def put_def)

lemma demo_generate:
  assumes "length wp < 100"
  shows "generate_token demo_encode n (Some []) rnd ''k'' \<lparr>tk_user_id = 1, tk_workpath = wp\<rparr> =
    Inr (Some (demo_token wp), ''k'')"
proof -
  have "get_token_key (Some []) rnd ''k'' = Inr (''k'', ''k'')"
    by (simp add: get_token_key_def strncmp_eq_def DEFAULT_KEY_def)
  moreover have "length (demo_token wp) < 1024"
    using length_num_str [of 1 1] assms by (simp add: demo_token_def put_def)
  moreover have "c_long 1 = 1" by (simp add: c_long_def)
  ultimately show ?thesis
    by (simp add: generate_token_def demo_encode_def demo_token_def strcpyR_def)
qed

subsection \<open>Properties\<close>

text \<open>Logging in is a check of the password: for a user name the database holds, \<^verbatim>\<open>check_user_login\<close>
  welcomes the client and makes the token of one of the users of that name (their number and root)
  exactly when the stored hash matches the password; with any other password, and for a name that
  is not held, the client gets a refusal, the token is cleared and carries no user. Nothing in the
  tables changes.\<close>

theorem login_checks_password:
  assumes "sql_server eq like M st" and "ready st w" and "name_ok n" and "length n < 100"
    and "length p < 100" and "line_of [n, p] (tr_data train)" and "tr_command train = 1"
  shows "\<exists>w'. leaves st w w' (tabs st w) \<and>
    (if account_taken eq (tabs st w) n then
       \<exists>u\<in>set (t_users (tabs st w)). eq (u_name u) n \<and>
         check_user_login M gen rnd train tok w =
           Inr (if match_password p (u_password u)
                then answer gen Welcome True 0 \<lparr>tk_user_id = u_id u, tk_workpath = CHR ''/'' # n\<rparr> w'
                else answer gen WrongPassword False 1 no_token w')
     else check_user_login M gen rnd train tok w = Inr (answer gen ServerBusyRetry False 1 no_token w'))"
  by (rule login_spec [OF assms])

lemma login_checks_password_witness:
  "\<exists>w'. check_user_login table_server (\<lambda>t. None) (\<lambda>i. i)
      \<lparr>tr_data = ''ann secret'', tr_length = 10, tr_command = 1, tr_flag = False, tr_token = []\<rparr> no_token demo =
    Inr (answer (\<lambda>t. None) WrongPassword False 1 no_token w')"
proof -
  let ?m = "\<lparr>tr_data = ''ann secret'', tr_length = 10, tr_command = 1, tr_flag = False, tr_token = []\<rparr>"
  have "line_of [''ann'', ''secret''] (tr_data ?m)" by (simp add: line_of_def words_of_def)
  moreover have "\<not> match_password pw ''p''" for pw
    by (simp add: match_password_iff BF_crypt_def setting_ok_def at_def)
  moreover have "account_taken (=) demo_tables ''ann''" "t_users demo_tables = [\<lparr>u_id = 1, u_name = ''ann'',
      u_password = ''p'', u_delete_time = 0\<rparr>]"
    by (simp_all add: account_taken_def demo_tables_def)
  ultimately show ?thesis
    using login_checks_password [OF table_server_ok demo_ready, of "''ann''" "''secret''" ?m "\<lambda>t. None" "\<lambda>i. i" no_token]
    by (auto simp: demo_eval)
qed

text \<open>C6: an account can be used once it is registered: registering a free name answers with the new user's
  token; a login under that name afterwards is accepted exactly for the passwords that match the
  stored hash, yields the token of the same user, and accepts the password of the registration
  itself whatever the random salt was, unless the hash's self-test fails.\<close>

theorem register_then_login:
  assumes srv: "sql_server eq like M st" and "ready st w" and "name_ok n" and "length n < 30"
    and "length p < 100" and "length q < 100" and "room (tabs st w)" and free: "\<not> account_taken eq (tabs st w) n"
    and "line_of [n, p] (tr_data reg)" and "tr_command reg = 0"
    and "line_of [n, q] (tr_data login)" and "tr_command login = 1"
  shows "\<exists>w' w''. check_user_login M gen rnd reg tok w =
      Inr (answer gen RegisterDone True 0
        \<lparr>tk_user_id = t_next_user (tabs st w), tk_workpath = CHR ''/'' # n\<rparr> w') \<and>
    check_user_login M gen rnd' login tok' w' =
      Inr (if match_password q (hash_of rnd p)
           then answer gen Welcome True 0
             \<lparr>tk_user_id = t_next_user (tabs st w), tk_workpath = CHR ''/'' # n\<rparr> w''
           else answer gen WrongPassword False 1 no_token w'') \<and>
    (match_password p (hash_of rnd p) \<longleftrightarrow> crypt_self_test (CHR ''b'') 0)"
proof -
  let ?t = "tabs st w" and ?i = "t_next_user (tabs st w)"
  from register_spec [OF srv assms(2-5,7,8,9,10)] obtain w' where
    reg: "check_user_login M gen rnd reg tok w =
      Inr (answer gen RegisterDone True 0 \<lparr>tk_user_id = ?i, tk_workpath = CHR ''/'' # n\<rparr> w')"
    and lv: "leaves st w w' (with_account n (hash_of rnd p) ?t)" and rdy: "ready st w'" by blast
  have users: "t_users (tabs st w') = t_users ?t @
      [\<lparr>u_id = ?i, u_name = n, u_password = hash_of rnd p, u_delete_time = 0\<rparr>]"
    using lv by (simp add: leaves_def with_account_def add_entry_def add_file_def)
  have "eq n n" using srv by (simp add: sql_server_def)
  then have "account_taken eq (tabs st w') n" by (simp add: account_taken_def users)
  moreover have "u = \<lparr>u_id = ?i, u_name = n, u_password = hash_of rnd p, u_delete_time = 0\<rparr>"
    if "u \<in> set (t_users (tabs st w'))" "eq (u_name u) n" for u
    using that free by (auto simp: users account_taken_def)
  ultimately obtain w'' where "check_user_login M gen rnd' login tok' w' =
      Inr (if match_password q (hash_of rnd p)
           then answer gen Welcome True 0 \<lparr>tk_user_id = ?i, tk_workpath = CHR ''/'' # n\<rparr> w''
           else answer gen WrongPassword False 1 no_token w'')"
    using login_spec [OF srv rdy assms(3) _ assms(6,11,12), of gen rnd' tok'] assms(4) by fastforce
  with reg hash_matches show ?thesis by blast
qed

lemma register_then_login_witness:
  "\<exists>w' w''. check_user_login table_server (\<lambda>t. None) (\<lambda>i. i)
      \<lparr>tr_data = ''bob pw'', tr_length = 6, tr_command = 0, tr_flag = False, tr_token = []\<rparr> no_token demo =
    Inr (answer (\<lambda>t. None) RegisterDone True 0 \<lparr>tk_user_id = 2, tk_workpath = ''/bob''\<rparr> w') \<and>
    check_user_login table_server (\<lambda>t. None) (\<lambda>i. 0)
      \<lparr>tr_data = ''bob pw'', tr_length = 6, tr_command = 1, tr_flag = False, tr_token = []\<rparr> no_token w' =
    Inr (if crypt_self_test (CHR ''b'') 0
         then answer (\<lambda>t. None) Welcome True 0 \<lparr>tk_user_id = 2, tk_workpath = ''/bob''\<rparr> w''
         else answer (\<lambda>t. None) WrongPassword False 1 no_token w'')"
proof -
  let ?m = "\<lambda>k. \<lparr>tr_data = ''bob pw'', tr_length = 6, tr_command = k, tr_flag = False, tr_token = []\<rparr>"
  have "line_of [''bob'', ''pw''] ''bob pw''" by (simp add: line_of_def words_of_def)
  moreover have "\<not> account_taken (=) demo_tables ''bob''" "t_next_user demo_tables = 2" "name_ok ''bob''"
    by (simp_all add: demo_eval account_taken_def)
  ultimately show ?thesis
    using register_then_login [OF table_server_ok demo_ready, of "''bob''" "''pw''" "''pw''" "?m 0" "?m 1"
        "\<lambda>t. None" "\<lambda>i. i" no_token "\<lambda>i. 0" no_token] demo_room
    unfolding hash_matches by (simp split del: if_split cong: if_cong)
qed

text \<open>C3: the token carries the session: while the token of an earlier answer is in force, the request
  \<^verbatim>\<open>cd\<close> with a path to an existing directory is served for the user and from the work path of that
  token, whatever the worker served before, and the answer's own token is accepted afterwards as the
  same user's with the new directory as work path.\<close>

theorem token_carries_session:
  assumes lib: "jwt_library (js_enc js) (js_dec js)" and srv: "sql_server eq like M st" and "ready st w"
    and old: "generate_token (js_enc js) now0 (js_conf js) rnd0 key0 info = Inr (Some jwt, key)"
    and now: "now0 \<le> now" "now \<le> now0 + 600"
    and info: "0 < tk_user_id info" "tk_user_id info < 2 ^ 64" "length (tk_workpath info) < 1024"
    and train: "tr_token train = jwt" "jwt \<noteq> []" "line_of (''cd'' # ws) (tr_data train)" "ws \<noteq> []"
      "int (length (join_words ws)) < tr_length train"
    and path: "get_user_path (join_words ws) info = Inr path" "path \<noteq> []" "length path < 1024"
    and tree: "user_tree (tk_user_id info) (tabs st w)"
    and dir: "resolve_dir (tabs st w) (tk_user_id info) path \<noteq> 0"
    and new: "generate_token (js_enc js) now (js_conf js) (js_rnd js) key (info\<lparr>tk_workpath := path\<rparr>) =
      Inr (Some jwt', key')"
  shows "\<exists>r w'. serve M js now su train tok key files w = Inr (r, key) \<and> sd_world r = w' \<and>
    leaves st w w' (tabs st w) \<and> map tr_data (sd_sent r) = [notice_text ChangeDone] \<and>
    map tr_token (sd_sent r) = [jwt'] \<and>
    (\<forall>t rnd' tok'. now \<le> t \<and> t \<le> now + 600 \<longrightarrow>
       verify_token (js_dec js) t (js_conf js) rnd' key jwt' tok' =
         Inr (Some L8W8JWT_VALID, info\<lparr>tk_workpath := path\<rparr>, key))"
proof -
  let ?info = "info\<lparr>tk_workpath := path\<rparr>" and ?gen = "token_maker (js_enc js) now (js_conf js) (js_rnd js) key"
  have key': "key' = key" using token_key_kept [OF old new] .
  have verified: "verify_token (js_dec js) now (js_conf js) (js_rnd js) key jwt tok =
      Inr (Some L8W8JWT_VALID, info, key)"
    using verify_generated [OF lib old now] info by simp
  from query_cd_spec [OF srv assms(3) path(2) tree] obtain w' where
    cd: "query_cd M path (tk_user_id info) w = Inr (resolve_dir (tabs st w) (tk_user_id info) path, w')"
    and lv: "leaves st w w' (tabs st w)" by auto
  have "0 < resolve_dir (tabs st w) (tk_user_id info) path"
    using resolve_dir_range [OF tree, of path] dir by simp
  then have "change_dir M ?gen (join_words ws) info w = Inr (answer ?gen ChangeDone False 0 ?info w')"
    using path cd by (simp add: change_dir_def strcpyR_def)
  then have "connect_with_client M ?gen su train info files w =
      Inr (0, from_outcome files (answer ?gen ChangeDone False 0 ?info w'))"
    by (simp add: connect_line [OF train(3,4) _ train(5)] command_def deal_command_def)
  then have "serve M js now su train tok key files w =
      Inr (from_outcome files (answer ?gen ChangeDone False 0 ?info w'), key)"
    using verified train(1,2) by (simp add: serve_def)
  moreover have "?gen ?info = Some jwt'" using new by (simp add: token_maker_def)
  moreover have "verify_token (js_dec js) t (js_conf js) rnd' key jwt' tok' = Inr (Some L8W8JWT_VALID, ?info, key)"
    if "now \<le> t" "t \<le> now + 600" for t rnd' tok'
    using verify_generated [OF lib new that] info path(3) key' by simp
  ultimately show ?thesis
    using lv info(1) by (auto simp: from_outcome_def answer_def notice_msg_def)
qed

lemma token_carries_session_witness:
  "\<exists>r. serve table_server \<lparr>js_enc = demo_encode, js_dec = demo_decode, js_conf = Some [], js_rnd = (\<lambda>i. i)\<rparr> 200 demo_su
      \<lparr>tr_data = ''cd docs'', tr_length = 7, tr_command = 9, tr_flag = False,
        tr_token = demo_token ''/ann''\<rparr> no_token ''k'' Map.empty demo = Inr (r, ''k'') \<and>
    map tr_token (sd_sent r) = [demo_token ''/ann/docs'']"
proof -
  let ?js = "\<lparr>js_enc = demo_encode, js_dec = demo_decode, js_conf = Some [], js_rnd = (\<lambda>i. i)\<rparr>"
  let ?m = "\<lparr>tr_data = ''cd docs'', tr_length = 7, tr_command = 9, tr_flag = False, tr_token = demo_token ''/ann''\<rparr>"
  let ?info = "\<lparr>tk_user_id = 1, tk_workpath = ''/ann''\<rparr>"
  have path: "get_user_path ''docs'' ?info = Inr ''/ann/docs''"
    using get_user_path_child [of ?info "[''ann'']" "''docs''"]
    by (simp add: work_dir_def child_name_def clean_comp_def render_path_def demo_eval)
  have gen: "generate_token demo_encode n (Some []) (\<lambda>i. i) ''k'' \<lparr>tk_user_id = 1, tk_workpath = wp\<rparr> =
      Inr (Some (demo_token wp), ''k'')" if "length wp < 100" for n wp
    using demo_generate [OF that] .
  have "line_of (''cd'' # [''docs'']) (tr_data ?m)" by (simp add: line_of_def words_of_def)
  then show ?thesis
    using token_carries_session [of ?js "(=)" like_match table_server "\<lambda>s. s" demo 100 "\<lambda>i. i" "''k''" ?info "demo_token ''/ann''"
        "''k''" 200 ?m "[''docs'']" "''/ann/docs''" "demo_token ''/ann/docs''" "''k''" demo_su no_token Map.empty]
      demo_library table_server_ok demo_ready gen path demo_tree demo_dir(1) demo_token_ne by auto
qed

text \<open>C13: a bad token is answered with somebody's session: the worker keeps its \<^verbatim>\<open>token\<close> variable from one
  request to the next, \<^verbatim>\<open>verify_token\<close> leaves it alone when it fails, and \<^verbatim>\<open>send_message\<close> puts a fresh
  token for it into the request to log in again. Whoever sends an invalid token gets one with which
  the next request is served as the user this worker served before.\<close>

theorem bad_token_leaks_session:
  assumes lib: "jwt_library (js_enc js) (js_dec js)"
    and bad: "verify_token (js_dec js) now (js_conf js) (js_rnd js) key (tr_token train) tok = Inr (ret, tok', key')"
      "ret \<noteq> Some L8W8JWT_VALID" "tr_token train \<noteq> []"
    and new: "generate_token (js_enc js) now (js_conf js) (js_rnd js) key' tok = Inr (Some jwt, key'')"
    and tok: "0 < tk_user_id tok" "tk_user_id tok < 2 ^ 64" "length (tk_workpath tok) < 1024"
  shows "\<exists>r. serve M js now su train tok key files w = Inr (r, key') \<and>
    map tr_data (sd_sent r) = [notice_text LoginAgain] \<and> map tr_token (sd_sent r) = [jwt] \<and>
    (\<forall>t rnd' old. now \<le> t \<and> t \<le> now + 600 \<longrightarrow>
       verify_token (js_dec js) t (js_conf js) rnd' key' jwt old = Inr (Some L8W8JWT_VALID, tok, key'))"
proof -
  have same: "tok' = tok" and "get_token_key (js_conf js) (js_rnd js) key = Inr (key', key')"
    using verify_failed [OF bad(1,2)] by simp_all
  then have key'': "key'' = key'" using generate_key [OF new] token_key_stable(2) by fastforce
  have "token_maker (js_enc js) now (js_conf js) (js_rnd js) key' tok = Some jwt" using new by (simp add: token_maker_def)
  moreover have "verify_token (js_dec js) t (js_conf js) rnd' key' jwt old = Inr (Some L8W8JWT_VALID, tok, key')"
    if "now \<le> t" "t \<le> now + 600" for t rnd' old
    using verify_generated [OF lib new that] tok key'' by simp
  ultimately show ?thesis
    using bad same tok(1) by (auto simp: serve_def from_outcome_def answer_def notice_msg_def)
qed

lemma bad_token_leaks_session_witness:
  "\<exists>r. serve table_server \<lparr>js_enc = demo_encode, js_dec = strict_decode, js_conf = Some [], js_rnd = (\<lambda>i. i)\<rparr> 200 demo_su
      \<lparr>tr_data = ''ls'', tr_length = 2, tr_command = 9, tr_flag = False, tr_token = ''forged''\<rparr>
      \<lparr>tk_user_id = 1, tk_workpath = ''/ann''\<rparr> ''k'' Map.empty demo = Inr (r, ''k'') \<and>
    map tr_token (sd_sent r) = [demo_token ''/ann''] \<and>
    verify_token strict_decode 300 (Some []) (\<lambda>i. 0) ''k'' (demo_token ''/ann'') no_token =
      Inr (Some L8W8JWT_VALID, \<lparr>tk_user_id = 1, tk_workpath = ''/ann''\<rparr>, ''k'')"
proof -
  let ?js = "\<lparr>js_enc = demo_encode, js_dec = strict_decode, js_conf = Some [], js_rnd = (\<lambda>i. i)\<rparr>"
  let ?m = "\<lparr>tr_data = ''ls'', tr_length = 2, tr_command = 9, tr_flag = False, tr_token = ''forged''\<rparr>"
  let ?tok = "\<lparr>tk_user_id = 1, tk_workpath = ''/ann''\<rparr>"
  have "verify_token strict_decode 200 (Some []) (\<lambda>i. i) ''k'' ''forged'' ?tok = Inr (None, ?tok, ''k'')"
    by (simp add: verify_token_def get_token_key_def strncmp_eq_def DEFAULT_KEY_def strict_decode_def)
  then show ?thesis
    using bad_token_leaks_session [of ?js 200 "''k''" ?m ?tok None ?tok "''k''" "demo_token ''/ann''" "''k''"
        table_server demo_su Map.empty demo] strict_library demo_generate [of "''/ann''" 200]
    by auto
qed

end
