(* ===== verification/ClientProps.thy ===== *)
theory ClientProps
  imports Client SessionProps
begin

text \<open>
  The client and the server together: what the user types, the message the client makes of it, what
  the server does with that message, and what the client shows of the answer.
\<close>

subsection \<open>Lines of words\<close>

definition word :: "string \<Rightarrow> bool" where
  "word w \<longleftrightarrow> w \<noteq> [] \<and> CHR '' '' \<notin> set w \<and> CHR 0x0A \<notin> set w"

lemma words_of_join: "list_all word ws \<Longrightarrow> words_of (join_words ws) = ws"
  by (induction ws rule: join_words.induct) (simp_all add: word_def words_of_no_space words_of_word_space)

lemma join_newline: "list_all word ws \<Longrightarrow> CHR 0x0A \<notin> set (join_words ws)"
  by (induction ws rule: join_words.induct) (simp_all add: word_def)

lemma line_join: "list_all word ws \<Longrightarrow> line_of ws (join_words ws)"
  by (simp add: line_of_def words_of_join join_newline)

lemma filter_blanks: "CHR '' '' \<notin> set w \<Longrightarrow> filter (\<lambda>c. c = CHR '' '') w = []"
  by (auto simp: filter_empty_conv)

lemma blanks_join: "list_all word ws \<Longrightarrow> ws \<noteq> [] \<Longrightarrow> blanks (join_words ws) + 1 = length ws"
  by (induction ws rule: join_words.induct) (simp_all add: word_def blanks_def filter_blanks)

lemma order_words: "name \<in> set order \<Longrightarrow> word name \<and> length name < 10"
  by (auto simp: order_def word_def)

text \<open>How many arguments each command takes.\<close>

definition arity_ok :: "nat \<Rightarrow> nat \<Rightarrow> bool" where
  "arity_ok i n \<longleftrightarrow>
     (if i = 0 \<or> i = 4 \<or> i = 7 then n = 1
      else if i = 1 \<or> i = 2 then n \<le> 1
      else if i = 5 \<or> i = 6 then n = 2
      else n = 0)"

definition message_of :: "string \<Rightarrow> nat \<Rightarrow> string \<Rightarrow> trans_file" where
  "message_of cmd i tok =
     \<lparr>tr_data = cmd, tr_length = int (length cmd), tr_command = int i, tr_flag = False, tr_token = tok\<rparr>"

lemma execute_known:
  assumes name: "name \<in> set order" and ws: "list_all word ws" and n: "length (join_words (name # ws)) < 1024"
  defines "i \<equiv> find_command name 0 command"
  shows "execute_command tok (join_words (name # ws)) =
    Inr (if \<not> arity_ok i (length ws) then Illegal
         else if i = 5 \<or> i = 6 then StartTransfer (message_of (join_words (name # ws)) i tok)
         else SendShort (message_of (join_words (name # ws)) i tok))"
proof -
  let ?cmd = "join_words (name # ws)"
  have "?cmd = name @ CHR '' '' # join_words ws \<or> ?cmd = name" by (cases ws) simp_all
  then have m: "match_order ?cmd 0 order = Some i" unfolding i_def using name by (rule match_order_name)
  have "list_all word (name # ws)" using ws order_words [OF name] by simp
  from blanks_join [OF this] have b: "blanks ?cmd = length ws" by simp
  show ?thesis
    using n by (auto simp: execute_command_def classify_def m b arity_ok_def message_of_def strcpyR_def Let_def)
qed

lemma connect_known:
  assumes name: "name \<in> set order" and ws: "list_all word ws"
  defines "i \<equiv> find_command name 0 command"
  shows "connect_with_client M gen su (message_of (join_words (name # ws)) k tok) info files w =
    bindR (deal_command M gen su i (join_words ws) info files w) (\<lambda>r. Inr (0, r))"
proof -
  note nm = order_words [OF name]
  have all: "list_all word (name # ws)" using ws nm by simp
  have i: "i < length command"
    using name unfolding i_def by (auto simp: order_def command_def)
  show ?thesis
  proof (cases "ws = []")
    case True
    have "remove_space name = Inr name"
      using remove_space_words [OF join_newline [OF all]] words_of_join [OF all] True by simp
    moreover have "splite_argument name = None" using nm by (simp add: splite_argument_None word_def)
    ultimately show ?thesis
      using True nm i by (simp add: connect_with_client_def message_of_def strcpyR_def word_def flip: i_def)
  next
    case False
    have "length (join_words ws) < length (join_words (name # ws))" using False by (cases ws) simp_all
    then show ?thesis
      using connect_line [of name ws "message_of (join_words (name # ws)) k tok" M gen su info files w]
        line_join [OF all] nm i False by (simp add: message_of_def flip: i_def)
  qed
qed

text \<open>A word that only begins with a command name.\<close>

lemma match_order_prefix: "match_order (''puts'' @ x) 0 order = Some 5"
  by (simp add: order_def strncmp_eq_def)

lemma find_command_puts: "x \<noteq> [] \<Longrightarrow> find_command (''puts'' @ x) 0 command = length command"
  by (simp add: command_def)

subsection \<open>Numbers and texts\<close>

text \<open>A handler closes the descriptor only when the first word of the text is \<^verbatim>\<open>puts\<close> or \<^verbatim>\<open>gets\<close>.\<close>

definition first_word :: "string \<Rightarrow> string" where
  "first_word s = takeWhile (\<lambda>c. c \<noteq> CHR '' '') s"

lemma splite_first: "splite_argument s = Some (a, b) \<Longrightarrow> a = first_word s"
proof -
  assume s: "splite_argument s = Some (a, b)"
  then have "CHR '' '' \<in> set s" using splite_argument_None [of s] by auto
  then obtain u v where u: "s = u @ CHR '' '' # v" "CHR '' '' \<notin> set u" by (meson split_list_first)
  moreover have "takeWhile (\<lambda>c. c \<noteq> CHR '' '') (u @ CHR '' '' # v) = u"
    using u(2) by (subst takeWhile_append2) auto
  ultimately show ?thesis using s splite_argument_append [OF u(2), of v] by (simp add: first_word_def)
qed

lemma no_argument: "splite_argument s = None \<Longrightarrow> first_word s = s"
  by (auto simp: splite_argument_None first_word_def takeWhile_eq_all_conv)

lemma find_transfer:
  assumes "find_command cmd 0 command = 5 \<or> find_command cmd 0 command = 6"
  shows "cmd = ''puts'' \<or> cmd = ''gets''"
  using assms by (auto simp: command_def split: if_splits)

lemma deal_closes:
  "deal_command M gen su k argument tok files w = Inr r \<Longrightarrow> sd_closed r \<Longrightarrow> k = 5 \<or> k = 6"
  by (auto simp: deal_command_def Let_def bindR_eq_Inr from_outcome_def split: if_splits)

lemma connect_closes:
  assumes run: "connect_with_client M gen su train tok files w = Inr (ret, r)" and cl: "sd_closed r"
  obtains data where "remove_space (tr_data train) = Inr data" and "first_word data = ''puts'' \<or> first_word data = ''gets''"
proof -
  from run obtain data cmd argument where d: "remove_space (tr_data train) = Inr data"
    and c: "(case splite_argument data of
         None \<Rightarrow> bindR (strcpyR 10 data) (\<lambda>cmd. Inr (cmd, []))
       | Some (temp0, temp1) \<Rightarrow>
           bindR (strcpyR 10 temp0) (\<lambda>cmd.
           bindR (strcpyR (nat (tr_length train)) temp1) (\<lambda>argument. Inr (cmd, argument)))) = Inr (cmd, argument)"
    and r: "(if find_command cmd 0 command = length command
        then Inr (0, from_outcome files (answer gen InvalidCommand False 0 tok w))
        else bindR (deal_command M gen su (find_command cmd 0 command) argument tok files w) (\<lambda>r. Inr (0, r))) =
      Inr (ret, r)"
    by (auto simp: connect_with_client_def bindR_eq_Inr Let_def)
  have "cmd = first_word data"
    using c by (auto simp: bindR_eq_Inr strcpyR_eq_Inr no_argument dest: splite_first split: option.splits)
  moreover from r cl have "find_command cmd 0 command = 5 \<or> find_command cmd 0 command = 6"
    by (auto simp: bindR_eq_Inr from_outcome_def dest: deal_closes split: if_splits)
  ultimately show thesis using that d find_transfer by blast
qed

lemma serve_closes:
  assumes "serve M js now su train tok token_key files w = Inr (r, key')" and "sd_closed r"
  obtains data where "remove_space (tr_data train) = Inr data" and "first_word data = ''puts'' \<or> first_word data = ''gets''"
  using assms
  by (auto simp: serve_def Let_def bindR_eq_Inr from_outcome_def split: if_splits elim!: connect_closes)

text \<open>The client's message starts with the name its number stands for, and \<^verbatim>\<open>remove_space\<close> keeps it.\<close>

lemma match_order_Some:
  assumes "match_order cmd 0 order = Some i"
  obtains q where "i < 8" and "cmd = order ! i @ q"
proof -
  have "match_order cmd k names = Some i \<Longrightarrow> k \<le> i \<and> i < k + length names \<and>
      take (length (names ! (i - k))) cmd = names ! (i - k)" for k names
    by (induction names arbitrary: k) (force simp: strncmp_eq_def Suc_diff_Suc nth_Cons' split: if_splits)+
  from this [of 0 order] assms have "i < 8" "take (length (order ! i)) cmd = order ! i" by (auto simp: order_def)
  with that show thesis by (metis append_take_drop_id)
qed

lemma squeeze_start: "word u \<Longrightarrow> squeeze b (u @ s) = u @ squeeze False s"
proof -
  have "CHR '' '' \<notin> set v \<Longrightarrow> CHR 0x0A \<notin> set v \<Longrightarrow> squeeze False (v @ s) = v @ squeeze False s" for v
    by (induction v) auto
  then show "word u \<Longrightarrow> squeeze b (u @ s) = u @ squeeze False s" by (cases u) (auto simp: word_def)
qed

lemma remove_space_keeps:
  assumes "word u" and "remove_space (u @ s) = Inr data"
  obtains q where "data = u @ q"
proof -
  let ?q = "squeeze False s"
  have d: "data = (if last (u @ ?q) = CHR '' '' then butlast (u @ ?q) else u @ ?q)"
    using assms by (auto simp: remove_space_def rs_loop_eq squeeze_start word_def split: if_splits)
  show thesis
  proof (cases "?q = []")
    case True
    have "last u \<noteq> CHR '' ''" using assms(1) last_in_set unfolding word_def by metis
    with True d that [of "[]"] show thesis by simp
  next
    case False
    with d that show thesis by (auto simp: butlast_append split: if_splits)
  qed
qed

text \<open>So every message of the client meets the condition \<open>numbered\<close> of the event loop's runs.\<close>

lemma client_numbers_agree:
  assumes "execute_command global_token line = Inr act" and "act = SendShort train \<or> act = StartTransfer train"
    and "serve M js now su (train\<lparr>tr_token := jwt\<rparr>) tok token_key files w = Inr (r, key')" and "sd_closed r"
  shows "long_command (tr_command train)"
proof -
  from assms(1,2) obtain i where i: "match_order line 0 order = Some i" "tr_command train = int i" "tr_data train = line"
    by (auto simp: execute_command_def classify_def Let_def bindR_eq_Inr strcpyR_eq_Inr split: option.splits if_splits)
  from match_order_Some [OF i(1)] obtain q where q: "i < 8" "line = order ! i @ q" .
  from serve_closes [OF assms(3,4)] obtain data where d: "remove_space line = Inr data"
    "first_word data = ''puts'' \<or> first_word data = ''gets''" by (auto simp: i(3))
  have w: "word (order ! i)" using order_words [OF nth_mem, of i] q(1) by (simp add: order_def)
  from remove_space_keeps [OF w] d(1) q(2) obtain p where "data = order ! i @ p" by auto
  then have "first_word data = order ! i @ first_word p"
    using w by (auto simp: first_word_def word_def takeWhile_append)
  with d(2) have "order ! i @ first_word p = ''puts'' \<or> order ! i @ first_word p = ''gets''" by simp
  moreover have "i \<in> {0, 1, 2, 3, 4, 5, 6, 7}" using q(1) by auto
  ultimately have "i = 5 \<or> i = 6" by (auto simp: order_def)
  then show ?thesis by (auto simp: long_command_def i(2))
qed

subsection \<open>Properties\<close>

text \<open>C5: what the user types reaches its handler: for each of the eight command names with as many arguments as
  the command takes, the client accepts the line, marks it as a long command exactly for puts and
  gets, numbers it, and the server, given that message, calls the handler of the same number with the
  arguments as typed; with any other number of arguments the client refuses the line.\<close>

theorem command_reaches_handler:
  assumes "name \<in> set order" and "list_all word ws" and "length (join_words (name # ws)) < 1024"
  shows "\<exists>i m. order ! i = name \<and> i < 8 \<and> tr_command m = int i \<and> tr_token m = tok \<and>
    execute_command tok (join_words (name # ws)) =
      Inr (if \<not> arity_ok i (length ws) then Illegal
           else if long_command (int i) then StartTransfer m else SendShort m) \<and>
    connect_with_client M gen su m info files w =
      bindR (deal_command M gen su i (join_words ws) info files w) (\<lambda>r. Inr (0, r))"
proof -
  let ?i = "find_command name 0 command"
  have "?i < 8 \<and> order ! ?i = name" using assms(1) by (auto simp: order_def command_def)
  moreover have "long_command (int ?i) \<longleftrightarrow> ?i = 5 \<or> ?i = 6" by (auto simp: long_command_def)
  ultimately show ?thesis
    using execute_known [OF assms, of tok] connect_known [where tok = tok and k = ?i and M = M and w = w, OF assms(1,2)]
    by (intro exI [of _ ?i] exI [of _ "message_of (join_words (name # ws)) ?i tok"])
      (simp add: message_of_def)
qed

lemma command_reaches_handler_witness:
  "\<exists>i m. order ! i = ''mkdir'' \<and> execute_command ''t'' ''mkdir new'' =
      Inr (if \<not> arity_ok i 1 then Illegal else if long_command (int i) then StartTransfer m else SendShort m)"
  using command_reaches_handler [of "''mkdir''" "[''new'']" "''t''" table_server "\<lambda>t. None" demo_su no_token
      Map.empty demo]
  by (auto simp: order_def word_def)

text \<open>A misspelt command is not noticed by the client: a word that begins with puts passes as puts, so
  the client opens the file and a new connection for it; the server compares whole words, answers
  that the command is invalid, and has the message's number 5 to keep it from watching that
  connection again.\<close>

theorem misspelt_command_starts_transfer:
  assumes "word x" and "length x < 6" and "word a" and "word b"
    and "length (join_words [''puts'' @ x, a, b]) < 1024"
  shows "\<exists>m. execute_command tok (join_words [''puts'' @ x, a, b]) = Inr (StartTransfer m) \<and>
    tr_command m = 5 \<and>
    connect_with_client M gen su m info files w =
      Inr (0, from_outcome files (answer gen InvalidCommand False 0 info w))"
proof -
  let ?ws = "[''puts'' @ x, a, b]"
  let ?m = "message_of (join_words ?ws) 5 tok"
  have all: "list_all word ?ws" using assms(1,3,4) by (auto simp: word_def)
  have "x \<noteq> []" using assms(1) by (simp add: word_def)
  have "blanks (join_words ?ws) = 2" using blanks_join [OF all] by simp
  moreover have "match_order (join_words ?ws) 0 order = Some 5"
    using match_order_prefix [of "x @ CHR '' '' # a @ CHR '' '' # b"] by simp
  ultimately have "execute_command tok (join_words ?ws) = Inr (StartTransfer ?m)"
    using assms(5) by (simp add: execute_command_def classify_def message_of_def strcpyR_def)
  moreover have "connect_with_client M gen su ?m info files w =
      Inr (0, from_outcome files (answer gen InvalidCommand False 0 info w))"
    using connect_line [of "''puts'' @ x" "[a, b]" ?m M gen su info files w] line_join [OF all] assms(2)
      find_command_puts [OF \<open>x \<noteq> []\<close>] by (simp add: message_of_def)
  ultimately show ?thesis by (auto simp: message_of_def)
qed

lemma misspelt_command_starts_transfer_witness:
  "\<exists>m. execute_command ''t'' ''putsx a b'' = Inr (StartTransfer m) \<and>
    connect_with_client table_server (\<lambda>t. None) demo_su m no_token Map.empty demo =
      Inr (0, from_outcome Map.empty (answer (\<lambda>t. None) InvalidCommand False 0 no_token demo))"
  using misspelt_command_starts_transfer [of "''x''" "''a''" "''b''" "''t''" table_server "\<lambda>t. None" demo_su no_token Map.empty demo]
  by (auto simp: word_def)

text \<open>C39: a listing arrives whole: for a directory that exists the client prints the name of each complete entry
  in the order of file identifiers and then the closing notice, takes over the token of the last
  message, and leaves what arrives after it unread.\<close>

theorem listing_printed:
  assumes srv: "sql_server eq like M st" and rdy: "ready st w" and "get_user_path argument tok = Inr path"
    and "path \<noteq> []" and "user_tree (tk_user_id tok) (tabs st w)"
    and d: "resolve_dir (tabs st w) (tk_user_id tok) path \<noteq> 0"
  shows "\<exists>ys r. show_dir M gen argument tok w = Inr r \<and>
    command_printf (oc_sent r @ rest) =
      (map uf_name ys @ [notice_text ListingDone], tr_token (notice_msg gen ListingDone False tok), rest) \<and>
    sorted (map uf_file_id ys) \<and>
    mset ys = mset (filter (\<lambda>e. uf_file_id e \<in> complete_ids (tabs st w) \<and>
      at_parent (resolve_dir (tabs st w) (tk_user_id tok) path) e) (t_entries (tabs st w)))"
proof -
  from query_ls_spec [OF srv rdy assms(4,5)] d obtain w' ys where
    ls: "query_ls M path (tk_user_id tok) w = Inr (Some ys, w')" "sorted (map uf_file_id ys)"
      "mset ys = mset (filter (\<lambda>e. uf_file_id e \<in> complete_ids (tabs st w) \<and>
        at_parent (resolve_dir (tabs st w) (tk_user_id tok) path) e) (t_entries (tabs st w)))" by auto
  have "set ys \<subseteq> set (t_entries (tabs st w))" using set_mset_filter [OF ls(3)] by auto
  then have "\<forall>e\<in>set ys. userfile_ok e" using tables_entries_ok [of "tabs st w" ys] rdy by (simp add: ready_def)
  then have "list_all (\<lambda>s. length s \<le> 1024) (map uf_name ys)" by (auto simp: list_all_iff userfile_ok_def)
  from send_all_ok [OF this, of gen tok] obtain ms where
    ms: "send_all gen (map uf_name ys) tok = Inr ms" "map tr_data ms = map uf_name ys" "list_all tr_flag ms" by blast
  let ?r = "\<lparr>oc_sent = ms @ [notice_msg gen ListingDone False tok], oc_ret = 0, oc_token = tok, oc_world = w'\<rparr>"
  have "show_dir M gen argument tok w = Inr ?r" using ls(1) ms(1) assms(3) by (simp add: show_dir_def)
  moreover have "command_printf (oc_sent ?r @ rest) =
      (map uf_name ys @ [notice_text ListingDone], tr_token (notice_msg gen ListingDone False tok), rest)"
    using command_printf_flags [OF ms(3), of "notice_msg gen ListingDone False tok" rest] ms(2)
    by (simp add: notice_msg_def)
  ultimately show ?thesis using ls(2,3) by blast
qed

lemma listing_printed_witness:
  "\<exists>(ys :: user_file_t list) r. show_dir table_server (\<lambda>t. None) ''docs'' \<lparr>tk_user_id = 1, tk_workpath = ''/ann''\<rparr> demo = Inr r \<and>
    fst (command_printf (oc_sent r)) = map uf_name ys @ [notice_text ListingDone] \<and>
    sorted (map uf_file_id ys)"
proof -
  let ?tok = "\<lparr>tk_user_id = 1, tk_workpath = ''/ann''\<rparr>"
  have path: "get_user_path ''docs'' ?tok = Inr ''/ann/docs''"
    using get_user_path_child [of ?tok "[''ann'']" "''docs''"]
    by (simp add: work_dir_def child_name_def clean_comp_def render_path_def demo_eval)
  have tree: "user_tree (tk_user_id ?tok) (tabs (\<lambda>s. s) demo)"
    and dir: "resolve_dir (tabs (\<lambda>s. s) demo) (tk_user_id ?tok) ''/ann/docs'' \<noteq> 0" and ne: "''/ann/docs'' \<noteq> []"
    using demo_tree demo_dir(1) by simp_all
  from listing_printed [OF table_server_ok demo_ready path ne tree dir, of "\<lambda>t. None" "[]"] obtain ys :: "user_file_t list" and r where
    r: "show_dir table_server (\<lambda>t. None) ''docs'' ?tok demo = Inr r" "sorted (map uf_file_id ys)"
    and "command_printf (oc_sent r @ []) =
      (map uf_name ys @ [notice_text ListingDone], tr_token (notice_msg (\<lambda>t. None) ListingDone False ?tok), [])"
    by blast
  then have "fst (command_printf (oc_sent r)) = map uf_name ys @ [notice_text ListingDone]" by simp
  with r show ?thesis by blast
qed

subsection \<open>Logging in from the terminal\<close>

definition typed :: "string \<Rightarrow> string" where
  "typed s = s @ [CHR 0x0A]"

lemma chop_typed: "cstr_ok s \<Longrightarrow> length s < 19 \<Longrightarrow> chop (typed s) = Inr s"
  by (simp add: chop_def typed_def buf_text_id Let_def)

lemma word_cstr: "name_ok n \<Longrightarrow> cstr_ok n"
  by (simp add: name_ok_def plain_def)



text \<open>Registration overruns its array: \<^verbatim>\<open>register_client\<close> joins name and password in the name's 20
  characters, so a typed pair is sent as typed when the two have at most 18 characters together, and
  else \<^verbatim>\<open>strcat\<close> writes past the array, although each alone is within bounds.\<close>

theorem registration_message:
  assumes "word n" and "cstr_ok n" and "length n < 19" and "word p" and "cstr_ok p" and "length p < 19"
  shows "register_message (typed n) (typed p) =
    (if length n + length p \<le> 18
     then Inr \<lparr>tr_data = join_words [n, p], tr_length = int (length (join_words [n, p])), tr_command = 0,
       tr_flag = True, tr_token = []\<rparr>
     else Inl OutOfBounds)"
proof -
  have tok: "strtok (typed s) (CHR 0x0A) = Some (s, [])" if "word s" for s
    using that strtok_token(1) [of s "CHR 0x0A" "[]"] by (simp add: word_def typed_def)
  have "takeWhile (\<lambda>c. c = CHR 0x0A) (typed n) = []" using assms(1) by (cases n) (auto simp: word_def typed_def)
  moreover have "buf_text (typed s) = typed s" if "cstr_ok s" for s using that by (simp add: buf_text_id typed_def)
  ultimately show ?thesis
    using assms tok [OF assms(1)] tok [OF assms(4)]
    by (auto simp: register_message_def strcpyR_def Let_def) (simp_all add: typed_def)
qed

lemma registration_message_witness:
  "register_message (typed ''bob'') (typed ''pw'') = Inr \<lparr>tr_data = ''bob pw'', tr_length = 6, tr_command = 0,
      tr_flag = True, tr_token = []\<rparr> \<and>
   register_message (typed ''bobbobbob'') (typed ''0123456789'') = Inl OutOfBounds"
  using registration_message [of "''bob''" "''pw''"] registration_message [of "''bobbobbob''" "''0123456789''"]
  by (simp add: word_def)

subsection \<open>Local files of a transfer\<close>

lemma client_simplify: "path \<noteq> [] \<Longrightarrow> cstr_ok path \<Longrightarrow> client_simplifyPath path = Inr (path_spec path)"
  by (simp add: client_simplifyPath_def simplifyPath_eq_spec)

lemma strtok_words:
  assumes "word c" and "word a" and "word b"
  shows "strtok (join_words [c, a, b]) (CHR '' '') = Some (c, a @ CHR '' '' # b)"
    and "strtok (a @ CHR '' '' # b) (CHR '' '') = Some (a, b)" and "strtok b (CHR 0x0A) = Some (b, [])"
  using assms strtok_token(1) [of c "CHR '' ''" "a @ CHR '' '' # b"] strtok_token(1) [of a "CHR '' ''" b]
    strtok_token(2) [of b "CHR 0x0A"] by (simp_all add: word_def)

text \<open>The file a transfer opens: for paths that fit the buffers, \<^verbatim>\<open>puts\<close> opens the first argument, taken
  below the working directory in canonical form unless it is absolute, and \<^verbatim>\<open>gets\<close> the entry of the
  second argument named like the first one's last component; the name's copy is one character too
  large for the memory asked for, so where the allocator grants no more the client overruns it.\<close>

theorem transfer_opens:
  assumes w: "word c" "word a" "word b" and s: "cstr_ok a" "cstr_ok b" "cstr_ok cwd"
    and len: "length (join_words [c, a, b]) < 256" "length cwd + 260 < 1024"
    and rel: "a ! 0 \<noteq> CHR ''/''" "b ! 0 \<noteq> CHR ''/''"
    and d: "tr_data train = join_words [c, a, b]" "tr_command train = 5 \<or> tr_command train = 6"
  shows "local_path usable cwd train =
    (if usable (length (base_name a) + 1) \<le> length (base_name a) + 1 then Inl OutOfBounds
     else if tr_command train = 5 then Inr (path_spec (cwd @ ''/'' @ a))
     else Inr (path_spec (cwd @ ''/'' @ b @ ''/'' @ base_name a)))"
proof -
  have base: "length (base_name a) \<le> length a"
    by (simp add: base_name_def last_split_on) (metis length_rev length_takeWhile_le)
  have la: "length a < 256" "length a + length b < 256" using len(1) by simp_all
  note fn = client_file_name [of a usable]
  have cb: "cstr_ok (base_name a)"
    using s(1) by (auto simp: base_name_def last_split_on cstr_ok_def dest: set_takeWhileD)
  have ps: "client_simplifyPath (cwd @ ''/'' @ a) = Inr (path_spec (cwd @ ''/'' @ a))"
    "client_simplifyPath (cwd @ ''/'' @ b @ CHR ''/'' # base_name a) =
      Inr (path_spec (cwd @ ''/'' @ b @ CHR ''/'' # base_name a))"
    using s cb by (auto intro!: client_simplify)
  have lp: "length (path_spec (cwd @ ''/'' @ a)) < 1024"
    "length (path_spec (cwd @ ''/'' @ b @ CHR ''/'' # base_name a)) < 1024"
    using length_path_spec [of "cwd @ ''/'' @ a"] length_path_spec [of "cwd @ ''/'' @ b @ CHR ''/'' # base_name a"]
      len(2) la base by auto
  show ?thesis
    using d len w la base fn ps lp rel strtok_words [OF w]
    by (auto simp: local_path_def strcpyR_def)
qed

lemma transfer_opens_witness:
  "local_path (\<lambda>n. n + 8) ''/home/u'' (message_of ''puts ../x.txt d'' 5 []) = Inr (path_spec ''/home/u/../x.txt'') \<and>
   local_path (\<lambda>n. n) ''/home/u'' (message_of ''puts ../x.txt d'' 5 []) = Inl OutOfBounds"
  using transfer_opens [of "''puts''" "''../x.txt''" "''d''" "''/home/u''" "message_of ''puts ../x.txt d'' 5 []" "\<lambda>n. n + 8"]
    transfer_opens [of "''puts''" "''../x.txt''" "''d''" "''/home/u''" "message_of ''puts ../x.txt d'' 5 []" "\<lambda>n. n"]
  by (simp add: word_def message_of_def)

end
