(* ===== verification/StoreProps.thy ===== *)
theory StoreProps
  imports TransferProps Machine
begin

text \<open>
  The store as a whole: the invariant of users, files and entries that all operations of
  \<^verbatim>\<open>server/deal_sql.c\<close> keep, in any order and for any users, and the one request that breaks it.
\<close>

subsection \<open>The invariant\<close>

text \<open>
  Every user's entries form a tree below the root that registration made, every entry has its
  file and belongs to a number already given out, and the world is ready for a request.
\<close>

definition members :: "tables \<Rightarrow> int set" where
  "members t = u_id ` set (t_users t)"

definition sound_tables :: "tables \<Rightarrow> bool" where
  "sound_tables t \<longleftrightarrow> tables_ok t \<and> linked t \<and> (\<forall>e\<in>set (t_entries t). uf_user_id e < t_next_user t) \<and>
     (\<forall>u\<in>members t. user_tree u t)"

definition sound_store :: "('d \<Rightarrow> sql_state) \<Rightarrow> 'd world \<Rightarrow> bool" where
  "sound_store st w \<longleftrightarrow> ready st w \<and> sound_tables (tabs st w)"

text \<open>The operations with their arguments; the user's number comes from the token.\<close>

datatype store_op =
    Register string string
  | Cd int string
  | Ls int string
  | Ll int string
  | Mkdir int string string
  | Puts int string string string
  | Gets int string string
  | Complete string
  | Remove int string string

fun run_op :: "'d mysql \<Rightarrow> (string \<Rightarrow> string) \<Rightarrow> store_op \<Rightarrow> 'd world \<Rightarrow> 'd world res" where
  "run_op M encrypt (Register n pw) w = bindR (user_register M encrypt n pw w) (\<lambda>(_, w). Inr w)"
| "run_op M encrypt (Cd u p) w = bindR (query_cd M p u w) (\<lambda>(_, w). Inr w)"
| "run_op M encrypt (Ls u p) w = bindR (query_ls M p u w) (\<lambda>(_, w). Inr w)"
| "run_op M encrypt (Ll u p) w = bindR (query_ll M p u w) (\<lambda>(_, w). Inr w)"
| "run_op M encrypt (Mkdir u p n) w = bindR (query_mkdir M p n u w) (\<lambda>(_, w). Inr w)"
| "run_op M encrypt (Puts u p n h) w = bindR (query_puts M p n h u w) (\<lambda>(_, w). Inr w)"
| "run_op M encrypt (Gets u p n) w = bindR (query_gets M p n u w) (\<lambda>(_, _, w). Inr w)"
| "run_op M encrypt (Complete h) w = bindR (query_update M h w) (\<lambda>(_, w). Inr w)"
| "run_op M encrypt (Remove u p n) w = bindR (query_remove M p n u w) (\<lambda>(_, w). Inr w)"

text \<open>
  Content the server knows may be linked into a user's tree when its number comes after the
  user's root and is not that of the directory itself.
\<close>

definition link_fits :: "(string \<Rightarrow> string \<Rightarrow> bool) \<Rightarrow> tables \<Rightarrow> int \<Rightarrow> int \<Rightarrow> string \<Rightarrow> bool" where
  "link_fits eq t uid d h \<longleftrightarrow> (\<forall>f\<in>set (t_files t). has_hash eq h f \<longrightarrow> f_id f \<noteq> d \<and>
     (\<forall>e\<in>set (user_entries uid t). uf_parent_id e = 0 \<longrightarrow> uf_file_id e < f_id f))"

fun allowed_op :: "(string \<Rightarrow> string \<Rightarrow> bool) \<Rightarrow> (string \<Rightarrow> string) \<Rightarrow> tables \<Rightarrow> store_op \<Rightarrow> bool" where
  "allowed_op eq encrypt t (Register n pw) \<longleftrightarrow> room t \<and> name_ok n \<and> length n < 30 \<and>
     plain (encrypt pw) \<and> length (encrypt pw) < 62 \<and> \<not> account_taken eq t n"
| "allowed_op eq encrypt t (Cd u p) \<longleftrightarrow> u \<in> members t \<and> p \<noteq> []"
| "allowed_op eq encrypt t (Ls u p) \<longleftrightarrow> u \<in> members t \<and> p \<noteq> []"
| "allowed_op eq encrypt t (Ll u p) \<longleftrightarrow> u \<in> members t \<and> p \<noteq> []"
| "allowed_op eq encrypt t (Mkdir u p n) \<longleftrightarrow> room t \<and> u \<in> members t \<and> p \<noteq> [] \<and> name_ok n"
| "allowed_op eq encrypt t (Puts u p n h) \<longleftrightarrow> room t \<and> u \<in> members t \<and> p \<noteq> [] \<and> name_ok n \<and>
     name_ok h \<and> h \<noteq> [] \<and> link_fits eq t u (resolve_dir t u p) h"
| "allowed_op eq encrypt t (Gets u p n) \<longleftrightarrow> u \<in> members t \<and> p \<noteq> [] \<and> name_ok n"
| "allowed_op eq encrypt t (Complete h) \<longleftrightarrow> name_ok h \<and> h \<noteq> []"
| "allowed_op eq encrypt t (Remove u p n) \<longleftrightarrow> u \<in> members t \<and> p \<noteq> [] \<and> name_ok n"

subsection \<open>Growing and shrinking one tree\<close>

lemma entries_ok_snoc:
  assumes "entries_ok es" and "child es (uf_parent_id e) (uf_name e) = None"
    and "0 < uf_file_id e" "uf_file_id e < 2 ^ 31" "0 \<le> uf_parent_id e" "uf_parent_id e < 2 ^ 31"
    and "uf_parent_id e \<noteq> uf_file_id e"
  shows "entries_ok (es @ [e])"
  using assms by (auto simp: entries_ok_def child_def find_None_iff)

lemma rooted_snoc:
  assumes "rooted es" and "\<forall>x\<in>set es. uf_parent_id x = 0 \<longrightarrow> uf_file_id x < uf_file_id e"
  shows "rooted (es @ [e])"
proof -
  from assms(1) obtain r where r: "r \<in> set es" "uf_parent_id r = 0"
    "\<forall>e\<in>set es. e \<noteq> r \<longrightarrow> uf_file_id r < uf_file_id e" by (auto simp: rooted_def)
  with assms(2) show ?thesis unfolding rooted_def by (intro bexI [of _ r]) auto
qed

lemma user_entries_link:
  "user_entries u (with_link uid d n i t) = user_entries u t @
     (if u = uid then [new_entry (t_next_entry t) n uid i d] else [])"
  by (simp add: user_entries_def with_link_def add_entry_def new_entry_def)

lemma user_entries_fields:
  "t_entries t' = t_entries t \<Longrightarrow> user_entries u t' = user_entries u t"
  by (simp add: user_entries_def)

lemma user_tree_entries:
  "user_entries u t' = user_entries u t \<Longrightarrow> user_tree u t \<Longrightarrow> user_tree u t'"
  by (simp add: user_tree_def)

text \<open>A new entry in a directory of the user, for a file after the root.\<close>

lemma user_tree_link:
  assumes tree: "user_tree u t" "user_tree uid t" and d: "d = resolve_dir t uid path" "d \<noteq> 0"
    and free: "\<not> name_taken eq t d n" "\<And>s. eq s s"
    and i: "0 < i" "i < 2 ^ 31" "i \<noteq> d"
    and after: "\<forall>e\<in>set (user_entries uid t). uf_parent_id e = 0 \<longrightarrow> uf_file_id e < i"
  shows "user_tree u (with_link uid d n i t)"
proof (cases "u = uid")
  case False
  with tree(1) show ?thesis by (simp add: user_tree_def user_entries_link)
next
  case True
  let ?e = "new_entry (t_next_entry t) n uid i d"
  have "0 \<le> d" "d < 2 ^ 31" using resolve_dir_range [OF tree(2), of path] by (simp_all add: d)
  then have "entries_ok (user_entries uid t @ [?e])"
    using tree(2) not_taken_child [OF free d(2)] i
    by (intro entries_ok_snoc) (simp_all add: new_entry_def user_tree_def)
  moreover have "rooted (user_entries uid t @ [?e])"
    using tree(2) after by (intro rooted_snoc) (simp_all add: new_entry_def user_tree_def)
  ultimately show ?thesis using tree True by (simp add: user_tree_def user_entries_link)
qed

text \<open>A removal never takes the root: what it takes is also in a directory.\<close>

lemma user_tree_without:
  assumes tree: "user_tree u t" "user_tree uid t" and e: "removable like t uid d n e" and d: "d \<noteq> 0"
  shows "user_tree u (without (uf_file_id e) uid t)"
proof (cases "u = uid")
  case False
  then have "user_entries u (without (uf_file_id e) uid t) = user_entries u t"
    by (auto simp: user_entries_def without_def intro: filter_cong)
  with tree(1) show ?thesis by (simp add: user_tree_def)
next
  case True
  let ?es = "user_entries uid t" and ?P = "\<lambda>x. uf_file_id x \<noteq> uf_file_id e"
  have es: "user_entries uid (without (uf_file_id e) uid t) = filter ?P ?es"
    by (auto simp: user_entries_def without_def intro: filter_cong)
  have "entries_ok (filter ?P ?es)"
    using tree(2) by (auto simp: user_tree_def entries_ok_def list_all_iff distinct_map_filter)
  moreover have "rooted (filter ?P ?es)"
  proof -
    from tree(2) obtain r where r: "r \<in> set ?es" "uf_parent_id r = 0"
      "\<forall>e\<in>set ?es. e \<noteq> r \<longrightarrow> uf_file_id r < uf_file_id e" by (auto simp: user_tree_def rooted_def)
    from e obtain x where "x \<in> set ?es" "uf_file_id x = uf_file_id e" "uf_parent_id x = d"
      by (auto simp: removable_def user_entries_def at_parent_def)
    with r d have "uf_file_id r < uf_file_id e" by metis
    with r show ?thesis unfolding rooted_def by (intro bexI [of _ r]) auto
  qed
  ultimately show ?thesis using tree True by (simp add: user_tree_def es)
qed

subsection \<open>Each change of the tables keeps them sound\<close>

lemma sound_tablesD:
  assumes "sound_tables t"
  shows "tables_ok t" and "linked t" and "u \<in> members t \<Longrightarrow> user_tree u t"
    and "e \<in> set (t_entries t) \<Longrightarrow> uf_user_id e < t_next_user t"
    and "e \<in> set (t_entries t) \<Longrightarrow> uf_file_id e < t_next_file t"
    and "u \<in> members t \<Longrightarrow> u < t_next_user t"
  using assms by (auto simp: sound_tables_def tables_ok_def members_def list_all_iff)

lemma user_entries_add_file [simp]: "user_entries u (fst (add_file ty h b t)) = user_entries u t"
  by (rule user_entries_fields) (simp add: add_file_def)

lemma members_add [simp]:
  "members (fst (add_file ty h b t)) = members t" "members (fst (add_entry n uid i d t)) = members t"
  "members (with_link uid d n i t) = members t"
  "members (without fid uid t) = members t" "members (completed eq h t) = members t"
  by (simp_all add: members_def add_file_def with_link_def add_entry_def without_def completed_def)

lemma sound_add_file:
  assumes s: "sound_tables t" and "t_next_file t < 2 ^ 31" and "length h < 255" and "ty = 0 \<or> ty = 1"
  shows "sound_tables (fst (add_file ty h b t))"
proof -
  have "tables_ok (fst (add_file ty h b t))"
    using assms by (auto simp: sound_tables_def tables_ok_def add_file_def new_file_def file_ok_def ulong_def
        list_all_iff)
  moreover have "linked (fst (add_file ty h b t))"
    using s by (auto simp: sound_tables_def linked_def add_file_def)
  moreover have "t_next_user (fst (add_file ty h b t)) = t_next_user t" by (simp add: add_file_def)
  ultimately show ?thesis
    using s user_tree_entries [OF user_entries_add_file] by (simp add: sound_tables_def)
qed

lemma tables_ok_with_link:
  assumes "tables_ok t" and "t_next_entry t < 2 ^ 31" and "name_ok n" and "ulong uid" and "ulong d"
    and "f \<in> set (t_files t)"
  shows "tables_ok (with_link uid d n (f_id f) t)"
  using assms tables_ids(2) [OF assms(1,6)]
  by (auto simp: tables_ok_def with_link_def add_entry_def new_entry_def userfile_ok_def name_ok_def
      ulong_def list_all_iff)

lemma sound_link:
  assumes s: "sound_tables t" and rm: "t_next_entry t < 2 ^ 31" and u: "uid \<in> members t"
    and d: "d = resolve_dir t uid path" "d \<noteq> 0"
    and free: "\<not> name_taken eq t d n" "\<And>s. eq s s" and n: "name_ok n"
    and f: "f \<in> set (t_files t)" "f_id f \<noteq> d"
    and after: "\<forall>e\<in>set (user_entries uid t). uf_parent_id e = 0 \<longrightarrow> uf_file_id e < f_id f"
  shows "sound_tables (with_link uid d n (f_id f) t)"
proof -
  let ?t' = "with_link uid d n (f_id f) t"
  note t = sound_tablesD [OF s]
  have tree: "user_tree uid t" using t(3) u by blast
  note id = tables_ids(2) [OF t(1) f(1)]
  have entries: "t_entries ?t' = t_entries t @ [new_entry (t_next_entry t) n uid (f_id f) d]"
    by (simp add: with_link_def add_entry_def)
  have "tables_ok ?t'"
    using tables_ok_with_link [OF t(1) rm n _ _ f(1)] dir_ulong [OF tree, of path] by (simp add: d(1))
  moreover have "linked ?t'"
    using t(2) f(1) by (auto simp: linked_def entries new_entry_def) (auto simp: with_link_def add_entry_def)
  moreover have "\<forall>e\<in>set (t_entries ?t'). uf_user_id e < t_next_user ?t'"
    using t(4) t(6) [OF u] by (auto simp: entries new_entry_def) (auto simp: with_link_def add_entry_def)
  moreover have "\<forall>v\<in>members ?t'. user_tree v ?t'"
    using user_tree_link [OF _ tree d free _ _ f(2) after] id t(3) by simp
  ultimately show ?thesis by (simp add: sound_tables_def)
qed

text \<open>A new file or directory, in one transaction with its entry.\<close>

lemma sound_new:
  assumes s: "sound_tables t" and rm: "room t" and u: "uid \<in> members t"
    and d: "d = resolve_dir t uid path" "d \<noteq> 0"
    and free: "\<not> name_taken eq t d n" "\<And>s. eq s s" and n: "name_ok n"
    and h: "length h < 255" "ty = 0 \<or> ty = 1"
  shows "sound_tables (with_link uid d n (t_next_file t) (fst (add_file ty h b t)))"
proof -
  let ?t = "fst (add_file ty h b t)" and ?f = "new_file (t_next_file t) ty h b"
  have r: "t_next_file t < 2 ^ 31" "t_next_entry t < 2 ^ 31" using rm by (simp_all add: room_def)
  have d': "d = resolve_dir ?t uid path" by (simp add: d(1) resolve_dir_def)
  have "\<not> name_taken eq ?t d n" using free(1) by (simp add: name_taken_def)
  moreover have "?f \<in> set (t_files ?t)" "f_id ?f = t_next_file t" by (simp_all add: add_file_def new_file_def)
  moreover have "t_next_file t \<noteq> d"
    using resolve_below_next [OF sound_tablesD(1) [OF s]] d by (metis less_irrefl)
  moreover have "\<forall>e\<in>set (user_entries uid ?t). uf_parent_id e = 0 \<longrightarrow> uf_file_id e < t_next_file t"
    using sound_tablesD(5) [OF s] by (simp add: user_entries_def add_file_def)
  ultimately show ?thesis
    using sound_link [where eq = eq and f = ?f, OF sound_add_file [OF s r(1) h, of b] _ _ d' d(2) _ free(2) n]
      r(2) u by simp
qed

lemma sound_without:
  assumes s: "sound_tables t" and u: "uid \<in> members t" and e: "removable like t uid d n e" and d: "d \<noteq> 0"
  shows "sound_tables (without (uf_file_id e) uid t)"
proof -
  note t = sound_tablesD [OF s]
  have sub: "set (t_entries (without (uf_file_id e) uid t)) \<subseteq> set (t_entries t)"
    and same: "t_next_user (without (uf_file_id e) uid t) = t_next_user t"
      "t_files (without (uf_file_id e) uid t) = t_files t"
    by (auto simp: without_def)
  have "tables_ok (without (uf_file_id e) uid t)" using t(1) by (auto simp: tables_ok_def without_def list_all_iff)
  moreover have "\<forall>v\<in>members t. user_tree v (without (uf_file_id e) uid t)"
    using user_tree_without [OF _ t(3) [OF u] e d] t(3) by blast
  ultimately show ?thesis
    using t(2,4) sub by (auto simp: sound_tables_def linked_def same)
qed

lemma sound_completed: "sound_tables t \<Longrightarrow> sound_tables (completed eq h t)"
proof -
  assume s: "sound_tables t"
  have "\<exists>x\<in>set (t_files (completed eq h t)). f_id x = f_id f" if "f \<in> set (t_files t)" for f
    by (rule bexI [of _ "if has_hash eq h f then f\<lparr>f_complete := True\<rparr> else f"])
      (use that in \<open>auto simp: completed_def\<close>)
  moreover have "t_entries (completed eq h t) = t_entries t" by (simp add: completed_def)
  ultimately have "linked (completed eq h t)" using sound_tablesD(2) [OF s] unfolding linked_def by metis
  then show ?thesis
    using s tables_ok_completed [of t eq h] user_tree_entries [OF user_entries_completed]
    by (auto simp: sound_tables_def) (auto simp: completed_def)
qed

lemma sound_account:
  assumes s: "sound_tables t" and rm: "room t" and n: "length n < 30" and p: "length p < 62"
  shows "sound_tables (with_account n p t)"
proof -
  let ?i = "t_next_user t" and ?j = "t_next_file t"
  let ?r = "new_entry (t_next_entry t) n ?i ?j 0" and ?t' = "with_account n p t"
  note t = sound_tablesD [OF s]
  have entries: "t_entries ?t' = t_entries t @ [?r]" and users: "members ?t' = insert ?i (members t)"
    and nu: "t_next_user ?t' = ?i + 1"
    by (auto simp: with_account_def add_entry_def add_file_def members_def)
  have pos: "0 < ?i" "0 < ?j" "?i < 2 ^ 31" "?j < 2 ^ 31"
    using t(1) rm by (auto simp: tables_ok_def room_def)
  have "tables_ok ?t'"
    using t(1) rm n p
    by (auto simp: tables_ok_def with_account_def add_entry_def add_file_def new_entry_def new_file_def room_def
        file_ok_def userfile_ok_def user_ok_def ulong_def list_all_iff)
  moreover have "linked ?t'"
    using t(2) by (auto simp: linked_def entries new_entry_def)
      (auto simp: with_account_def add_entry_def add_file_def new_file_def)
  moreover have "\<forall>e\<in>set (t_entries ?t'). uf_user_id e < t_next_user ?t'"
    using t(4) by (force simp: entries nu new_entry_def)
  moreover have "user_tree v ?t'" if "v \<in> members ?t'" for v
  proof (cases "v = ?i")
    case True
    have "user_entries v ?t' = [?r]"
      using t(4) by (force simp: user_entries_def entries True new_entry_def filter_empty_conv)
    with True pos show ?thesis
      by (simp add: user_tree_def entries_ok_def rooted_def new_entry_def ulong_def)
  next
    case False
    then have "user_entries v ?t' = user_entries v t" by (simp add: user_entries_def entries new_entry_def)
    with t(3) [of v] that False show ?thesis by (simp add: user_tree_def users)
  qed
  ultimately show ?thesis by (simp add: sound_tables_def)
qed

subsection \<open>The operations on a sound store\<close>

lemma query_ll_spec:
  assumes srv: "sql_server eq like M st" and rdy: "ready st w" and path: "path \<noteq> []"
    and tree: "user_tree uid (tabs st w)"
  defines "t \<equiv> tabs st w" and "d \<equiv> resolve_dir (tabs st w) uid path"
  shows "\<exists>w' res. query_ll M path uid w = Inr (res, w') \<and> leaves st w w' t \<and>
    (if d = 0 then res = None
     else \<exists>ys. res = Some ys \<and> sorted (map f_id ys) \<and>
       mset ys = mset (filter (\<lambda>f. f_id f \<in> ids_under d t \<and> f_complete f) (t_files t)))"
proof -
  from enter_dir [OF srv rdy path tree, folded d_def, folded t_def] obtain w' c v where
    cd: "query_cd M path uid w = Inr (d, w')" "leaves st w w' t" and "connect_unchecked w' = Inr (c, v)"
    and con: "connect w' = Inr (Some c, v)"
    and ins: "inside st w c v" and v: "tabs st v = t" "modes st v = modes st w" .
  have d: "0 \<le> d" "ulong d" and tok: "tables_ok t" and none: "manual st w = (\<lambda>c. False)"
    using resolve_dir_range [OF tree] dir_ulong [OF tree, of path] rdy by (simp_all add: d_def ready_def t_def)
  let ?q = "ListDirFiles d"
  have ok: "stmt_ok ?q" using d by (intro stmt_okI) (simp_all add: arg_ok_def arg_len_def)
  obtain rows where a: "answers eq like ?q t rows"
    and f: "fetch M c convert_to_file (send_stmt M c ?q v) = get_result_set (Some rows) convert_to_file"
    and l: "tabs st (send_stmt M c ?q v) = t" "modes st (send_stmt M c ?q v) = modes st w"
    using select_rows [OF srv ok, of v c convert_to_file] v none by auto
  then obtain ys where ys: "mset ys = mset (filter (\<lambda>f. f_id f \<in> ids_under d t \<and> f_complete f) (t_files t))"
    "sorted (map f_id ys)" "rows = map row_of_file ys" by (auto simp: order_by_def)
  have "set ys \<subseteq> set (t_files t)" using set_mset_filter [OF ys(1)] by auto
  then have "get_result_set (Some rows) convert_to_file = Inr ys"
    using tables_files_ok [OF tok] by (simp add: ys(3) get_files)
  with cd con f d(1) ins l ys show ?thesis
    by (cases "d = 0") (auto simp: query_ll_def inside_def leaves_def simp flip: t_def)
qed

definition keeps :: "('d \<Rightarrow> sql_state) \<Rightarrow> 'd world \<Rightarrow> 'd world \<Rightarrow> bool" where
  "keeps st w w' \<longleftrightarrow> sound_store st w' \<and> w_pool w' = w_pool w"

lemma keepsI: "sound_store st w \<Longrightarrow> leaves st w w' t \<Longrightarrow> sound_tables t \<Longrightarrow> keeps st w w'"
  using sound_tablesD(1) ready_leaves unfolding keeps_def sound_store_def leaves_def by metis

lemma keeps_same: "sound_store st w \<Longrightarrow> leaves st w w' (tabs st w) \<Longrightarrow> keeps st w w'"
  by (rule keepsI) (auto simp: sound_store_def)

lemma sound_storeD:
  assumes "sound_store st w"
  shows "ready st w" and "sound_tables (tabs st w)" and "linked (tabs st w)"
    and "u \<in> members (tabs st w) \<Longrightarrow> user_tree u (tabs st w)"
  using assms sound_tablesD(2,3) by (auto simp: sound_store_def)

lemma keeps_mkdir:
  assumes srv: "sql_server eq like M st" and s: "sound_store st w"
    and a: "allowed_op eq encrypt (tabs st w) (Mkdir u p n)"
  shows "\<exists>r w'. query_mkdir M p n u w = Inr (r, w') \<and> keeps st w w'"
proof -
  let ?t = "tabs st w" and ?d = "resolve_dir (tabs st w) u p"
  have refl: "\<And>s. eq s s" using srv by (simp add: sql_server_def)
  have u: "u \<in> members ?t" and n: "name_ok n" and rm: "room ?t" and p: "p \<noteq> []" using a by simp_all
  from query_mkdir_spec [OF srv sound_storeD(1) [OF s] p sound_storeD(4) [OF s u] n rm] obtain r w' where
    run: "query_mkdir M p n u w = Inr (r, w')"
    and lv: "leaves st w w' (if ?d = 0 \<or> name_taken eq ?t ?d n then ?t else with_dir u ?d n ?t)" by blast
  have "sound_tables (with_dir u ?d n ?t)" if "?d \<noteq> 0" "\<not> name_taken eq ?t ?d n"
    using sound_new [where eq = eq, OF sound_storeD(2) [OF s] rm u HOL.refl that refl n, of "[]" 0 True]
    by (simp add: with_dir_def with_link_def)
  with lv sound_storeD(2) [OF s] have "keeps st w w'" by (intro keepsI [OF s lv]) auto
  with run show ?thesis by blast
qed

lemma keeps_puts:
  assumes srv: "sql_server eq like M st" and s: "sound_store st w"
    and a: "allowed_op eq encrypt (tabs st w) (Puts u p n h)"
  shows "\<exists>r w'. query_puts M p n h u w = Inr (r, w') \<and> keeps st w w'"
proof -
  let ?t = "tabs st w" and ?d = "resolve_dir (tabs st w) u p"
  have refl: "\<And>s. eq s s" using srv by (simp add: sql_server_def)
  have u: "u \<in> members ?t" and n: "name_ok n" and h: "name_ok h" "h \<noteq> []" and rm: "room ?t" and p: "p \<noteq> []"
    and fits: "link_fits eq ?t u ?d h" using a by simp_all
  note st = sound_storeD(2) [OF s]
  from query_puts_spec [OF srv sound_storeD(1) [OF s] p sound_storeD(4) [OF s u] n h rm sound_storeD(3) [OF s]]
  obtain r w' t' where run: "query_puts M p n h u w = Inr (r, w')"
    and post: "puts_post eq ?t u ?d n h r t'" and lv: "leaves st w w' t'" by blast
  consider "t' = ?t" | f where "?d \<noteq> 0" "\<not> name_taken eq ?t ?d n" "f \<in> set (t_files ?t)" "has_hash eq h f"
      "t' = with_link u ?d n (f_id f) ?t"
    | "?d \<noteq> 0" "\<not> name_taken eq ?t ?d n" "t' = with_file u ?d n h ?t"
    using post by (auto simp: puts_post_def split: if_splits)
  then have "sound_tables t'"
  proof cases
    case 1
    with st show ?thesis by simp
  next
    case (2 f)
    with fits have "f_id f \<noteq> ?d"
      "\<forall>e\<in>set (user_entries u ?t). uf_parent_id e = 0 \<longrightarrow> uf_file_id e < f_id f"
      by (auto simp: link_fits_def)
    with sound_link [where eq = eq, OF st _ u HOL.refl 2(1,2) refl n 2(3)] rm 2(5) show ?thesis
      by (simp add: room_def)
  next
    case 3
    with sound_new [where eq = eq, OF st rm u HOL.refl 3(1,2) refl n, of h 1 False] h show ?thesis
      by (simp add: with_file_def name_ok_def)
  qed
  with run keepsI [OF s lv] show ?thesis by blast
qed

lemma keeps_remove:
  assumes srv: "sql_server eq like M st" and s: "sound_store st w"
    and a: "allowed_op eq encrypt (tabs st w) (Remove u p n)"
  shows "\<exists>r w'. query_remove M p n u w = Inr (r, w') \<and> keeps st w w'"
proof -
  let ?t = "tabs st w" and ?d = "resolve_dir (tabs st w) u p"
  have u: "u \<in> members ?t" and n: "name_ok n" and p: "p \<noteq> []" using a by simp_all
  from query_remove_spec [OF srv sound_storeD(1) [OF s] p sound_storeD(4) [OF s u] n sound_storeD(3) [OF s]]
  obtain r w' t' where run: "query_remove M p n u w = Inr (r, w')"
    and post: "remove_post like ?t u ?d n r t'" and lv: "leaves st w w' t'" by blast
  consider "t' = ?t" | e where "?d \<noteq> 0" "removable like ?t u ?d n e" "t' = without (uf_file_id e) u ?t"
    using post by (auto simp: remove_post_def split: if_splits)
  then have "sound_tables t'"
    by cases (use sound_storeD(2) [OF s] sound_without [OF sound_storeD(2) [OF s] u] in auto)
  with run keepsI [OF s lv] show ?thesis by blast
qed

lemma keeps_lookup:
  assumes srv: "sql_server eq like M st" and s: "sound_store st w" and u: "u \<in> members (tabs st w)"
    and p: "p \<noteq> []"
  shows "\<exists>r w'. query_cd M p u w = Inr (r, w') \<and> keeps st w w'"
    and "\<exists>r w'. query_ls M p u w = Inr (r, w') \<and> keeps st w w'"
    and "\<exists>r w'. query_ll M p u w = Inr (r, w') \<and> keeps st w w'"
    and "name_ok n \<Longrightarrow> \<exists>r h w'. query_gets M p n u w = Inr (r, h, w') \<and> keeps st w w'"
  using query_cd_spec [OF srv sound_storeD(1) [OF s] p sound_storeD(4) [OF s u]]
    query_ls_spec [OF srv sound_storeD(1) [OF s] p sound_storeD(4) [OF s u]]
    query_ll_spec [OF srv sound_storeD(1) [OF s] p sound_storeD(4) [OF s u]]
    query_gets_spec [OF srv sound_storeD(1) [OF s] p sound_storeD(4) [OF s u], of n]
    keeps_same [OF s]
  by blast+

lemma keeps_register:
  assumes srv: "sql_server eq like M st" and s: "sound_store st w"
    and a: "allowed_op eq encrypt (tabs st w) (Register n pw)"
  shows "\<exists>r w'. user_register M encrypt n pw w = Inr (r, w') \<and> keeps st w w'"
proof -
  let ?t = "tabs st w"
  have man: "manual st w = (\<lambda>c. False)" using sound_storeD(1) [OF s] by (simp add: ready_def)
  from user_register_spec [where encrypt = encrypt, OF srv sound_storeD(1) [OF s], of n pw] a obtain r w' where
    run: "user_register M encrypt n pw w = Inr (r, w')" and lv: "leaves st w w' (with_account n (encrypt pw) ?t)"
    using man by (auto simp: leaves_def)
  moreover have "sound_tables (with_account n (encrypt pw) ?t)"
    using sound_account [OF sound_storeD(2) [OF s]] a by simp
  ultimately show ?thesis using keepsI [OF s lv] by blast
qed

text \<open>One operation, whichever it is.\<close>

lemma run_op_keeps:
  assumes "sql_server eq like M st" and "sound_store st w" and "allowed_op eq encrypt (tabs st w) op"
  shows "\<exists>w'. run_op M encrypt op w = Inr w' \<and> keeps st w w'"
proof -
  note keep = keeps_register [OF assms(1,2)] keeps_mkdir [OF assms(1,2)] keeps_puts [OF assms(1,2)]
    keeps_remove [OF assms(1,2)]
  show ?thesis
  proof (cases op)
    case (Register n pw)
    with keep(1) assms(3) show ?thesis by fastforce
  next
    case (Mkdir u p n)
    with keep(2) assms(3) show ?thesis by fastforce
  next
    case (Puts u p n h)
    with keep(3) assms(3) show ?thesis by fastforce
  next
    case (Remove u p n)
    with keep(4) assms(3) show ?thesis by fastforce
  next
    case (Complete h)
    with assms(3) query_update_spec [OF assms(1) sound_storeD(1) [OF assms(2)], of h] obtain w' where
      "query_update M h w = Inr (0, w')" "leaves st w w' (completed eq h (tabs st w))" by auto
    with Complete keepsI [OF assms(2) _ sound_completed [OF sound_storeD(2) [OF assms(2)]]] show ?thesis by auto
  qed (use assms(3) keeps_lookup [OF assms(1,2)] in fastforce)+
qed

text \<open>
  So for every database server the operations are a machine that never faults; the given server
  \<open>table_server\<close> is one.
\<close>

definition op_ok :: "(string \<Rightarrow> string \<Rightarrow> bool) \<Rightarrow> (string \<Rightarrow> string) \<Rightarrow> ('d \<Rightarrow> sql_state) \<Rightarrow>
    store_op \<Rightarrow> 'd world \<Rightarrow> bool" where
  "op_ok eq encrypt st op w \<longleftrightarrow> allowed_op eq encrypt (tabs st w) op"

lemma store_machine:
  assumes "sql_server eq like M st"
  shows "safe_machine (op_ok eq encrypt st) (run_op M encrypt)
    (\<lambda>w. sound_store st w \<and> w_pool w = p)"
proof (unfold_locales, goal_cases)
  case (1 w op w')
  with run_op_keeps [OF assms, of w encrypt op] show ?case by (auto simp: keeps_def op_ok_def)
next
  case (2 w op)
  with run_op_keeps [OF assms, of w encrypt op] show ?case by (auto simp: op_ok_def)
qed

interpretation given_store: safe_machine "op_ok (=) encrypt (\<lambda>s. s)" "run_op table_server encrypt"
  "\<lambda>w. sound_store (\<lambda>s. s) w \<and> w_pool w = p" for encrypt p
  by (rule store_machine [OF table_server_ok])

subsection \<open>Properties\<close>

text \<open>C7: the operations of \<^verbatim>\<open>deal_sql.c\<close> are safe on a sound store, in any order and whoever calls them: from a
  store in which every account has its tree, every entry its file and the pool a free connection, each
  sequence of operations (registration of a free name, \<^verbatim>\<open>cd\<close>, \<^verbatim>\<open>ls\<close>, \<^verbatim>\<open>ll\<close>, \<^verbatim>\<open>mkdir\<close>, \<^verbatim>\<open>puts\<close>, \<^verbatim>\<open>gets\<close>,
  the completion mark, \<^verbatim>\<open>rm\<close>) that are allowed when their turn comes returns without a fault, gives
  all connections back, and leaves a sound store for all accounts, the new ones included.\<close>

theorem operations_keep_store:
  assumes "sql_server eq like M st" and "sound_store st w"
    and "admits (op_ok eq encrypt st) (run_op M encrypt) ops w"
  shows "\<exists>w'. run_of (op_ok eq encrypt st) (run_op M encrypt) ops w = Inr w' \<and>
    sound_store st w' \<and> w_pool w' = w_pool w"
  using safe_machine.run_returns [OF store_machine [OF assms(1)] _ assms(3), of "w_pool w"] assms(2) by blast

lemma demo_members: "members demo_tables = {1}"
  by (simp add: members_def demo_tables_def)

lemma demo_sound: "sound_store (\<lambda>s. s) demo"
  using demo_ready demo_tree demo_linked
  by (auto simp: sound_store_def sound_tables_def demo_members ready_def)
    (auto simp: demo_tables_def new_entry_def)

lemma operations_keep_store_witness:
  "(\<exists>w'. run_of (op_ok (=) (\<lambda>p. ''hash'') (\<lambda>s. s)) (run_op table_server (\<lambda>p. ''hash''))
      [Mkdir 1 ''/ann/docs'' ''new'', Remove 1 ''/ann/docs/new'' ''a''] demo = Inr w' \<and> sound_store (\<lambda>s. s) w') \<and>
   (\<exists>w'. run_of (op_ok (=) (\<lambda>p. ''hash'') (\<lambda>s. s)) (run_op table_server (\<lambda>p. ''hash''))
      [Register ''bob'' ''pw''] demo = Inr w' \<and> sound_store (\<lambda>s. s) w')"
proof
  note op = operations_keep_store [OF table_server_ok demo_sound, of "\<lambda>p. ''hash''"]
  from query_mkdir_spec [OF table_server_ok demo_ready, of "''/ann/docs''" 1 "''new''"] obtain w1 where
    w1: "query_mkdir table_server ''/ann/docs'' ''new'' 1 demo = Inr (2, w1)"
    and l: "leaves (\<lambda>s. s) demo w1 (with_dir 1 2 ''new'' demo_tables)"
    using demo_tree demo_dir(1) demo_room by (auto simp: demo_eval)
  then have "members (tabs (\<lambda>s. s) w1) = {1}" by (simp add: leaves_def with_dir_def demo_members)
  with w1 have "admits (op_ok (=) (\<lambda>p. ''hash'') (\<lambda>s. s)) (run_op table_server (\<lambda>p. ''hash''))
      [Mkdir 1 ''/ann/docs'' ''new'', Remove 1 ''/ann/docs/new'' ''a''] demo"
    using demo_members demo_room
    by (simp add: op_ok_def name_ok_def plain_def quote_char_def cstr_ok_def split: sum.split)
  from op [OF this] show "\<exists>w'. run_of (op_ok (=) (\<lambda>p. ''hash'') (\<lambda>s. s)) (run_op table_server (\<lambda>p. ''hash''))
      [Mkdir 1 ''/ann/docs'' ''new'', Remove 1 ''/ann/docs/new'' ''a''] demo = Inr w' \<and> sound_store (\<lambda>s. s) w'"
    by blast
  have "admits (op_ok (=) (\<lambda>p. ''hash'') (\<lambda>s. s)) (run_op table_server (\<lambda>p. ''hash''))
      [Register ''bob'' ''pw''] demo"
    using demo_room by (auto simp: op_ok_def account_taken_def demo_eval split: sum.split simp del: run_op.simps)
  from op [OF this] show "\<exists>w'. run_of (op_ok (=) (\<lambda>p. ''hash'') (\<lambda>s. s)) (run_op table_server (\<lambda>p. ''hash''))
      [Register ''bob'' ''pw''] demo = Inr w' \<and> sound_store (\<lambda>s. s) w'"
    by blast
qed

subsection \<open>Known content with a small number\<close>

text \<open>A scan that starts in a directory without an entry of the first name confirms nothing.\<close>

lemma cd_scan_stuck:
  assumes "\<forall>e\<in>set es. \<not> (uf_parent_id e = c_ulong p \<and> uf_name e = hd ns)" and "ns \<noteq> []"
  shows "cd_scan es ns p 0 = (p, 0)"
  using assms by (induction es) (auto simp: hd_conv_nth)

text \<open>The lookup when the user's first entry is not the root.\<close>

lemma query_cd_stuck:
  assumes srv: "sql_server eq like M st" and rdy: "ready st w" and p: "p \<noteq> []" and uid: "ulong uid"
    and e: "e \<in> set (user_entries uid (tabs st w))" "\<forall>x\<in>set (user_entries uid (tabs st w)). x \<noteq> e \<longrightarrow>
      uf_file_id e < uf_file_id x"
    and d: "uf_parent_id e = d" "0 \<le> d" "d < 2 ^ 31"
    and none: "\<forall>x\<in>set (user_entries uid (tabs st w)).
      \<not> (uf_parent_id x = d \<and> uf_name x = hd (split_slash (tl p)))"
  shows "\<exists>w'. query_cd M p uid w = Inr (0, w')"
proof -
  let ?t = "tabs st w" and ?es = "user_entries uid (tabs st w)" and ?ns = "split_slash (tl p)"
  from rdy obtain c q where con: "connect w = Inr (Some c, w\<lparr>w_pool := q\<rparr>)"
    using connect_ready unfolding ready_def by metis
  let ?w = "w\<lparr>w_pool := q\<rparr>" and ?q = "FilesOfUser uid"
  have ok: "stmt_ok ?q" using uid by (intro stmt_okI) (simp_all add: arg_ok_def arg_len_def)
  have man: "\<forall>c'. c' \<noteq> c \<longrightarrow> \<not> manual st ?w c'" using rdy by (simp add: ready_def)
  obtain rows where a: "answers eq like ?q ?t rows"
    and f: "fetch M c convert_to_userfile (send_stmt M c ?q ?w) = get_result_set (Some rows) convert_to_userfile"
    using select_rows [OF srv ok _ man, of convert_to_userfile] by auto
  then obtain ys where ys: "mset ys = mset ?es" "sorted (map uf_file_id ys)" "rows = map row_of_userfile ys"
    by (auto simp: order_by_def user_entries_def)
  have set: "set ys = set ?es" using ys(1) by (rule mset_eq_setD)
  have sub: "set ys \<subseteq> set (t_entries ?t)" by (auto simp: set user_entries_def)
  have rows: "get_result_set (Some rows) convert_to_userfile = Inr ys"
    using tables_entries_ok [OF _ sub] rdy by (simp add: ys(3) get_userfiles ready_def)
  obtain y zs where yz: "ys = y # zs" using e(1) set by (cases ys) auto
  have "y = e" using e set ys(2) by (fastforce simp: yz)
  moreover have ne: "?ns \<noteq> []" by simp
  moreover have "cd_scan ys ?ns d 0 = (d, 0)"
    using none c_ulong_id [of d] d by (intro cd_scan_stuck [OF _ ne]) (simp add: set)
  ultimately show ?thesis
    using con f rows d splite_file_name_split [OF p] by (auto simp: query_cd_def yz c_int_id)
qed

text \<open>C8: sending content the server already has can cost a user all access: \<^verbatim>\<open>query_puts\<close> links the
  stored file, whose number is older than the user's root, \<^verbatim>\<open>query_cd\<close> starts every lookup in the
  directory of the entry with the smallest number, taking it for the root, and from then on
  every path not beginning with a name of that directory, such as all that worked
  before, is answered as illegal.\<close>

theorem known_content_locks_out:
  assumes "sql_server eq like M st" and "ready st w" and "path \<noteq> []" and "user_tree uid (tabs st w)"
    and "name_ok n" and "name_ok h" and "h \<noteq> []" and "room (tabs st w)" and "linked (tabs st w)"
    and "resolve_dir (tabs st w) uid path \<noteq> 0"
    and "\<not> name_taken eq (tabs st w) (resolve_dir (tabs st w) uid path) n"
    and "f \<in> set (t_files (tabs st w))" and "has_hash eq h f"
    and "\<forall>f\<in>set (t_files (tabs st w)). has_hash eq h f \<longrightarrow>
      (\<forall>e\<in>set (user_entries uid (tabs st w)). f_id f < uf_file_id e)"
    and "p \<noteq> []" and "hd (split_slash (tl p)) \<noteq> n"
    and "\<forall>e\<in>set (user_entries uid (tabs st w)).
      \<not> (uf_parent_id e = resolve_dir (tabs st w) uid path \<and> uf_name e = hd (split_slash (tl p)))"
  shows "\<exists>r w' w''. query_puts M path n h uid w = Inr (r, w') \<and> (r = 1 \<or> r = 2) \<and>
    query_cd M p uid w' = Inr (0, w'')"
proof -
  let ?t = "tabs st w" and ?d = "resolve_dir (tabs st w) uid path"
  have tok: "tables_ok ?t" using assms(2) by (simp add: ready_def)
  note d = resolve_dir_range [OF assms(4), of path] and ud = dir_ulong [OF assms(4), of path]
  from query_puts_spec [OF assms(1-9)] assms(10-13) obtain r w' g where
    run: "query_puts M path n h uid w = Inr (r, w')" "r = 1 \<or> r = 2"
    and g: "g \<in> set (t_files ?t)" "has_hash eq h g"
    and lv: "leaves st w w' (with_link uid ?d n (f_id g) ?t)"
    by (auto simp: puts_post_def split: if_splits)
  let ?e = "new_entry (t_next_entry ?t) n uid (f_id g) ?d"
  have es: "user_entries uid (tabs st w') = user_entries uid ?t @ [?e]"
    using lv by (simp add: leaves_def user_entries_link)
  have "tables_ok (with_link uid ?d n (f_id g) ?t)"
    using tables_ok_with_link [OF tok _ assms(5) _ _ g(1)] assms(8) ud by (simp add: room_def)
  then have rdy: "ready st w'" by (rule ready_leaves [OF assms(2) lv])
  have "\<exists>w''. query_cd M p uid w' = Inr (0, w'')"
    by (rule query_cd_stuck [OF assms(1) rdy assms(15), where e = ?e and d = ?d])
      (use es ud d assms(14,16,17) g in \<open>auto simp: new_entry_def\<close>)
  with run show ?thesis by blast
qed

text \<open>A second account, registered after the file with number 3 was stored.\<close>

definition demo_late :: "sql_state world" where
  "demo_late = demo\<lparr>w_db := (w_db demo)\<lparr>ss_tables := with_account ''bob'' ''p'' demo_tables,
     ss_log := [with_account ''bob'' ''p'' demo_tables]\<rparr>\<rparr>"

lemma demo_late_facts:
  "tabs (\<lambda>s. s) demo_late = with_account ''bob'' ''p'' demo_tables"
  "sound_store (\<lambda>s. s) demo_late"
  "user_entries 2 (with_account ''bob'' ''p'' demo_tables) = [new_entry 5 ''bob'' 2 5 0]"
proof -
  show t: "tabs (\<lambda>s. s) demo_late = with_account ''bob'' ''p'' demo_tables"
    by (simp add: tabs_def demo_late_def)
  have "sound_tables (with_account ''bob'' ''p'' demo_tables)"
    using demo_sound demo_room by (intro sound_account) (simp_all add: sound_store_def)
  then show "sound_store (\<lambda>s. s) demo_late"
    using demo_ready t sound_tablesD(1)
    by (auto simp: sound_store_def ready_def) (simp_all add: demo_late_def manual_def synced_def settled_log_def)
  show "user_entries 2 (with_account ''bob'' ''p'' demo_tables) = [new_entry 5 ''bob'' 2 5 0]"
    by (simp add: user_entries_def with_account_def demo_tables_def add_entry_def add_file_def new_entry_def)
qed

lemma known_content_locks_out_witness:
  "(\<exists>w'. query_cd table_server ''/bob'' 2 demo_late = Inr (5, w')) \<and>
   (\<exists>r w' w''. query_puts table_server ''/bob'' ''x'' ''h3'' 2 demo_late = Inr (r, w') \<and>
      query_cd table_server ''/bob'' 2 w' = Inr (0, w''))"
proof
  let ?t = "with_account ''bob'' ''p'' demo_tables"
  have mem: "2 \<in> members ?t"
    by (simp add: members_def with_account_def add_entry_def add_file_def demo_tables_def)
  have res: "resolve_dir ?t 2 ''/bob'' = 5"
    by (simp add: resolve_dir_def demo_late_facts child_def new_entry_def)
  note s = sound_storeD [OF demo_late_facts(2), unfolded demo_late_facts(1)]
  have tree: "user_tree 2 ?t" by (rule s(4) [OF mem])
  show "\<exists>w'. query_cd table_server ''/bob'' 2 demo_late = Inr (5, w')"
    using query_cd_spec [OF table_server_ok s(1), of "''/bob''" 2] tree res by (auto simp: demo_late_facts(1))
  have files: "t_files ?t = t_files demo_tables @ [new_file 5 0 [] True]" and
    entries: "t_entries ?t = t_entries demo_tables @ [new_entry 5 ''bob'' 2 5 0]"
    by (simp_all add: with_account_def add_entry_def add_file_def demo_tables_def)
  have "room ?t"
    by (simp add: room_def with_account_def add_entry_def add_file_def demo_tables_def)
  moreover have "\<not> name_taken (=) ?t 5 ''x''" unfolding name_taken_def entries by (simp add: demo_eval)
  moreover have "new_file 3 1 ''h3'' True \<in> set (t_files ?t)" "has_hash (=) ''h3'' (new_file 3 1 ''h3'' True)"
    unfolding files by (simp_all add: demo_eval)
  moreover have "\<forall>f\<in>set (t_files ?t). has_hash (=) ''h3'' f \<longrightarrow> f_id f < 5"
    unfolding files by (simp add: demo_eval)
  moreover have "name_ok ''x''" "name_ok ''h3''" by (simp_all add: demo_eval)
  ultimately show "\<exists>r w' w''. query_puts table_server ''/bob'' ''x'' ''h3'' 2 demo_late = Inr (r, w') \<and>
      query_cd table_server ''/bob'' 2 w' = Inr (0, w'')"
    using known_content_locks_out [OF table_server_ok s(1), of "''/bob''" 2 "''x''" "''h3''"
        "new_file 3 1 ''h3'' True" "''/bob''"] tree s(3) res
    by (auto simp: demo_late_facts new_entry_def)
qed

end
