(* ===== verification/DealRace.thy ===== *)
theory DealRace
  imports DirectoryProps Machine
begin

text \<open>
  Two workers in \<^verbatim>\<open>query_mkdir\<close> at once. \<open>DealSql\<close> has an operation of \<^verbatim>\<open>server/deal_sql.c\<close> as one step;
  between its statements the database serves the other workers' connections, and nothing holds the
  answer of the first select until the inserts. Here the operation has two steps, the look for a file
  of the name and the inserts, and any schedule of two workers' steps is a run.
\<close>

subsection \<open>The two halves of \<^verbatim>\<open>query_mkdir\<close>\<close>

text \<open>A worker has its request, has found the name free in directory \<open>d\<close> over connection \<open>c\<close>, or has
  its answer.\<close>

datatype mkdir_pc = Asked | Looked int int | Told int

definition mkdir_look :: "'d mysql \<Rightarrow> string \<Rightarrow> string \<Rightarrow> int \<Rightarrow> 'd world \<Rightarrow> (mkdir_pc \<times> 'd world) res" where
  "mkdir_look M path dir_name user_id w =
     bindR (query_cd M path user_id w) (\<lambda>(cur_dir_id, w).
     if cur_dir_id \<le> 0 then Inr (Told cur_dir_id, w)
     else
       bindR (connect_unchecked w) (\<lambda>(c, w).
       let w = send_stmt M c (EntryNamed cur_dir_id dir_name) w in
       bindR (fetch M c convert_to_userfile w) (\<lambda>query_res.
       if query_res \<noteq> [] then Inr (Told 1, release c w) else Inr (Looked c cur_dir_id, w))))"

definition mkdir_make :: "'d mysql \<Rightarrow> int \<Rightarrow> int \<Rightarrow> string \<Rightarrow> int \<Rightarrow> 'd world \<Rightarrow> mkdir_pc \<times> 'd world" where
  "mkdir_make M c cur_dir_id dir_name user_id w =
     (let w = autocommit M c False w;
          w = send_stmt M c InsDir w;
          dir_id = c_int (insert_id M c w);
          w = send_stmt M c (InsEntry dir_name user_id dir_id cur_dir_id) w;
          w = autocommit M c True (commit M c w)
      in (Told 2, release c w))"

text \<open>A worker that is alone does what \<^verbatim>\<open>query_mkdir\<close> does.\<close>

lemma query_mkdir_halves:
  "query_mkdir M path n uid w =
     bindR (mkdir_look M path n uid w) (\<lambda>(pc, w).
     case pc of
       Looked c d \<Rightarrow> (case mkdir_make M c d n uid w of (pc, w) \<Rightarrow> Inr (case pc of Told r \<Rightarrow> r | _ \<Rightarrow> 0, w))
     | Told r \<Rightarrow> Inr (r, w)
     | Asked \<Rightarrow> Inr (0, w))"
  unfolding query_mkdir_def mkdir_look_def mkdir_make_def bindR_assoc
  by (intro bindR_cong refl)
    (auto simp: bindR_assoc Let_def split: prod.splits intro!: bindR_cong)

record 'd mkdirs =
  mk_pcs :: "mkdir_pc list"
  mk_world :: "'d world"

text \<open>Worker \<open>k\<close> takes its next step.\<close>

definition mkdir_step :: "'d mysql \<Rightarrow> string \<Rightarrow> string \<Rightarrow> int \<Rightarrow> nat \<Rightarrow> 'd mkdirs \<Rightarrow> 'd mkdirs res" where
  "mkdir_step M path n uid k s =
     (case mk_pcs s ! k of
        Asked \<Rightarrow>
          bindR (mkdir_look M path n uid (mk_world s)) (\<lambda>(pc, w).
          Inr (s\<lparr>mk_pcs := (mk_pcs s)[k := pc], mk_world := w\<rparr>))
      | Looked c d \<Rightarrow>
          let (pc, w) = mkdir_make M c d n uid (mk_world s)
          in Inr (s\<lparr>mk_pcs := (mk_pcs s)[k := pc], mk_world := w\<rparr>)
      | Told r \<Rightarrow> Inl Blocked)"

definition mkdir_ok :: "nat \<Rightarrow> 'd mkdirs \<Rightarrow> bool" where
  "mkdir_ok k s \<longleftrightarrow> k < length (mk_pcs s)"

subsection \<open>What the halves do\<close>

text \<open>A world between the steps: given tables, automatic commits, the connections \<open>U\<close> in use.\<close>

definition between :: "('d \<Rightarrow> sql_state) \<Rightarrow> tables \<Rightarrow> int set \<Rightarrow> 'd world \<Rightarrow> bool" where
  "between st t U w \<longleftrightarrow> tabs st w = t \<and> manual st w = (\<lambda>c. False) \<and> synced st w \<and>
     pool_ok (w_pool w) \<and> pool_used (w_pool w) = U"

text \<open>A directory to make: the path leads to \<open>d\<close>, the user's part of the tables is in order.\<close>

definition makeable :: "tables \<Rightarrow> int \<Rightarrow> string \<Rightarrow> string \<Rightarrow> int \<Rightarrow> bool" where
  "makeable t uid path n d \<longleftrightarrow> tables_ok t \<and> user_tree uid t \<and> path \<noteq> [] \<and> name_ok n \<and> resolve_dir t uid path = d \<and>
     d \<noteq> 0"

lemma look_gives:
  assumes srv: "sql_server eq like M st" and w: "between st t U w" "card U < 4" and mk: "makeable t uid path n d"
  shows "if name_taken eq t d n
    then \<exists>w'. mkdir_look M path n uid w = Inr (Told 1, w') \<and> between st t U w'
    else \<exists>c w'. mkdir_look M path n uid w = Inr (Looked c d, w') \<and> c \<notin> U \<and> between st t (insert c U) w'"
proof -
  have avail: "0 < dp_available (w_pool w)" using db.used_avail [of "w_pool w"] w by (auto simp: between_def)
  have rdy: "ready st w" and t: "tabs st w = t" using w mk avail by (simp_all add: ready_def between_def makeable_def)
  have m: "path \<noteq> []" "user_tree uid (tabs st w)" "name_ok n" "resolve_dir t uid path = d" "0 < d"
    using mk t resolve_dir_range [of uid t path] by (auto simp: makeable_def)
  from enter_named [OF srv rdy m(1-3), unfolded t m(4)] obtain w' c v v1 ys where
    cd: "query_cd M path uid w = Inr (d, w')" "leaves st w w' t" and con: "connect_unchecked w' = Inr (c, v)"
    and v1_def: "v1 = send_stmt M c (EntryNamed d n) v" and f: "fetch M c convert_to_userfile v1 = Inr ys"
    and taken: "ys \<noteq> [] \<longleftrightarrow> name_taken eq t d n" and ins: "inside st w c v1"
    and v1: "tabs st v1 = t" "modes st v1 = (\<lambda>c. False, durable st w)"
    .
  have run: "mkdir_look M path n uid w = Inr (if ys \<noteq> [] then (Told 1, release c v1) else (Looked c d, v1))"
    using cd(1) con f m(5) by (simp add: mkdir_look_def Let_def flip: v1_def)
  have pool: "pool_ok (w_pool w)" "pool_used (w_pool w) = U" "w_pool w' = w_pool w"
    using w(1) cd(2) by (simp_all add: between_def leaves_def)
  from db.get_some [OF pool(1) avail] obtain k p where g: "get_connection (w_pool w) = Inr (Some k, p)"
    and p: "k \<notin> U" "pool_ok p" "pool_used p = insert k U" unfolding pool(2) by blast
  have "connect_unchecked w' = Inr (k, w'\<lparr>w_pool := p\<rparr>)" by (simp add: connect_unchecked_def connect_def pool(3) g)
  with con have k: "k = c" and "v = w'\<lparr>w_pool := p\<rparr>" by simp_all
  then have v1_pool: "w_pool v1 = p" by (simp add: v1_def)
  have "c \<notin> U" "pool_ok (w_pool v1)" "pool_used (w_pool v1) = insert c U"
    using p unfolding k v1_pool by simp_all
  moreover have "synced st v1" using v1 w(1) by (simp add: between_def synced_iff)
  moreover have "between st t U (release c v1)"
    using v1 ins pool(1,2) \<open>synced st v1\<close> by (simp add: between_def inside_def)
  ultimately show ?thesis using run taken v1 by (simp add: between_def)
qed

lemma make_gives:
  assumes srv: "sql_server eq like M st" and w: "between st t (insert c U) w" "c \<notin> U"
    and mk: "makeable t uid path n d" and rm: "room t"
  shows "\<exists>w'. mkdir_make M c d n uid w = (Told 2, w') \<and> between st (with_dir uid d n t) U w'"
proof -
  have v: "tabs st w = t" "modes st w = (\<lambda>c. False, durable st w)" and L: "durable st w \<noteq> [] \<and> hd (durable st w) = t"
    and ok: "tables_ok t" "name_ok n"
    and pool: "pool_ok (w_pool w)" "pool_used (w_pool w) = insert c U"
    using w mk by (simp_all add: between_def makeable_def synced_iff)
  have ud: "ulong d" "ulong uid" using mk dir_ulong [of uid t path] by (auto simp: makeable_def)
  note ins = mkdir_inserts [OF srv v L ok(1) rm ok(2) ud, of c]
  from db.rel_used [OF pool(1), of c] have "pool_ok (release_connection c (w_pool w))"
    "pool_used (release_connection c (w_pool w)) = U" using pool(2) w(2) by auto
  then show ?thesis
    using ins next_file_ok [OF ok(1) rm] by (auto simp: mkdir_make_def Let_def between_def synced_iff)
qed

text \<open>After the inserts the path leads where it led, and the name is in use.\<close>

lemma made:
  assumes mk: "makeable t uid path n d" and rm: "room t" and refl: "\<And>s. eq s s" and free: "\<not> name_taken eq t d n"
  shows "makeable (with_dir uid d n t) uid path n d" and "name_taken eq (with_dir uid d n t) d n"
proof -
  have t: "tables_ok t" "user_tree uid t" "name_ok n" and d: "resolve_dir t uid path = d" "0 < d" "d < t_next_file t"
    using mk resolve_dir_range [of uid t path] resolve_below_next [of t uid path] by (auto simp: makeable_def)
  have ud: "ulong d" "ulong uid" using mk dir_ulong [of uid t path] by (auto simp: makeable_def)
  have "resolve_dir (with_dir uid d n t) uid path = d"
    using d walk_snoc [of "user_entries uid t" 0 "split_slash (tl path)" d]
    by (auto simp: resolve_dir_def user_entries_with_dir split: option.splits)
  then show "makeable (with_dir uid d n t) uid path n d"
    using mk user_tree_with_dir [OF t(2,1) rm free refl d(2,3)] tables_ok_with_dir [OF t(1) rm t(3) ud(2,1)]
    by (simp add: makeable_def)
  show "name_taken eq (with_dir uid d n t) d n"
    using d(2) refl by (auto simp: name_taken_def with_dir_entries new_entry_def at_parent_def)
qed

lemma made_twice: "\<not> user_tree uid (with_dir uid d n (with_dir uid d n t))"
  by (simp add: user_tree_def entries_ok_def user_entries_with_dir new_entry_def)

subsection \<open>Two workers\<close>

lemma step_asked:
  assumes "mk_pcs s ! k = Asked" and "k < length (mk_pcs s)"
    and "mkdir_look M path n uid (mk_world s) = Inr (pc, w)"
  shows "run_of mkdir_ok (mkdir_step M path n uid) (k # ks) s =
    run_of mkdir_ok (mkdir_step M path n uid) ks (s\<lparr>mk_pcs := (mk_pcs s)[k := pc], mk_world := w\<rparr>)"
  using assms by (simp add: mkdir_step_def mkdir_ok_def)

lemma step_looked:
  assumes "mk_pcs s ! k = Looked c d" and "k < length (mk_pcs s)"
    and "mkdir_make M c d n uid (mk_world s) = (pc, w)"
  shows "run_of mkdir_ok (mkdir_step M path n uid) (k # ks) s =
    run_of mkdir_ok (mkdir_step M path n uid) ks (s\<lparr>mk_pcs := (mk_pcs s)[k := pc], mk_world := w\<rparr>)"
  using assms by (simp add: mkdir_step_def mkdir_ok_def)

text \<open>One after the other, and both looks before the inserts.\<close>

definition two_asked :: "'d world \<Rightarrow> 'd mkdirs" where
  "two_asked w = \<lparr>mk_pcs = [Asked, Asked], mk_world = w\<rparr>"

lemma two_workers:
  assumes "k < (2::nat)" and "j < 2" and "k \<noteq> j"
  obtains "k = 0" "j = 1" | "k = 1" "j = 0"
  using assms by (auto simp: less_2_cases_iff)

lemma serial_run:
  assumes srv: "sql_server eq like M st" and w: "between st t U w" "card U < 4"
    and mk: "makeable t uid path n d" and rm: "room t" and free: "\<not> name_taken eq t d n"
    and kj: "k < 2" "j < 2" "k \<noteq> j"
  shows "\<exists>s. run_of mkdir_ok (mkdir_step M path n uid) [k, k, j] (two_asked w) = Inr s \<and>
    mk_pcs s = [Asked, Asked][k := Told 2, j := Told 1] \<and> between st (with_dir uid d n t) U (mk_world s)"
proof -
  have refl: "\<And>s. eq s s" using srv by (simp add: sql_server_def)
  from look_gives [OF srv w mk] free obtain c w1 where
    w1: "mkdir_look M path n uid w = Inr (Looked c d, w1)" "c \<notin> U" "between st t (insert c U) w1" by auto
  from make_gives [OF srv w1(3,2) mk rm] obtain w2 where
    w2: "mkdir_make M c d n uid w1 = (Told 2, w2)" "between st (with_dir uid d n t) U w2" by blast
  note mk2 = made [OF mk rm refl free]
  from look_gives [OF srv w2(2) w(2) mk2(1)] mk2(2) obtain w3 where
    "mkdir_look M path n uid w2 = Inr (Told 1, w3)" "between st (with_dir uid d n t) U w3" by auto
  with w1(1) w2(1) show ?thesis
    by (cases rule: two_workers [OF kj]) (simp_all add: two_asked_def mkdir_step_def mkdir_ok_def)
qed

lemma racing_run:
  assumes srv: "sql_server eq like M st" and w: "between st t U w" "card U < 3" "finite U"
    and mk: "makeable t uid path n d" and rm: "room t" "room (with_dir uid d n t)" and free: "\<not> name_taken eq t d n"
    and kj: "k < 2" "j < 2" "k \<noteq> j" and ab: "(a, b) = (k, j) \<or> (a, b) = (j, k)"
  shows "\<exists>s. run_of mkdir_ok (mkdir_step M path n uid) [k, j, a, b] (two_asked w) = Inr s \<and>
    mk_pcs s = [Told 2, Told 2] \<and> between st (with_dir uid d n (with_dir uid d n t)) U (mk_world s)"
proof -
  have refl: "\<And>s. eq s s" using srv by (simp add: sql_server_def)
  from look_gives [OF srv w(1) _ mk] w(2) free obtain c w1 where
    w1: "mkdir_look M path n uid w = Inr (Looked c d, w1)" "c \<notin> U" "between st t (insert c U) w1" by auto
  have "card (insert c U) < 4" using w(2,3) by (simp add: card_insert_if)
  from look_gives [OF srv w1(3) this mk] free obtain e w2 where
    w2: "mkdir_look M path n uid w1 = Inr (Looked e d, w2)" "e \<notin> insert c U" "between st t (insert e (insert c U)) w2"
    by auto
  note mk2 = made [OF mk rm(1) refl free]
  have two: "\<exists>w3 w4. mkdir_make M x d n uid w2 = (Told 2, w3) \<and> mkdir_make M y d n uid w3 = (Told 2, w4) \<and>
      between st (with_dir uid d n (with_dir uid d n t)) U w4" if "(x, y) = (c, e) \<or> (x, y) = (e, c)" for x y
  proof -
    have "x \<notin> insert y U" "y \<notin> U" "insert e (insert c U) = insert x (insert y U)" using that w1(2) w2(2) by auto
    with make_gives [OF srv _ _ mk rm(1), where U = "insert y U" and w = w2 and c = x] w2(3) obtain w3 where
      "mkdir_make M x d n uid w2 = (Told 2, w3)" "between st (with_dir uid d n t) (insert y U) w3" by auto
    with make_gives [OF srv _ _ mk2(1) rm(2), where U = U and w = w3 and c = y] \<open>y \<notin> U\<close> show ?thesis by blast
  qed
  note halves = w1(1) w2(1) two_asked_def mkdir_step_def mkdir_ok_def
  from ab show ?thesis
  proof
    assume "(a, b) = (k, j)"
    with two [of c e] show ?thesis by (cases rule: two_workers [OF kj]) (auto simp: halves)
  next
    assume "(a, b) = (j, k)"
    with two [of e c] show ?thesis by (cases rule: two_workers [OF kj]) (auto simp: halves)
  qed
qed

text \<open>C37: two sessions of an account make the same directory: \<^verbatim>\<open>query_mkdir\<close> keeps the names of a directory
  apart only when one call ends before the other looks. One after the other, the second worker is told
  that the name is in use and the tables hold one new directory. When both look before the first inserts,
  both are told that they have made it, in either order of the inserts; two entries of the directory then
  have the name, and the user's entries are no tree any more. Every connection is given back.\<close>

theorem mkdir_race:
  assumes "sql_server eq like M st" and "ready st w" and "2 \<le> dp_available (w_pool w)"
    and "user_tree uid (tabs st w)" and "path \<noteq> []" and "name_ok n"
    and "resolve_dir (tabs st w) uid path = d" and "d \<noteq> 0" and "\<not> name_taken eq (tabs st w) d n"
    and "room (tabs st w)" and "room (with_dir uid d n (tabs st w))"
    and "k < 2" and "j < 2" and "k \<noteq> j"
  shows "(\<exists>s. run_of mkdir_ok (mkdir_step M path n uid) [k, k, j] (two_asked w) = Inr s \<and>
      mk_pcs s = [Asked, Asked][k := Told 2, j := Told 1] \<and> tabs st (mk_world s) = with_dir uid d n (tabs st w) \<and>
      user_tree uid (tabs st (mk_world s)) \<and> pool_used (w_pool (mk_world s)) = pool_used (w_pool w)) \<and>
    (\<forall>sched \<in> {[k, j, k, j], [k, j, j, k]}. \<exists>s.
      run_of mkdir_ok (mkdir_step M path n uid) sched (two_asked w) = Inr s \<and>
      mk_pcs s = [Told 2, Told 2] \<and> tabs st (mk_world s) = with_dir uid d n (with_dir uid d n (tabs st w)) \<and>
      \<not> user_tree uid (tabs st (mk_world s)) \<and> pool_used (w_pool (mk_world s)) = pool_used (w_pool w))"
proof -
  have w: "between st (tabs st w) (pool_used (w_pool w)) w" using assms(2) by (simp add: between_def ready_def)
  have used: "finite (pool_used (w_pool w))" "card (pool_used (w_pool w)) < 3"
    using db.used_avail [of "w_pool w"] assms(2,3) by (auto simp: ready_def)
  have mk: "makeable (tabs st w) uid path n d" using assms by (simp add: makeable_def ready_def)
  have refl: "\<And>s. eq s s" using assms(1) by (simp add: sql_server_def)
  have once: "user_tree uid (with_dir uid d n (tabs st w))"
    using made(1) [OF mk assms(10) refl assms(9)] by (simp add: makeable_def)
  show ?thesis
  proof (intro conjI ballI)
    from used(2) serial_run [OF assms(1) w _ mk assms(10,9,12-14)] obtain s where
      "run_of mkdir_ok (mkdir_step M path n uid) [k, k, j] (two_asked w) = Inr s"
      "mk_pcs s = [Asked, Asked][k := Told 2, j := Told 1]"
      "between st (with_dir uid d n (tabs st w)) (pool_used (w_pool w)) (mk_world s)" by auto
    with once show "\<exists>s. run_of mkdir_ok (mkdir_step M path n uid) [k, k, j] (two_asked w) = Inr s \<and>
      mk_pcs s = [Asked, Asked][k := Told 2, j := Told 1] \<and> tabs st (mk_world s) = with_dir uid d n (tabs st w) \<and>
      user_tree uid (tabs st (mk_world s)) \<and> pool_used (w_pool (mk_world s)) = pool_used (w_pool w)"
      by (auto simp only: between_def)
  next
    fix sched assume "sched \<in> {[k, j, k, j], [k, j, j, k]}"
    then obtain a b where sched: "sched = [k, j, a, b]" and ab: "(a, b) = (k, j) \<or> (a, b) = (j, k)" by blast
    from racing_run [OF assms(1) w used(2,1) mk assms(10,11,9,12-14) ab] obtain s where
      "run_of mkdir_ok (mkdir_step M path n uid) sched (two_asked w) = Inr s" "mk_pcs s = [Told 2, Told 2]"
      "between st (with_dir uid d n (with_dir uid d n (tabs st w))) (pool_used (w_pool w)) (mk_world s)"
      unfolding sched by blast
    with made_twice show "\<exists>s. run_of mkdir_ok (mkdir_step M path n uid) sched (two_asked w) = Inr s \<and>
      mk_pcs s = [Told 2, Told 2] \<and> tabs st (mk_world s) = with_dir uid d n (with_dir uid d n (tabs st w)) \<and>
      \<not> user_tree uid (tabs st (mk_world s)) \<and> pool_used (w_pool (mk_world s)) = pool_used (w_pool w)"
      by (auto simp only: between_def)
  qed
qed

lemma mkdir_race_witness:
  "(\<exists>s. run_of mkdir_ok (mkdir_step table_server ''/ann/docs'' ''new'' 1) [1, 1, 0] (two_asked demo) = Inr s \<and>
      mk_pcs s = [Told 1, Told 2]) \<and>
   (\<exists>s. run_of mkdir_ok (mkdir_step table_server ''/ann/docs'' ''new'' 1) [1, 0, 1, 0] (two_asked demo) = Inr s \<and>
      mk_pcs s = [Told 2, Told 2])"
proof -
  have "room (with_dir 1 2 ''new'' demo_tables)" "2 \<le> dp_available (w_pool demo)"
    "\<not> name_taken (=) demo_tables 2 ''new''"
    by (simp_all add: room_def with_dir_def add_file_def add_entry_def demo_def demo_pool_def demo_eval)
  moreover have "name_ok ''new''" by (simp add: demo_eval)
  ultimately have "(\<exists>s. run_of mkdir_ok (mkdir_step table_server ''/ann/docs'' ''new'' 1) [1, 1, 0] (two_asked demo) = Inr s \<and>
      mk_pcs s = [Asked, Asked][1 := Told 2, 0 := Told 1]) \<and>
    (\<exists>s. run_of mkdir_ok (mkdir_step table_server ''/ann/docs'' ''new'' 1) [1, 0, 1, 0] (two_asked demo) = Inr s \<and>
      mk_pcs s = [Told 2, Told 2])"
    using mkdir_race [OF table_server_ok demo_ready, of 1 "''/ann/docs''" "''new''" 2 1 0, unfolded demo_tabs]
      demo_tree demo_dir(1) demo_room by (simp del: run_of.simps) blast
  then show ?thesis by (simp del: run_of.simps)
qed

end
