(* ===== verification/CryptTest.thy ===== *)
theory CryptTest
  imports CryptWrap
begin

text \<open>
  The test program of the password hash, the \<^verbatim>\<open>TEST\<close> section of \<^verbatim>\<open>bcrypt/wrapper.c\<close>: its vectors,
  the checks of \<^verbatim>\<open>main\<close> on each of them, the checks of the salts, and the timed loop \<^verbatim>\<open>run\<close>. Computing
  a hash is out of reach of the logic, so the result is what the many checks come to.
\<close>

subsection \<open>The vectors\<close>

text \<open>A hash, a key, and a setting where it is not the start of the hash.\<close>

type_synonym hash_vector = "string \<times> string \<times> string option"

definition tests :: "hash_vector list" where
  "tests =
   [(''$2a$05$CCCCCCCCCCCCCCCCCCCCC.E5YPO9kmyuRGyh0XouQYb4YMJKvyOeW'', ''U*U'', None),
    (''$2a$05$CCCCCCCCCCCCCCCCCCCCC.VGOzA784oUp/Z0DY336zx7pLYAy0lwK'', ''U*U*'', None),
    (''$2a$05$XXXXXXXXXXXXXXXXXXXXXOAcXxm9kjPGEMsLznoKqmqw7tc8WCx4a'', ''U*U*U'', None),
    (''$2a$05$abcdefghijklmnopqrstuu5s2v8.iXieOjg/.AySBTTZIIVFJeBui'',
      ''0123456789abcdefghijklmnopqrstuvwxyzABCDEFGHIJKLMNOPQRSTUVWXYZ0123456789chars after 72 are ignored'', None),
    (''$2x$05$/OK.fbVrR/bpIqNJ5ianF.CE5elHaaO4EbggVDjb8P19RukzXSM3e'', [CHR 0xa3], None),
    (''$2x$05$/OK.fbVrR/bpIqNJ5ianF.CE5elHaaO4EbggVDjb8P19RukzXSM3e'', [CHR 0xff, CHR 0xff, CHR 0xa3], None),
    (''$2y$05$/OK.fbVrR/bpIqNJ5ianF.CE5elHaaO4EbggVDjb8P19RukzXSM3e'', [CHR 0xff, CHR 0xff, CHR 0xa3], None),
    (''$2a$05$/OK.fbVrR/bpIqNJ5ianF.nqd1wy.pTMdcvrRWxyiGL2eMz.2a85.'', [CHR 0xff, CHR 0xff, CHR 0xa3], None),
    (''$2b$05$/OK.fbVrR/bpIqNJ5ianF.CE5elHaaO4EbggVDjb8P19RukzXSM3e'', [CHR 0xff, CHR 0xff, CHR 0xa3], None),
    (''$2y$05$/OK.fbVrR/bpIqNJ5ianF.Sa7shbm4.OzKpvFnX1pQLmQW96oUlCq'', [CHR 0xa3], None),
    (''$2a$05$/OK.fbVrR/bpIqNJ5ianF.Sa7shbm4.OzKpvFnX1pQLmQW96oUlCq'', [CHR 0xa3], None),
    (''$2b$05$/OK.fbVrR/bpIqNJ5ianF.Sa7shbm4.OzKpvFnX1pQLmQW96oUlCq'', [CHR 0xa3], None),
    (''$2x$05$/OK.fbVrR/bpIqNJ5ianF.o./n25XVfn6oAPaUvHe.Csk4zRfsYPi'', ''1'' @ [CHR 0xa3] @ ''345'', None),
    (''$2x$05$/OK.fbVrR/bpIqNJ5ianF.o./n25XVfn6oAPaUvHe.Csk4zRfsYPi'', [CHR 0xff, CHR 0xa3] @ ''345'', None),
    (''$2x$05$/OK.fbVrR/bpIqNJ5ianF.o./n25XVfn6oAPaUvHe.Csk4zRfsYPi'',
      [CHR 0xff, CHR 0xa3] @ ''34'' @ [CHR 0xff, CHR 0xff, CHR 0xff, CHR 0xa3] @ ''345'', None),
    (''$2y$05$/OK.fbVrR/bpIqNJ5ianF.o./n25XVfn6oAPaUvHe.Csk4zRfsYPi'',
      [CHR 0xff, CHR 0xa3] @ ''34'' @ [CHR 0xff, CHR 0xff, CHR 0xff, CHR 0xa3] @ ''345'', None),
    (''$2a$05$/OK.fbVrR/bpIqNJ5ianF.ZC1JEJ8Z4gPfpe1JOr/oyPXTWl9EFd.'',
      [CHR 0xff, CHR 0xa3] @ ''34'' @ [CHR 0xff, CHR 0xff, CHR 0xff, CHR 0xa3] @ ''345'', None),
    (''$2y$05$/OK.fbVrR/bpIqNJ5ianF.nRht2l/HRhr6zmCp9vYUvvsqynflf9e'', [CHR 0xff, CHR 0xa3] @ ''345'', None),
    (''$2a$05$/OK.fbVrR/bpIqNJ5ianF.nRht2l/HRhr6zmCp9vYUvvsqynflf9e'', [CHR 0xff, CHR 0xa3] @ ''345'', None),
    (''$2a$05$/OK.fbVrR/bpIqNJ5ianF.6IflQkJytoRVc1yuaNtHfiuq.FRlSIS'', [CHR 0xa3] @ ''ab'', None),
    (''$2x$05$/OK.fbVrR/bpIqNJ5ianF.6IflQkJytoRVc1yuaNtHfiuq.FRlSIS'', [CHR 0xa3] @ ''ab'', None),
    (''$2y$05$/OK.fbVrR/bpIqNJ5ianF.6IflQkJytoRVc1yuaNtHfiuq.FRlSIS'', [CHR 0xa3] @ ''ab'', None),
    (''$2x$05$6bNw2HLQYeqHYyBfLMsv/OiwqTymGIGzFsA4hOTWebfehXHNprcAS'', [CHR 0xd1, CHR 0x91], None),
    (''$2x$05$6bNw2HLQYeqHYyBfLMsv/O9LIGgn8OMzuDoHfof8AQimSGfcSWxnS'',
      [CHR 0xd0, CHR 0xc1, CHR 0xd2, CHR 0xcf, CHR 0xcc, CHR 0xd8], None),
    (''$2a$05$/OK.fbVrR/bpIqNJ5ianF.swQOIzjOiJ9GHEPuhEkvqrUyvWhEMx6'',
      replicate 72 (CHR 0xaa) @ ''chars after 72 are ignored as usual'', None),
    (''$2a$05$/OK.fbVrR/bpIqNJ5ianF.R9xrDjiycxMbQE2bp.vgqlYpW5wx2yy'',
      concat (replicate 36 [CHR 0xaa, CHR 0x55]), None),
    (''$2a$05$/OK.fbVrR/bpIqNJ5ianF.9tQZzcJfm3uj2NvJ/n5xkhpqLrMpWCe'',
      concat (replicate 24 [CHR 0x55, CHR 0xaa, CHR 0xff]), None),
    (''$2a$05$CCCCCCCCCCCCCCCCCCCCC.7uG0VCzI2bS7j6ymqJi9CdcdxiRTWNy'', '''', None),
    (''*0'', '''', Some ''$2a$03$CCCCCCCCCCCCCCCCCCCCC.''),
    (''*0'', '''', Some ''$2a$32$CCCCCCCCCCCCCCCCCCCCC.''),
    (''*0'', '''', Some ''$2c$05$CCCCCCCCCCCCCCCCCCCCC.''),
    (''*0'', '''', Some ''$2z$05$CCCCCCCCCCCCCCCCCCCCC.''),
    (''*0'', '''', Some (''$2'' @ [CHR 0x60] @ ''$05$CCCCCCCCCCCCCCCCCCCCC.'')),
    (''*0'', '''', Some ''$2{$05$CCCCCCCCCCCCCCCCCCCCC.''),
    (''*1'', '''', Some ''*0'')]"

subsection \<open>The checks of one vector\<close>

text \<open>\<^verbatim>\<open>strcmp\<close> with a pointer that may be null: whether the texts agree. \<open>errno\<close> was cleared before.\<close>

definition strcmpR :: "string option \<Rightarrow> string \<Rightarrow> bool res" where
  "strcmpR p s = (case p of None \<Rightarrow> Inl NullDeref | Some t \<Rightarrow> Inr (t = s))"

definition errno_set :: "errno + string \<Rightarrow> bool" where
  "errno_set r = (case r of Inl e \<Rightarrow> True | Inr h \<Rightarrow> False)"

definition is_null :: "errno + string \<Rightarrow> bool" where
  "is_null r = (case r of Inl e \<Rightarrow> True | Inr h \<Rightarrow> False)"

text \<open>\<open>output\<close> is the static buffer of \<^verbatim>\<open>crypt\<close>. The checks give whether they failed.\<close>

definition test_crypt :: "bool \<Rightarrow> string \<Rightarrow> string \<Rightarrow> string \<Rightarrow> string \<Rightarrow> (bool \<times> string) res" where
  "test_crypt ok hash key setting output =
     (let no_errno = \<not> errno_set (fst (crypt_rn key setting output 61));
          (p, output) = crypt key setting output
      in if \<not> ok \<and> no_errno then Inr (True, output)
         else
           bindR (strcmpR p hash) (\<lambda>same.
           if \<not> same then Inr (True, output)
           else if ok then
             let (p, output) = crypt key hash output
             in bindR (strcmpR p hash) (\<lambda>same. Inr (\<not> same, output))
           else Inr (False, output)))"

text \<open>\<^verbatim>\<open>crypt_rn\<close> into a buffer that holds \<^verbatim>\<open>abc\<close>, said to be of \<open>o_size\<close> characters.\<close>

definition test_rn :: "bool \<Rightarrow> string \<Rightarrow> string \<Rightarrow> string \<Rightarrow> int \<Rightarrow> bool" where
  "test_rn ok hash key setting o_size =
     (let ok_n = (ok \<and> o_size = 61);
          x = (if 3 \<le> o_size
               then if at setting 0 = CHR ''*'' \<and> at setting 1 = CHR ''0'' then ''*1'' else ''*0''
               else ''abc'');
          (p, o_buf) = crypt_rn key setting ''abc'' o_size
      in (ok_n \<and> (is_null p \<or> p \<noteq> Inr hash)) \<or> (\<not> ok_n \<and> (\<not> errno_set p \<or> \<not> is_null p \<or> o_buf \<noteq> x)))"

text \<open>\<^verbatim>\<open>crypt_ra\<close> sets \<^verbatim>\<open>errno\<close> exactly when it returns a null pointer.\<close>

definition test_ra :: "bool \<Rightarrow> bool \<Rightarrow> string \<Rightarrow> string \<Rightarrow> string \<Rightarrow> string option \<Rightarrow> int \<Rightarrow>
    (bool \<times> string option \<times> int) res" where
  "test_ra grown ok hash key setting data n =
     (let (p, data, n) = crypt_ra grown key setting data n
      in if ok then Inr (p \<noteq> Some hash, data, n)
         else if p \<noteq> None then Inr (True, data, n)
         else bindR (strcmpR data hash) (\<lambda>same. Inr (\<not> same, data, n)))"

record test_state =
  ts_output :: string
  ts_data :: "string option"
  ts_size :: int

definition test_vector :: "bool \<Rightarrow> nat \<Rightarrow> hash_vector \<Rightarrow> test_state \<Rightarrow> ((string \<times> nat) option \<times> test_state) res" where
  "test_vector grown i v st =
     (let (hash, key, setting) = v;
          ok = (setting = None \<or> 30 \<le> length hash);
          setting = (case setting of None \<Rightarrow> take 29 hash | Some s \<Rightarrow> s)
      in bindR (test_crypt ok hash key setting (ts_output st)) (\<lambda>(failed, output).
         let st = st\<lparr>ts_output := output\<rparr>
         in if failed then Inr (Some (''crypt'', i), st)
            else if list_ex (test_rn ok hash key setting) [-1..61] then Inr (Some (''crypt_rn'', i), st)
            else
              bindR (test_ra grown ok hash key setting (ts_data st) (ts_size st)) (\<lambda>(failed, data, n).
              let st = st\<lparr>ts_data := data, ts_size := n\<rparr>
              in if failed then Inr (Some (''crypt_ra'', i), st) else Inr (None, st))))"

fun test_loop :: "bool \<Rightarrow> nat \<Rightarrow> hash_vector list \<Rightarrow> test_state \<Rightarrow> ((string \<times> nat) option \<times> test_state) res" where
  "test_loop grown i [] st = Inr (None, st)"
| "test_loop grown i (v # vs) st =
     bindR (test_vector grown i v st) (\<lambda>(r, st).
     if r \<noteq> None then Inr (r, st) else test_loop grown (i + 1) vs st)"

subsection \<open>The checks of the salts, the whole program\<close>

text \<open>\<open>raw\<close> are the cells of the buffer \<^verbatim>\<open>crypt_ra\<close> has allocated, \<open>dup\<close> whether \<^verbatim>\<open>strdup\<close> succeeds.\<close>

definition test_salts :: "bool \<Rightarrow> string \<Rightarrow> int \<Rightarrow> string option res" where
  "test_salts dup raw n =
     (case crypt_gensalt (fst (hd tests)) 12 (Some raw) n of
        Inl e \<Rightarrow> Inr (Some ''crypt_gensalt'')
      | Inr setting1 \<Rightarrow>
          if take 7 setting1 \<noteq> ''$2a$12$'' then Inr (Some ''crypt_gensalt'')
          else
            let setting2 = crypt_gensalt_ra dup setting1 12 (Some raw) n
            in bindR (strcmpR setting2 setting1) (\<lambda>same.
               if \<not> same then Inr (Some ''crypt_gensalt_ra/1'')
               else
                 let raw = char_of (of_char (hd raw) + 1 :: nat) # tl raw;
                     setting3 = crypt_gensalt_ra dup (the setting2) 12 (Some raw) n
                 in bindR (strcmpR setting3 (the setting2)) (\<lambda>same.
                    Inr (if same then Some ''crypt_gensalt_ra/2'' else None))))"

text \<open>What \<^verbatim>\<open>main\<close> reports before the timing starts.\<close>

definition test_main :: "bool \<Rightarrow> bool \<Rightarrow> string \<Rightarrow> string option res" where
  "test_main grown dup raw =
     bindR (test_loop grown 0 tests \<lparr>ts_output = [], ts_data = None, ts_size = 0x12345678\<rparr>) (\<lambda>(r, st).
     case r of
       Some (name, i) \<Rightarrow> Inr (Some name)
     | None \<Rightarrow> test_salts dup raw (ts_size st))"

text \<open>The timed loop: the number of hashes computed when the timer ends it after \<open>n\<close> more turns, None when
  one was wrong.\<close>

fun run_timed :: "bool \<Rightarrow> nat \<Rightarrow> nat \<Rightarrow> nat \<Rightarrow> string option \<Rightarrow> int \<Rightarrow> nat option res" where
  "run_timed grown n i cnt data sz =
     (let (hash, key, setting) = tests ! i;
          i = (if i + 1 = length tests then 0 else i + 1)
      in if setting \<noteq> None \<and> length hash < 30
         then (case n of 0 \<Rightarrow> Inr (Some cnt) | Suc n \<Rightarrow> run_timed grown n i cnt data sz)
         else
           let (p, data, sz) = crypt_ra grown key hash data sz
           in bindR (strcmpR p hash) (\<lambda>same.
              if \<not> same then Inr None
              else (case n of 0 \<Rightarrow> Inr (Some (cnt + 1)) | Suc n \<Rightarrow> run_timed grown n i (cnt + 1) data sz)))"

declare run_timed.simps [simp del]

subsection \<open>What the functions return\<close>

abbreviation self_tested :: "string \<Rightarrow> bool" where
  "self_tested s \<equiv> crypt_self_test (at s 2) (unat (subtype_flags (at s 2) AND 1))"

definition hashes_to :: "string \<Rightarrow> string \<Rightarrow> string \<Rightarrow> bool" where
  "hashes_to key s h \<longleftrightarrow> BF_crypt key s 61 16 = Inr h \<and> self_tested s"

definition refused :: "string \<Rightarrow> string \<Rightarrow> bool" where
  "refused key s \<longleftrightarrow> (\<exists>e. BF_crypt key s 61 16 = Inl e)"

lemma BF_crypt_sizes:
  "n < 61 \<Longrightarrow> BF_crypt key s n m = Inl ERANGE" "61 \<le> n \<Longrightarrow> BF_crypt key s n m = BF_crypt key s 61 m"
  by (simp_all add: BF_crypt_def)

lemma length_magic: "length (snd (crypt_output_magic s out 61)) = 2"
  by (simp add: crypt_output_magic_def)

lemma magic_text: "3 \<le> n \<Longrightarrow> snd (crypt_output_magic s out n) = snd (crypt_output_magic s [] 61)"
  by (simp add: crypt_output_magic_def)

lemma crypt_eq: "crypt = crypt_r"
  by (simp add: fun_eq_iff crypt_def crypt_r_def)

lemma crypt_gives:
  assumes "length h = 60"
  obtains p where "crypt key s out = (Some p, p)" and "p = h \<longleftrightarrow> hashes_to key s h"
proof (cases "BF_crypt key s 61 16")
  case (Inl e)
  show thesis
    by (rule that [of "snd (crypt_output_magic s [] 61)"])
      (use Inl assms length_magic [of s "[]"] in \<open>auto simp: crypt_eq crypt_r_refused hashes_to_def\<close>)
next
  case (Inr g)
  show thesis
    by (rule that [of "if self_tested s then g else snd (crypt_output_magic s [] 61)"])
      (use Inr assms length_magic [of s "[]"] in \<open>auto simp: crypt_eq crypt_r_hash hashes_to_def\<close>)
qed

lemma crypt_refused:
  assumes "refused key s"
  shows "crypt key s out = (Some (snd (crypt_output_magic s [] 61)), snd (crypt_output_magic s [] 61))"
  using assms by (auto simp: refused_def crypt_eq crypt_r_refused)

text \<open>\<^verbatim>\<open>crypt_rn\<close> at every buffer size: too small for a hash, it writes at most the invalid text.\<close>

lemma crypt_rn_gives:
  assumes "length h = 60" and "61 \<le> n"
  shows "fst (crypt_rn key s out n) = Inr h \<longleftrightarrow> hashes_to key s h"
proof (cases "BF_crypt key s 61 16")
  case (Inl e)
  with BF_crypt_sizes(2) [OF assms(2)] crypt_rn_refused [of key s n e out] show ?thesis
    by (auto simp: crypt_rn_def hashes_to_def)
next
  case (Inr g)
  with BF_crypt_sizes(2) [OF assms(2)] crypt_rn_hash [of key s n g out] show ?thesis
    by (auto simp: crypt_rn_def hashes_to_def)
qed

lemma crypt_rn_none:
  assumes "n < 61 \<or> refused key s"
  obtains e where "crypt_rn key s out n = (Inl e, snd (crypt_output_magic s out n))"
proof -
  have "\<exists>e. BF_crypt key s n 16 = Inl e"
    using assms BF_crypt_sizes [of n key s 16] by (cases "n < 61") (auto simp: refused_def)
  with crypt_rn_refused [of key s n _ out] that show thesis
    by (cases "crypt_blowfish_rn key s out n") (auto simp: crypt_rn_def)
qed

lemma alloc_gives:
  obtains d n' where "crypt_data_alloc True data n 61 = (0, Some d, n')" and "61 \<le> n'"
proof (cases "data \<noteq> None \<and> 61 \<le> n")
  case True
  with that [of "the data" n] show thesis by (auto simp: crypt_data_alloc_def)
next
  case False
  with that [of "case data of None \<Rightarrow> [] | Some d \<Rightarrow> d" 61] show thesis by (auto simp: crypt_data_alloc_def)
qed

lemma crypt_ra_gives:
  assumes "length h = 60"
  obtains p d n' where "crypt_ra True key s data n = (p, Some d, n')" and "61 \<le> n'"
    and "p = Some h \<longleftrightarrow> hashes_to key s h"
proof -
  obtain d n1 where a: "crypt_data_alloc True data n 61 = (0, Some d, n1)" "61 \<le> n1" by (rule alloc_gives)
  obtain r d' where b: "crypt_blowfish_rn key s d n1 = (r, d')" by fastforce
  have "r = Inr h \<longleftrightarrow> hashes_to key s h"
    using crypt_rn_gives [OF assms a(2), of key s d] b by (simp add: crypt_rn_def)
  with that [of "case r of Inl e \<Rightarrow> None | Inr h \<Rightarrow> Some h" d' n1] a b show thesis
    by (cases r) (auto simp: crypt_ra_def)
qed

lemma crypt_ra_none:
  assumes "refused key s"
  obtains n' where "crypt_ra True key s data n = (None, Some (snd (crypt_output_magic s [] 61)), n')" and "61 \<le> n'"
proof -
  obtain d n1 where a: "crypt_data_alloc True data n 61 = (0, Some d, n1)" "61 \<le> n1" by (rule alloc_gives)
  from crypt_rn_none [of n1 key s d] assms obtain e where
    "crypt_blowfish_rn key s d n1 = (Inl e, snd (crypt_output_magic s d n1))" by (auto simp: crypt_rn_def)
  with that [of n1] a magic_text [of n1 s d] show thesis by (simp add: crypt_ra_def)
qed

text \<open>Only the first 29 characters of a hash are its setting.\<close>

lemma hashes_to_prefix:
  assumes len: "length h = 60"
  shows "hashes_to key (take 29 h) h \<longleftrightarrow> match_password key h"
proof -
  have same: "at (take 29 h) i = at h i" if "i < 29" for i using that len by (simp add: at_take)
  have "BF_crypt key (take 29 h) 61 16 = Inr h" if hyp: "BF_crypt key h 61 16 = Inr h"
    using hyp
  proof (rule BF_crypt_decodes)
    fix salt v
    assume s: "BF_decode (drop 7 h) 16 = Some salt" and v: "BF_safe_atoi64 (at h 28) = Some v"
      and again: "\<And>y u q. BF_safe_atoi64 y = Some u \<Longrightarrow> u AND 0x30 = v AND 0x30 \<Longrightarrow>
        BF_decode (take 21 (drop 7 h) @ y # q) 16 = Some salt"
    have "drop 7 (take 29 h) = take 21 (drop 7 h) @ [at h 28]"
      using len take_Suc_conv_app_nth [of 21 "drop 7 h"] by (simp add: drop_take at_def)
    then have "BF_decode (drop 7 (take 29 h)) 16 = Some salt" using again [OF v, of "[]"] by simp
    moreover have "setting_ok (take 29 h) = setting_ok h" "setting_count (take 29 h) = setting_count h"
      by (simp_all add: setting_ok_def setting_count_def same)
    ultimately show ?thesis using hyp s len by (simp add: BF_crypt_def same Let_def min_def split: if_splits)
  qed
  then show ?thesis
    using BF_crypt_again [of key "take 29 h" 61 16 h] same [of 2] by (auto simp: hashes_to_def match_password_iff)
qed

lemma hashes_again: "hashes_to key (take 29 h) h \<Longrightarrow> length h = 60 \<Longrightarrow> hashes_to key h h"
  using BF_crypt_again [of key "take 29 h" 61 16 h] by (auto simp: hashes_to_def at_take)

subsection \<open>What the checks come to\<close>

lemma test_rn_small: "n < 61 \<or> refused key s \<Longrightarrow> \<not> (ok \<and> n = 61) \<Longrightarrow> \<not> test_rn ok h key s n"
  by (rule crypt_rn_none [of n key s "''abc''"])
    (auto simp: test_rn_def errno_set_def is_null_def crypt_output_magic_def)

lemma test_rn_hash:
  assumes "length h = 60" and "hashes_to key s h"
  shows "\<not> list_ex (test_rn True h key s) [-1..61]"
proof -
  have "\<not> test_rn True h key s 61"
    using crypt_rn_gives [OF assms(1), of 61 key s "''abc''"] assms(2)
    by (auto simp: test_rn_def is_null_def split: prod.splits)
  moreover have "\<not> test_rn True h key s n" if "n < 61" for n using test_rn_small that by simp
  ultimately show ?thesis by (force simp: list_ex_iff)
qed

lemma test_vector_hash:
  assumes len: "length h = 60"
  shows "\<exists>st'. test_vector True i (h, key, None) st = Inr (if match_password key h then None else Some (''crypt'', i), st') \<and>
    (61 \<le> ts_size st \<longrightarrow> 61 \<le> ts_size st')"
proof -
  let ?s = "take 29 h"
  obtain p where p: "crypt key ?s (ts_output st) = (Some p, p)" "p = h \<longleftrightarrow> hashes_to key ?s h"
    by (rule crypt_gives [OF len])
  show ?thesis
  proof (cases "hashes_to key ?s h")
    case False
    then have "test_crypt True h key ?s (ts_output st) = Inr (True, p)" using p by (simp add: test_crypt_def strcmpR_def)
    with False show ?thesis by (simp add: test_vector_def flip: hashes_to_prefix [OF len])
  next
    case True
    obtain q where q: "crypt key h p = (Some q, q)" "q = h" using crypt_gives [OF len] hashes_again [OF True len] by metis
    then have c: "test_crypt True h key ?s (ts_output st) = Inr (False, q)"
      using True p by (simp add: test_crypt_def strcmpR_def)
    obtain r d n where "crypt_ra True key ?s (ts_data st) (ts_size st) = (r, Some d, n)" "61 \<le> n" "r = Some h"
      using crypt_ra_gives [OF len] True by metis
    then show ?thesis
      using True c test_rn_hash [OF len True]
      by (simp add: test_vector_def test_ra_def flip: hashes_to_prefix [OF len])
  qed
qed

lemma test_vector_refused:
  assumes "refused key s" and "length h < 30" and "h = snd (crypt_output_magic s [] 61)"
  shows "\<exists>st'. test_vector True i (h, key, Some s) st = Inr (None, st') \<and> 61 \<le> ts_size st'"
proof -
  from crypt_rn_none [of 61 key s "ts_output st"] assms(1) obtain e where
    "crypt_rn key s (ts_output st) 61 = (Inl e, snd (crypt_output_magic s (ts_output st) 61))" by blast
  then have "test_crypt False h key s (ts_output st) = Inr (False, h)"
    using crypt_refused [OF assms(1)] assms(3) by (simp add: test_crypt_def errno_set_def strcmpR_def)
  moreover have "\<not> list_ex (test_rn False h key s) [-1..61]"
    using test_rn_small [of _ key s False h] assms(1) by (simp add: list_ex_iff)
  moreover obtain n where "crypt_ra True key s (ts_data st) (ts_size st) = (None, Some h, n)" "61 \<le> n"
    using crypt_ra_none [OF assms(1)] assms(3) by metis
  ultimately show ?thesis using assms(2) by (simp add: test_vector_def test_ra_def strcmpR_def)
qed

text \<open>The vectors are of these two kinds.\<close>

definition vector_form :: "hash_vector \<Rightarrow> bool" where
  "vector_form v = (case v of
       (h, key, None) \<Rightarrow> length h = 60
     | (h, key, Some s) \<Rightarrow> length h < 30 \<and> refused key s \<and> h = snd (crypt_output_magic s [] 61))"

definition vector_ok :: "hash_vector \<Rightarrow> bool" where
  "vector_ok v = (case v of (h, key, s) \<Rightarrow> s = None \<longrightarrow> match_password key h)"

lemma test_vector_result:
  assumes "vector_form v"
  shows "\<exists>st'. test_vector True i v st = Inr (if vector_ok v then None else Some (''crypt'', i), st') \<and>
    (61 \<le> ts_size st \<longrightarrow> 61 \<le> ts_size st')"
proof -
  obtain h key s where v: "v = (h, key, s)" by (cases v)
  show ?thesis
  proof (cases s)
    case None
    with assms test_vector_hash [of h i key st] show ?thesis by (simp add: v vector_form_def vector_ok_def)
  next
    case (Some s')
    with assms test_vector_refused [of key s' h i st] show ?thesis by (auto simp: v vector_form_def vector_ok_def)
  qed
qed

lemma test_loop_result:
  "list_all vector_form vs \<Longrightarrow> 61 \<le> ts_size st \<Longrightarrow>
   \<exists>r st'. test_loop True i vs st = Inr (r, st') \<and> (r = None \<longleftrightarrow> list_all vector_ok vs) \<and> 61 \<le> ts_size st'"
proof (induction vs arbitrary: i st)
  case (Cons v vs)
  then have "vector_form v" by simp
  from test_vector_result [OF this, of i st] Cons.prems obtain st1 where
    v: "test_vector True i v st = Inr (if vector_ok v then None else Some (''crypt'', i), st1)" "61 \<le> ts_size st1"
    by auto
  with Cons.IH [of st1 "i + 1"] Cons.prems show ?case by (cases "vector_ok v") auto
qed simp

subsection \<open>The vectors of the file\<close>

lemma tests_lengths:
  "list_all (\<lambda>(h, key, s). if s = None then length h = 60 else length h < 30) tests" "length tests = 35"
  by (simp_all add: tests_def)

lemma cheap_count_refused: "setting_count s < 16 \<Longrightarrow> refused key s"
  by (simp add: refused_def BF_crypt_def Let_def)

lemma bad_setting_refused: "\<not> setting_ok s \<Longrightarrow> refused key s"
  by (simp add: refused_def BF_crypt_def)

lemma tests_bad:
  "list_all (\<lambda>(h, key, s). s \<noteq> None \<longrightarrow> setting_count (the s) < 16 \<or> \<not> setting_ok (the s)) tests"
  by (simp add: tests_def setting_count_def digit_def setting_ok_def at_def subtype_flags_def flags_by_subtype_def
      less_char_def)

lemma tests_refused: "(h, key, Some s) \<in> set tests \<Longrightarrow> refused key s"
  using tests_bad cheap_count_refused bad_setting_refused by (fastforce simp: list_all_iff)

lemma tests_magic: "list_all (\<lambda>(h, key, s). s \<noteq> None \<longrightarrow> h = snd (crypt_output_magic (the s) [] 61)) tests"
  by (simp add: tests_def crypt_output_magic_def at_def)

lemma tests_form: "list_all vector_form tests"
  using tests_lengths(1) tests_magic tests_refused
  by (fastforce simp: list_all_iff vector_form_def split: option.splits)

subsection \<open>Salts\<close>

lemma of_char_byte: "(of_char c :: byte) = of_char d \<longleftrightarrow> c = d"
proof
  have "unat (of_nat (of_char c) :: byte) = of_char c" for c :: char
    using nat_of_char_less_256 [of c] by (simp add: unat_of_nat del: of_nat_of_char)
  moreover assume "(of_char c :: byte) = of_char d"
  then have "(of_nat (of_char c) :: byte) = of_nat (of_char d)" by (simp only: of_nat_of_char)
  ultimately have "(of_char c :: nat) = of_char d" by metis
  then show "c = d" by simp
qed simp

lemma next_char: "char_of (of_char c + 1 :: nat) \<noteq> c"
proof
  assume "char_of (of_char c + 1 :: nat) = c"
  then have "(of_char (char_of (of_char c + 1 :: nat)) :: nat) = of_char c" by simp
  then show False by (simp add: of_char_of mod_Suc split: if_splits)
qed

lemma at_fixed:
  "at ''$2a$'' 0 = CHR ''$''" "at ''$2a$'' 1 = CHR ''2''" "at ''$2a$'' 2 = CHR ''a''"
  "0 < length ''$2a$''" "1 < length ''$2a$''" "2 < length ''$2a$''"
  by (simp_all add: at_def)

lemma salts_pass:
  assumes raw: "16 \<le> length raw" and n: "16 \<le> n"
  shows "test_salts True raw n = Inr None"
proof -
  define g where "g r = ''$2a$12$'' @ BF_encode (map of_char (take 16 r))" for r :: string
  have gen: "crypt_gensalt_rn pfx 12 (Some r) n 30 = Inr (g r)"
    if "take 4 pfx = ''$2a$''" for pfx r
  proof -
    have "pfx = ''$2a$'' @ drop 4 pfx" using that append_take_drop_id [of 4 pfx] by simp
    then have "at pfx 0 = CHR ''$''" "at pfx 1 = CHR ''2''" "at pfx 2 = CHR ''a''"
      by (metis at_append [of 0 "''$2a$''"] at_append [of 1 "''$2a$''"] at_append [of 2 "''$2a$''"] at_fixed)+
    moreover have "char_of (49 :: nat) = CHR ''1''" "char_of (50 :: nat) = CHR ''2''" by code_simp+
    ultimately show ?thesis using that n by (simp add: crypt_gensalt_rn_def crypt_gensalt_blowfish_rn_def g_def)
  qed
  obtain c r where cr: "raw = c # r" using raw by (cases raw) auto
  let ?raw = "char_of (of_char c + 1 :: nat) # r"
  have "map (of_char :: char \<Rightarrow> byte) (take 16 ?raw) \<noteq> map of_char (take 16 raw)"
    using next_char [of c] by (simp add: cr of_char_byte)
  then have "g ?raw \<noteq> g raw"
    using salts_faithful [of "map of_char (take 16 ?raw)" "map of_char (take 16 raw)"] raw by (simp add: g_def cr)
  then show ?thesis
    by (simp add: test_salts_def crypt_gensalt_def crypt_gensalt_ra_def gen g_def strcmpR_def cr tests_def)
qed

subsection \<open>The timed loop\<close>

lemma match_hash: "length h = 60 \<Longrightarrow> hashes_to key h h \<longleftrightarrow> match_password key h"
  by (simp add: hashes_to_def match_password_iff)

lemma run_timed_right:
  assumes "list_all vector_ok tests" and "i < length tests"
  shows "\<exists>m. run_timed True n i cnt data sz = Inr (Some m) \<and> cnt \<le> m \<and> m \<le> cnt + n + 1"
  using assms(2)
proof (induction n arbitrary: i cnt data sz)
  case 0
  obtain h key s where v: "tests ! i = (h, key, s)" by (cases "tests ! i")
  show ?case
  proof (cases "s \<noteq> None \<and> length h < 30")
    case True
    with v show ?thesis by (subst run_timed.simps) simp
  next
    case False
    then have "hashes_to key h h" and len: "length h = 60"
      using tests_form assms(1) nth_mem [OF 0] v match_hash
      by (fastforce simp: list_all_iff vector_form_def vector_ok_def split: option.splits)+
    then obtain d n' where "crypt_ra True key h data sz = (Some h, d, n')" by (metis crypt_ra_gives)
    with v False show ?thesis by (subst run_timed.simps) (auto simp: strcmpR_def)
  qed
next
  case (Suc n)
  obtain h key s where v: "tests ! i = (h, key, s)" by (cases "tests ! i")
  let ?j = "if i + 1 = length tests then 0 else i + 1"
  have j: "?j < length tests" using Suc.prems by auto
  show ?case
  proof (cases "s \<noteq> None \<and> length h < 30")
    case True
    with v Suc.IH [OF j, of cnt data sz] show ?thesis by (subst run_timed.simps) auto
  next
    case False
    then have "hashes_to key h h" and len: "length h = 60"
      using tests_form assms(1) nth_mem [OF Suc.prems] v match_hash
      by (fastforce simp: list_all_iff vector_form_def vector_ok_def split: option.splits)+
    then obtain d n' where "crypt_ra True key h data sz = (Some h, d, n')" by (metis crypt_ra_gives)
    with v False Suc.IH [OF j, of "cnt + 1" d n'] show ?thesis
      by (subst run_timed.simps) (auto simp: strcmpR_def)
  qed
qed

subsection \<open>Property\<close>

text \<open>C38: the test program tests the server's password check: given memory, it reports no failure, neither for the
  28 hashes nor for the 7 settings to be refused nor for the salts, exactly when \<^verbatim>\<open>match_password\<close>
  accepts its key for each of the 28 hashes; all its other checks (hashing with the hash as setting, 63
  buffer sizes of \<^verbatim>\<open>crypt_rn\<close>, \<^verbatim>\<open>crypt_ra\<close>, refused settings, salts) hold whatever the hash computes.\<close>

theorem test_program_checks_match:
  assumes "16 \<le> length raw"
  shows "test_main True True raw = Inr None \<longleftrightarrow>
    (\<forall>(h, key, s)\<in>set tests. s = None \<longrightarrow> match_password key h)"
proof -
  from test_loop_result [OF tests_form, of "\<lparr>ts_output = [], ts_data = None, ts_size = 0x12345678\<rparr>" 0]
  obtain r st' where l: "test_loop True 0 tests \<lparr>ts_output = [], ts_data = None, ts_size = 0x12345678\<rparr> = Inr (r, st')"
    and r: "r = None \<longleftrightarrow> list_all vector_ok tests" and n: "61 \<le> ts_size st'" by auto
  have "test_main True True raw = Inr None \<longleftrightarrow> r = None"
    using l salts_pass [OF assms, of "ts_size st'"] n by (auto simp: test_main_def split: option.splits)
  then show ?thesis by (simp add: r list_all_iff vector_ok_def)
qed

lemma test_program_checks_match_witness:
  "test_main True True (replicate 61 (CHR ''x'')) = Inr None \<longleftrightarrow>
    (\<forall>(h, key, s)\<in>set tests. s = None \<longrightarrow> match_password key h)"
  by (rule test_program_checks_match) simp

end
