(* ===== verification/Spec2Isabelle.thy ===== *)
theory Spec2Isabelle
  imports WorkerWake Lifecycle DbHelpers ServerLog ClientProps StoreProps DealRace CryptTest
begin

text \<open>
  Netdisk is a network disk in C: a server process per listening socket with an \<^verbatim>\<open>epoll\<close> loop, a pool
  of worker threads and a MySQL database behind a pool of connections, and a terminal client. The
  client logs in, gets a signed token, and sends commands (\<^verbatim>\<open>cd ls ll pwd mkdir puts gets rm\<close>) as
  fixed-size messages that carry the token of the last answer; file contents go over connections of
  their own and are stored once per SHA-256 digest. This library models the server and the client
  function by function and states what makes each part correct, and where the code falls short of it.

  \<^bold>\<open>How the program is represented.\<close> A C function is a HOL function of its arguments and of the state it
  touches. \<open>Prelude\<close> has the result type: \<open>Inl\<close> a \<open>fault\<close> (a null or dangling pointer, an access
  outside an array, a call that ends or blocks the process), \<open>Inr\<close> the value. Texts are character lists
  without their terminator, \<open>strcpyR n\<close> is a copy into \<open>n\<close> characters. Integers that can overflow are
  reduced where the code converts them (\<open>c_int\<close>, \<open>c_ulong\<close>, \<open>c_long\<close>), the cipher works on 32-bit words.
  Structures are records with the source's fields. Functions keep the source's names.

  \<^bold>\<open>Server, infrastructure.\<close>
  \<^item> \<open>ToolPath\<close>, \<open>ToolText\<close>: \<^verbatim>\<open>server/tool.c\<close>. \<open>simplifyPath\<close> is proved equal to resolving the components
    of a path, \<open>get_user_path\<close> to resolving below the user's root or work path; words of a command line,
    the configuration reader.
  \<^item> \<open>TaskQueue\<close>, \<open>WorkerPool\<close>: \<^verbatim>\<open>server/taskQueue.c\<close>, \<^verbatim>\<open>threadPool.c\<close>, the waiting part of
    \<^verbatim>\<open>thread.c\<close>. The linked queue lives in an explicit heap and is shown to implement a list, except
    where it leaves its head dangling; the locale \<open>task_channel\<close> is what workers and the loop use of it.
  \<^item> \<open>ServerLoop\<close>: the loop of \<^verbatim>\<open>main.c\<close> with \<^verbatim>\<open>tcpConnect.c\<close>, the workers and the pipe as one step
    relation \<open>reach\<close>, with the invariant that a client's descriptor has one holder at a time;
    The kernel reports only watched descriptors that are open; the invariant needs one condition on the
    messages more, \<open>numbered\<close>: a request whose handler closes the connection carries a long command's
    number. The server does not check it, and without it the process ends (a theorem there); the
    repository's client sends no other messages (\<open>client_numbers_agree\<close> in \<open>ClientProps\<close>).
    \<open>ServerProgress\<close> bounds the steps that serve what is queued and shows what they end in. \<open>Machine\<close>
    states once, as locales, what runs inherit from their steps; the loop, its serving steps, the
    workers' lock operations and the operations on the store are its interpretations.
  \<^item> \<open>WorkerWake\<close>: mutex, condition variable and exit flag of \<^verbatim>\<open>thread.c\<close>, \<^verbatim>\<open>threadPool.c\<close>, \<^verbatim>\<open>main.c\<close>, one
    step per lock operation: no wake-up is lost, and the workers can always be joined.
  \<^item> \<open>Lifecycle\<close>: start and end of the work process (\<^verbatim>\<open>main.c\<close>, \<^verbatim>\<open>init_server\<close>, the database settings), the
    loop over one batch of ready descriptors, the client's \<^verbatim>\<open>tcpInit.c\<close>.
  \<^item> \<open>DbPool\<close>: the connection pool of \<^verbatim>\<open>database.c\<close>, with the locale \<open>connection_source\<close>.
  \<^item> \<open>ServerLog\<close>: \<^verbatim>\<open>log.c\<close> and the macros \<^verbatim>\<open>LOG\<close> and \<^verbatim>\<open>LOG_WITH_TIME\<close>. \<open>output_control\<close> calls itself
    through its own warning, so it is a partial function: None is a call that never returns, and the
    theorem says exactly when that is.

  \<^bold>\<open>Server, data.\<close>
  \<^item> \<open>Entities\<close>: \<^verbatim>\<open>entity.h\<close>, \<^verbatim>\<open>convert_entity.c\<close> and \<^verbatim>\<open>get_result_set\<close>; three interpretations of the
    locale \<open>codec\<close> of \<open>Prelude\<close> say that rows read back as the records they store.
  \<^item> \<open>SqlText\<close>, \<open>SqlServer\<close>: \<^verbatim>\<open>query\<close>, the statements of \<^verbatim>\<open>deal_sql.c\<close> and the database server's
    contract \<open>sql_server\<close>; \<open>TableServer\<close> is a server that keeps it, on which every property that assumes
    the contract is run. Its state has the log of what the tables durably were, so that a transaction
    is told from single statements: \<open>user_register\<close> and the uploads move the tables in one durable step.
  \<^item> \<open>DbHelpers\<close>: \<^verbatim>\<open>query_security\<close> and the time conversions, which no handler calls.
  \<^item> \<open>DealSql\<close>: the operations of \<^verbatim>\<open>deal_sql.c\<close>; \<open>Directory\<close> and \<open>DirectoryProps\<close> prove what each does to
    the tables (look up, make, upload, download, remove, register), on every branch. \<open>StoreProps\<close> has
    the invariant all of them keep for all accounts, and the upload that breaks it. \<open>DealRace\<close> has
    \<^verbatim>\<open>query_mkdir\<close> in two steps, and the runs of two workers that make one directory twice.

  \<^bold>\<open>Server, requests.\<close>
  \<^item> \<open>Messages\<close>, \<open>Handlers\<close>, \<open>FileTransfer\<close>: \<^verbatim>\<open>send_message\<close>, the handlers of \<^verbatim>\<open>file_no_change.c\<close> and
    \<^verbatim>\<open>file_change.c\<close>, and both ends of a transfer (\<^verbatim>\<open>client/pthread.c\<close>); properties in
    \<open>HandlerProps\<close> and \<open>TransferProps\<close> (an uploaded file downloads as it was, a resumed upload does not).
  \<^item> \<open>BfTables\<close>, \<open>BfCodec\<close>, \<open>BfCipher\<close>, \<open>BfCrypt\<close>, \<open>CryptWrap\<close>: the password hash under \<^verbatim>\<open>server/bcrypt\<close>
    with its tables, self-test, salts and wrapper, and the password functions of \<^verbatim>\<open>hash.c\<close>. The rounds
    are proved equal to Blowfish as published, the codec to be a codec, and a stored password to match.
    \<open>CryptTest\<close> is the test program of \<^verbatim>\<open>wrapper.c\<close>: what its checks come to.
  \<^item> \<open>Tokens\<close>: digests, the token key and the tokens of \<^verbatim>\<open>hash.c\<close>.
  \<^item> \<open>Sessions\<close>, \<open>SessionProps\<close>: \<^verbatim>\<open>login.c\<close> and the serving part of \<^verbatim>\<open>thread.c\<close>: one request from the
    message to the answers, with the worker's token variable, which survives from request to request.

  \<^bold>\<open>Client.\<close> \<open>ClientText\<close>, \<open>Client\<close>: \<^verbatim>\<open>Tools.c\<close>, \<^verbatim>\<open>judgment.c\<close>, \<^verbatim>\<open>login.c\<close>, \<^verbatim>\<open>register.c\<close>,
  \<^verbatim>\<open>pthread.c\<close>, \<^verbatim>\<open>client.c\<close>. \<open>ClientProps\<close> joins client and server: a typed command reaches the handler of
  its name, a typed password decides the login, a listing is printed whole.

  \<^bold>\<open>What is assumed.\<close> Code outside the repository is a parameter. \<open>sql_server\<close> states what the statements
  do to three tables, for texts that need no quoting, rows in any order, the collation's equality and
  \<^verbatim>\<open>like\<close> as parameters; a change is durable at once on a connection that commits automatically,
  and with the \<^verbatim>\<open>mysql_commit\<close> otherwise; switching the mode is specified where nothing is uncommitted. \<open>jwt_library\<close> states that a token in force decodes to the claims it was made
  of. SHA-256, \<^verbatim>\<open>rand\<close>, \<^verbatim>\<open>open\<close>, \<^verbatim>\<open>stat\<close>, the page size, the allocator's block size, the local date and times are
  arguments without further assumption, or with the one a theorem names. The self-test of the hash is
  a condition in the statements that depend on it; evaluating it in the logic is out of reach, outside
  the logic the model passes it and the published test vectors.

  \<^bold>\<open>Loops and bounds.\<close> Recursions are structural or have a measure, with two exceptions. The walks of
  \<^verbatim>\<open>dequeue\<close> have as fuel one step more than there are addresses in use, which a walk that is not on a
  cycle never needs. \<open>output_control\<close> is a \<open>partial_function\<close>, with its domain proved. A critical section
  under a mutex is one step, except in \<open>WorkerWake\<close>; an operation on the tables is one step, except in \<open>DealRace\<close>.

  \<^bold>\<open>Not modelled.\<close> The system calls themselves, \<^verbatim>\<open>fork\<close> and \<^verbatim>\<open>wait\<close> in \<^verbatim>\<open>main\<close>, the time an alarm takes;
  timings and threads of the test program in \<^verbatim>\<open>wrapper.c\<close>, the assembly of the rounds; what is printed on the
  server's terminal; the log calls inside other functions, whose effect is \<open>ServerLog\<close>'s. A fault while
  a token is made (a key of 128 characters, a token of exactly 1024) counts as no token in
  \<open>token_maker\<close>. Transfers are modelled one at a time; concurrent writers of one file are not.
\<close>

end
